(* ===== verification/Prelude.thy ===== *)
theory Prelude
  imports Main "HOL-Library.Word" "HOL-Library.Multiset"
begin

text \<open>
  Shared vocabulary of the development: the machine integers of the x86\_64 target
  (\<open>target-pointer-width = 64\<close>), the outcome of running kernel code (a value, a
  panic, or no return), Rust's arithmetic under the dev profile (an overflowing
  \<open>+\<close> or \<open>-\<close> panics, \<open>checked_add\<close> returns \<open>None\<close>), loops over a range,
  and the generic lemmas that the components use.
\<close>

unbundle bit_operations_syntax

named_theorems outcome_simps \<open>evaluation of kernel code that returns\<close>

type_synonym u8 = "8 word"
type_synonym u16 = "16 word"
type_synonym u32 = "32 word"
type_synonym u64 = "64 word"
type_synonym usize = "64 word"

subsection \<open>Outcomes\<close>

text \<open>
  Every way a Rust panic arises in the sources: arithmetic overflow, an index out of
  range, a failed \<open>assert!\<close>, a failed \<open>expect\<close>/\<open>unwrap\<close> and an explicit
  \<open>panic!\<close>. \<open>Diverge\<close> is the outcome of a loop that does not end.
\<close>

datatype panic =
    ArithmeticOverflow
  | IndexOutOfBounds
  | AssertionFailed
  | ExpectFailed string
  | ExplicitPanic string

datatype 'a outcome = Ret 'a | Panic panic | Diverge

fun and_then :: "'a outcome \<Rightarrow> ('a \<Rightarrow> 'b outcome) \<Rightarrow> 'b outcome" where
  "and_then (Ret x) f = f x"
| "and_then (Panic e) f = Panic e"
| "and_then Diverge f = Diverge"

fun assert_that :: "bool \<Rightarrow> unit outcome" where
  "assert_that b = (if b then Ret () else Panic AssertionFailed)"

fun expect :: "string \<Rightarrow> 'a option \<Rightarrow> 'a outcome" where
  "expect msg (Some x) = Ret x"
| "expect msg None = Panic (ExpectFailed msg)"

text \<open>The result of a loop given by \<^theory_text>\<open>partial_function (option)\<close>.\<close>

fun loop_outcome :: "'a outcome option \<Rightarrow> 'a outcome" where
  "loop_outcome None = Diverge"
| "loop_outcome (Some r) = r"

fun returns :: "'a outcome \<Rightarrow> bool" where
  "returns (Ret x) = True"
| "returns _ = False"

lemma and_then_eq_Ret [simp]:
  "and_then m f = Ret y \<longleftrightarrow> (\<exists>x. m = Ret x \<and> f x = Ret y)"
  by (cases m) auto

lemma and_then_assoc: "and_then (and_then m f) g = and_then m (\<lambda>x. and_then (f x) g)"
  by (cases m) auto

lemma and_then_Ret [simp]: "and_then m Ret = m"
  by (cases m) auto

lemma returns_iff: "returns m \<longleftrightarrow> (\<exists>x. m = Ret x)"
  by (cases m) auto

subsection \<open>Loops over a range\<close>

text \<open>\<open>for x in xs { body }\<close>, where the body updates a state and may panic.\<close>

fun for_each :: "'a list \<Rightarrow> ('a \<Rightarrow> 's \<Rightarrow> 's outcome) \<Rightarrow> 's \<Rightarrow> 's outcome" where
  "for_each [] f s = Ret s"
| "for_each (x # xs) f s = and_then (f x s) (for_each xs f)"

lemma for_each_append:
  "for_each (xs @ ys) f s = and_then (for_each xs f s) (for_each ys f)"
proof (induction xs arbitrary: s)
  case Nil
  then show ?case by simp
next
  case (Cons x xs)
  then show ?case by (cases "f x s") auto
qed

lemma for_each_fold:
  assumes "\<And>x s. x \<in> set xs \<Longrightarrow> I s \<Longrightarrow> f x s = Ret (g x s) \<and> I (g x s)" and "I s"
  shows "for_each xs f s = Ret (fold g xs s) \<and> I (fold g xs s)"
  using assms
proof (induction xs arbitrary: s)
  case Nil
  then show ?case by simp
next
  case (Cons x xs)
  then have "f x s = Ret (g x s)" and "I (g x s)" by auto
  with Cons.IH [of "g x s"] Cons.prems(1) show ?case by simp
qed

lemma for_each_upt:
  assumes "P a s" and "a \<le> b"
    and "\<And>i t. a \<le> i \<Longrightarrow> i < b \<Longrightarrow> P i t \<Longrightarrow> \<exists>t'. f i t = Ret t' \<and> P (Suc i) t'"
  shows "\<exists>s'. for_each [a..<b] f s = Ret s' \<and> P b s'"
  using assms
proof (induction "b - a" arbitrary: a s)
  case 0
  then show ?case by simp
next
  case (Suc n)
  then have "a < b" by simp
  with Suc.prems obtain t where "f a s = Ret t" and "P (Suc a) t" by blast
  with Suc.hyps(1) [of "Suc a" t] Suc.hyps(2) Suc.prems(3) \<open>a < b\<close> show ?case
    by (simp add: upt_conv_Cons)
qed

subsection \<open>Array access\<close>

lemma map_upds_nth:
  assumes "distinct xs" and "length xs = length ys" and "i < length xs"
  shows "(m(xs [\<mapsto>] ys)) (xs ! i) = Some (ys ! i)"
  using assms
proof (induction xs arbitrary: m ys i)
  case Nil
  then show ?case by simp
next
  case (Cons x xs)
  then obtain y zs where "ys = y # zs" by (cases ys) auto
  with Cons show ?case by (cases i) auto
qed

definition index_checked :: "'a list \<Rightarrow> nat \<Rightarrow> 'a outcome" where
  "index_checked xs i = (if i < length xs then Ret (xs ! i) else Panic IndexOutOfBounds)"

lemma index_checked_Ret [simp]: "i < length xs \<Longrightarrow> index_checked xs i = Ret (xs ! i)"
  by (simp add: index_checked_def)

subsection \<open>Formatting\<close>

text \<open>The decimal digits to which \<open>{}\<close> formats an unsigned number.\<close>

fun decimal :: "nat \<Rightarrow> u8 list" where
  "decimal n = (if n < 10 then [] else decimal (n div 10)) @ [0x30 + of_nat (n mod 10)]"

declare decimal.simps [simp del]

subsection \<open>Arithmetic of the dev profile\<close>

definition add_usize :: "usize \<Rightarrow> usize \<Rightarrow> usize outcome" where
  "add_usize a b =
     (if unat a + unat b < 2 ^ 64 then Ret (a + b) else Panic ArithmeticOverflow)"

definition sub_usize :: "usize \<Rightarrow> usize \<Rightarrow> usize outcome" where
  "sub_usize a b = (if b \<le> a then Ret (a - b) else Panic ArithmeticOverflow)"

definition checked_add :: "usize \<Rightarrow> usize \<Rightarrow> usize option" where
  "checked_add a b = (if unat a + unat b < 2 ^ 64 then Some (a + b) else None)"

definition is_power_of_two :: "usize \<Rightarrow> bool" where
  "is_power_of_two w \<longleftrightarrow> w \<in> set (map (\<lambda>k. 2 ^ k) [0..<64])"

lemma unat_less_2_64 [simp]: "unat (w :: usize) < 2 ^ 64"
  using unsigned_less [of w] by simp

lemma unat_less_max [simp]: "unat (w :: usize) < 18446744073709551616"
  using unsigned_less [of w] by simp

lemma unat_add_exact:
  fixes a b :: usize
  assumes "unat a + unat b < 2 ^ 64"
  shows "unat (a + b) = unat a + unat b"
  using assms by (simp add: unat_word_ariths)

lemma unat_sub_exact:
  fixes a b :: usize
  assumes "b \<le> a"
  shows "unat (a - b) = unat a - unat b"
  using assms by (rule unat_sub)

lemma add_usize_Ret [simp]:
  "add_usize a b = Ret c \<longleftrightarrow> unat a + unat b < 2 ^ 64 \<and> c = a + b"
  by (auto simp: add_usize_def)

lemma sub_usize_Ret [simp]: "sub_usize a b = Ret c \<longleftrightarrow> b \<le> a \<and> c = a - b"
  by (auto simp: sub_usize_def)

lemma checked_add_Some [simp]:
  "checked_add a b = Some c \<longleftrightarrow> unat a + unat b < 2 ^ 64 \<and> c = a + b"
  by (auto simp: checked_add_def)

lemma checked_add_None [simp]: "checked_add a b = None \<longleftrightarrow> 2 ^ 64 \<le> unat a + unat b"
  by (auto simp: checked_add_def)

lemma unat_exp:
  assumes "k < 64"
  shows "unat (2 ^ k :: usize) = 2 ^ k"
proof -
  have "unat (2 ^ k :: usize) = (2 ^ k) mod 2 ^ 64"
    using unat_of_nat [where 'a = 64, of "2 ^ k"] by simp
  moreover have "(2 :: nat) ^ k < 2 ^ 64" using assms by (simp only: power_strict_increasing)
  ultimately show ?thesis by (simp only: mod_less)
qed

lemma power_of_twoE:
  assumes "is_power_of_two w"
  obtains k where "k < 64" and "w = 2 ^ k" and "unat w = 2 ^ k"
  using assms that unat_exp by (auto simp: is_power_of_two_def)

lemma power_of_two_exp: "k < 64 \<Longrightarrow> is_power_of_two (2 ^ k)"
  by (auto simp: is_power_of_two_def)

lemma power_of_two_numerals [simp]:
  "is_power_of_two 8" "is_power_of_two 16" "is_power_of_two 32" "is_power_of_two 64"
  using power_of_two_exp [of 3] power_of_two_exp [of 4] power_of_two_exp [of 5]
    power_of_two_exp [of 6] by simp_all

lemma power_of_two_pos: "is_power_of_two w \<Longrightarrow> 0 < unat w"
  by (erule power_of_twoE) simp

subsection \<open>Rounding up to a multiple\<close>

definition round_up :: "nat \<Rightarrow> nat \<Rightarrow> nat" where
  "round_up n k = (n + k - 1) div k * k"

lemma round_up_eq: "round_up n k = n + k - 1 - (n + k - 1) mod k"
  by (simp add: round_up_def minus_mod_eq_div_mult)

lemma round_up_ge: "0 < k \<Longrightarrow> n \<le> round_up n k"
  using mod_less_divisor [of k "n + k - 1"] unfolding round_up_eq by linarith

lemma round_up_less: "0 < k \<Longrightarrow> round_up n k < n + k"
  by (simp add: round_up_eq)

lemma dvd_round_up [simp]: "k dvd round_up n k"
  by (simp add: round_up_def)

lemma round_up_least:
  assumes "0 < k" and "k dvd x" and "n \<le> x"
  shows "round_up n k \<le> x"
proof -
  from \<open>k dvd x\<close> obtain q where "x = k * q" by blast
  with assms have "(n + k - 1) div k \<le> (k * q + k - 1) div k"
    by (intro div_le_mono) simp
  also have "\<dots> = q" using \<open>0 < k\<close> by (metis Suc_pred add_diff_cancel_left' div_less div_mult_self2 lessI mult.commute less_irrefl add.commute add_0 Nat.add_diff_assoc One_nat_def Suc_leI)
  finally show ?thesis using \<open>x = k * q\<close> by (simp add: round_up_def mult.commute)
qed

lemma round_up_self: "0 < k \<Longrightarrow> k dvd n \<Longrightarrow> round_up n k = n"
  by (metis le_antisym order_refl round_up_ge round_up_least)

lemma round_up_not_dvd:
  assumes "0 < k" and "\<not> k dvd n"
  shows "round_up n k = n - n mod k + k"
proof -
  obtain q r where n: "n = q * k + r" and r: "0 < r" "r < k"
    using assms by (metis div_mult_mod_eq dvd_eq_mod_eq_0 gr0I mod_less_divisor)
  then have "n + k - 1 = (r - 1) + (q + 1) * k" by (simp add: algebra_simps)
  then have "(n + k - 1) div k = (q + 1) + (r - 1) div k"
    using \<open>0 < k\<close> by (simp only: div_mult_self1)
  with r have "(n + k - 1) div k = q + 1" by simp
  with n r show ?thesis by (simp add: round_up_def algebra_simps)
qed

lemma unat_and_not_mask:
  fixes x :: usize
  shows "unat (x AND NOT (mask k)) = unat x - unat x mod 2 ^ k"
proof -
  have "x AND NOT (mask k) = push_bit k (drop_bit k x)"
    by (rule bit_word_eqI) (auto simp: bit_simps)
  also have "\<dots> = x - take_bit k x"
    using bits_ident [of k x] by (simp add: algebra_simps)
  finally have eq: "x AND NOT (mask k) = x - take_bit k x" .
  have "unat (take_bit k x) = unat x mod 2 ^ k"
    by (simp add: unsigned_take_bit_eq flip: take_bit_eq_mod)
  moreover have "take_bit k x \<le> x"
    by (simp add: word_le_nat_alt unsigned_take_bit_eq take_bit_nat_less_eq_self)
  ultimately show ?thesis using eq by (simp add: unat_sub)
qed

lemma power_of_two_mask:
  assumes "is_power_of_two w"
  obtains k where "k < 64" and "w - 1 = mask k" and "unat w = 2 ^ k"
  using assms by (elim power_of_twoE) (simp add: mask_eq_exp_minus_1)

text \<open>Clearing the low bits below a power of two, after adding it minus one, rounds up.\<close>

lemma unat_round_up_mask:
  fixes a w :: usize
  assumes "is_power_of_two w" and "unat a + unat w \<le> 2 ^ 64"
  shows "unat ((a + w - 1) AND NOT (w - 1)) = round_up (unat a) (unat w)"
proof -
  obtain k where k: "w - 1 = mask k" "unat w = 2 ^ k"
    using assms(1) by (rule power_of_two_mask)
  have "0 < unat w" using assms(1) by (rule power_of_two_pos)
  then have "1 \<le> w" by (simp add: word_le_nat_alt)
  then have "unat (w - 1) = unat w - 1" by (simp add: unat_sub)
  with assms(2) \<open>0 < unat w\<close> have "unat (a + (w - 1)) = unat a + unat w - 1"
    by (subst unat_add_exact) auto
  then have "unat (a + w - 1) = unat a + unat w - 1" by (simp add: algebra_simps)
  with k show ?thesis by (simp add: unat_and_not_mask round_up_eq)
qed

lemma dvd_power_of_two:
  assumes "is_power_of_two v" and "is_power_of_two w" and "unat v \<le> unat w"
  shows "unat v dvd unat w"
  using assms by (auto elim!: power_of_twoE simp: le_imp_power_dvd)

end
