(* ===== verification/Vga_Buffer.thy ===== *)
theory Vga_Buffer
  imports Prelude
begin

text \<open>
  The VGA text buffer driver, \<open>src/vga_buffer.rs\<close>: the writer that prints at the
  bottom row of a 25 by 80 buffer and scrolls. The buffer's cells are
  \<open>volatile::Volatile<ScreenChar>\<close>; that crate's \<open>read\<close> and \<open>write\<close> are a record
  the definitions take as an argument, and the locale \<open>volatile_cell\<close> states what the
  driver relies on. The driver is shown to implement a terminal with an unbounded log of
  lines, of which the buffer shows the last 25.
\<close>

datatype color =
    Black | Blue | Green | Cyan | Red | Magenta | Brown | LightGray
  | DarkGray | LightBlue | LightGreen | LightCyan | LightRed | Pink | Yellow | White

fun color_u8 :: "color \<Rightarrow> u8" where
  "color_u8 Black = 0"
| "color_u8 Blue = 1"
| "color_u8 Green = 2"
| "color_u8 Cyan = 3"
| "color_u8 Red = 4"
| "color_u8 Magenta = 5"
| "color_u8 Brown = 6"
| "color_u8 LightGray = 7"
| "color_u8 DarkGray = 8"
| "color_u8 LightBlue = 9"
| "color_u8 LightGreen = 10"
| "color_u8 LightCyan = 11"
| "color_u8 LightRed = 12"
| "color_u8 Pink = 13"
| "color_u8 Yellow = 14"
| "color_u8 White = 15"

datatype color_code = ColorCode u8

definition color_code_new :: "color \<Rightarrow> color \<Rightarrow> color_code" where
  "color_code_new foreground background =
     ColorCode (push_bit 4 (color_u8 background) OR color_u8 foreground)"

record screen_char =
  ascii_character :: u8
  char_color :: color_code

definition BUFFER_HEIGHT :: usize where
  "BUFFER_HEIGHT = 25"

definition BUFFER_WIDTH :: usize where
  "BUFFER_WIDTH = 80"

text \<open>The operations of a \<open>Volatile<ScreenChar>\<close>, on cells of type \<open>'c\<close>.\<close>

record 'c volatile_ops =
  volatile_read :: "'c \<Rightarrow> screen_char"
  volatile_write :: "screen_char \<Rightarrow> 'c \<Rightarrow> 'c"

record 'c writer =
  column_position :: usize
  writer_color :: color_code
  buffer :: "'c list list"

definition writer_static :: "'c list list \<Rightarrow> 'c writer" where
  "writer_static screen =
     \<lparr>column_position = 0, writer_color = color_code_new Yellow Black, buffer = screen\<rparr>"

text \<open>\<open>self.buffer.chars[row][col].read()\<close> and \<open>.write(c)\<close>, with their bounds checks.\<close>

definition chars_read :: "'c volatile_ops \<Rightarrow> 'c writer \<Rightarrow> nat \<Rightarrow> nat \<Rightarrow> screen_char outcome" where
  "chars_read v w row col =
     and_then (index_checked (buffer w) row) (\<lambda>line.
     and_then (index_checked line col) (\<lambda>cell.
     Ret (volatile_read v cell)))"

definition chars_write ::
  "'c volatile_ops \<Rightarrow> 'c writer \<Rightarrow> nat \<Rightarrow> nat \<Rightarrow> screen_char \<Rightarrow> 'c writer outcome" where
  "chars_write v w row col c =
     and_then (index_checked (buffer w) row) (\<lambda>line.
     and_then (index_checked line col) (\<lambda>cell.
     Ret (w\<lparr>buffer := (buffer w)[row := line[col := volatile_write v c cell]]\<rparr>)))"

definition clear_row :: "'c volatile_ops \<Rightarrow> 'c writer \<Rightarrow> usize \<Rightarrow> 'c writer outcome" where
  "clear_row v w row =
     (let blank = \<lparr>ascii_character = 0x20, char_color = writer_color w\<rparr>
      in for_each [0..<unat BUFFER_WIDTH] (\<lambda>col w. chars_write v w (unat row) col blank) w)"

definition new_line :: "'c volatile_ops \<Rightarrow> 'c writer \<Rightarrow> 'c writer outcome" where
  "new_line v w =
     and_then
       (for_each [1..<unat BUFFER_HEIGHT] (\<lambda>row.
          for_each [0..<unat BUFFER_WIDTH] (\<lambda>col w.
            and_then (chars_read v w row col) (\<lambda>character.
            chars_write v w (row - 1) col character))) w) (\<lambda>w.
     and_then (sub_usize BUFFER_HEIGHT 1) (\<lambda>last.
     and_then (clear_row v w last) (\<lambda>w.
     Ret (w\<lparr>column_position := 0\<rparr>))))"

definition write_byte :: "'c volatile_ops \<Rightarrow> 'c writer \<Rightarrow> u8 \<Rightarrow> 'c writer outcome" where
  "write_byte v w byte =
     (if byte = 0x0A then new_line v w
      else
        and_then (if column_position w \<ge> BUFFER_WIDTH then new_line v w else Ret w) (\<lambda>w.
        and_then (sub_usize BUFFER_HEIGHT 1) (\<lambda>row.
        let col = column_position w;
            color_code = writer_color w
        in and_then (chars_write v w (unat row) (unat col)
             \<lparr>ascii_character = byte, char_color = color_code\<rparr>) (\<lambda>w.
           and_then (add_usize (column_position w) 1) (\<lambda>c.
           Ret (w\<lparr>column_position := c\<rparr>))))))"

definition write_string :: "'c volatile_ops \<Rightarrow> 'c writer \<Rightarrow> u8 list \<Rightarrow> 'c writer outcome" where
  "write_string v w s =
     for_each s (\<lambda>byte w.
       if 0x20 \<le> byte \<and> byte \<le> 0x7E \<or> byte = 0x0A then write_byte v w byte
       else write_byte v w 0xFE) w"

text \<open>\<open>fmt::Result\<close> is \<open>Some ()\<close> for \<open>Ok(())\<close>.\<close>

definition write_str :: "'c volatile_ops \<Rightarrow> 'c writer \<Rightarrow> u8 list \<Rightarrow> (unit option \<times> 'c writer) outcome" where
  "write_str v w s = and_then (write_string v w s) (\<lambda>w. Ret (Some (), w))"

text \<open>
  \<open>fmt::Write::write_fmt\<close> passes the pieces of the formatted arguments to
  \<open>write_str\<close> in order and stops at an error.
\<close>

fun write_fmt ::
  "'c volatile_ops \<Rightarrow> 'c writer \<Rightarrow> u8 list list \<Rightarrow> (unit option \<times> 'c writer) outcome" where
  "write_fmt v w [] = Ret (Some (), w)"
| "write_fmt v w (piece # pieces) =
     and_then (write_str v w piece) (\<lambda>(r, w).
     case r of Some _ \<Rightarrow> write_fmt v w pieces | None \<Rightarrow> Ret (None, w))"

text \<open>\<open>_print\<close> and the macro \<open>println!\<close>, on the writer that \<open>WRITER\<close> guards.\<close>

definition print_args :: "'c volatile_ops \<Rightarrow> 'c writer \<Rightarrow> u8 list list \<Rightarrow> 'c writer outcome" where
  "print_args v w args =
     and_then (write_fmt v w args) (\<lambda>(r, w). and_then (expect ''unwrap'' r) (\<lambda>_. Ret w))"

definition println :: "'c volatile_ops \<Rightarrow> 'c writer \<Rightarrow> u8 list list \<Rightarrow> 'c writer outcome" where
  "println v w args = print_args v w (args @ [[0x0A]])"

subsection \<open>Colours\<close>

definition code_foreground :: "color_code \<Rightarrow> u8" where
  "code_foreground c = (case c of ColorCode b \<Rightarrow> b AND 0x0F)"

definition code_background :: "color_code \<Rightarrow> u8" where
  "code_background c = (case c of ColorCode b \<Rightarrow> drop_bit 4 b)"

subsection \<open>The writer as a function of the visible characters\<close>

definition visible :: "'c volatile_ops \<Rightarrow> 'c writer \<Rightarrow> screen_char list list" where
  "visible v w = map (map (volatile_read v)) (buffer w)"

definition writer_wf :: "'c writer \<Rightarrow> bool" where
  "writer_wf w \<longleftrightarrow> length (buffer w) = 25 \<and> (\<forall>line\<in>set (buffer w). length line = 80) \<and>
     unat (column_position w) \<le> 80"

definition blank :: "color_code \<Rightarrow> screen_char" where
  "blank c = \<lparr>ascii_character = 0x20, char_color = c\<rparr>"

text \<open>
  The abstract terminal: a log of finished lines, the current line and the cursor. The
  screen is the last 25 lines of the log with the current line.
\<close>

record terminal =
  term_log :: "screen_char list list"
  term_line :: "screen_char list"
  term_col :: nat

definition term_newline :: "color_code \<Rightarrow> terminal \<Rightarrow> terminal" where
  "term_newline c t = \<lparr>term_log = term_log t @ [term_line t],
     term_line = replicate 80 (blank c), term_col = 0\<rparr>"

definition term_put :: "color_code \<Rightarrow> u8 \<Rightarrow> terminal \<Rightarrow> terminal" where
  "term_put c b t =
     (if b = 0x0A then term_newline c t
      else let t' = (if term_col t \<ge> 80 then term_newline c t else t)
           in t'\<lparr>term_line := (term_line t')[term_col t' := \<lparr>ascii_character = b, char_color = c\<rparr>],
                 term_col := term_col t' + 1\<rparr>)"

definition term_screen :: "terminal \<Rightarrow> screen_char list list" where
  "term_screen t = drop (length (term_log t) - 24) (term_log t) @ [term_line t]"

definition vga_byte :: "u8 \<Rightarrow> u8" where
  "vga_byte b = (if 0x20 \<le> b \<and> b \<le> 0x7E \<or> b = 0x0A then b else 0xFE)"

definition term_write :: "color_code \<Rightarrow> u8 list \<Rightarrow> terminal \<Rightarrow> terminal" where
  "term_write c s = fold (\<lambda>b. term_put c (vga_byte b)) s"

definition terminal_of :: "'c volatile_ops \<Rightarrow> 'c writer \<Rightarrow> terminal" where
  "terminal_of v w = \<lparr>term_log = butlast (visible v w), term_line = last (visible v w),
     term_col = unat (column_position w)\<rparr>"

definition shows_terminal :: "'c volatile_ops \<Rightarrow> 'c writer \<Rightarrow> terminal \<Rightarrow> bool" where
  "shows_terminal v w t \<longleftrightarrow> writer_wf w \<and> 24 \<le> length (term_log t) \<and>
     visible v w = term_screen t \<and> unat (column_position w) = term_col t"

locale volatile_cell =
  fixes v :: "'c volatile_ops"
  assumes read_write [simp]: "volatile_read v (volatile_write v c cell) = c"
begin

lemma visible_wf:
  assumes "writer_wf w"
  shows "length (visible v w) = 25" and "i < 25 \<Longrightarrow> length (visible v w ! i) = 80"
  using assms by (auto simp: writer_wf_def visible_def)

lemma chars_read_visible:
  assumes "writer_wf w" and "row < 25" and "col < 80"
  shows "chars_read v w row col = Ret (visible v w ! row ! col)"
  using assms by (simp add: chars_read_def writer_wf_def visible_def)

lemma chars_write_visible:
  assumes "writer_wf w" and "row < 25" and "col < 80"
  shows "\<exists>w'. chars_write v w row col c = Ret w' \<and> writer_wf w' \<and>
    visible v w' = (visible v w)[row := (visible v w ! row)[col := c]] \<and>
    column_position w' = column_position w \<and> writer_color w' = writer_color w"
  using assms
  by (auto simp: chars_write_def writer_wf_def visible_def map_update dest!: set_update_subset_insert [THEN subsetD])

text \<open>Overwriting a row cell by cell, with the characters of a list.\<close>

lemma overwrite_row:
  assumes "writer_wf w" and "row < 25" and "length cs = 80"
    and step: "\<And>col t. col < 80 \<Longrightarrow> writer_wf t \<Longrightarrow> writer_color t = writer_color w \<Longrightarrow>
      (\<And>i. i \<noteq> row \<Longrightarrow> visible v t ! i = visible v w ! i) \<Longrightarrow> f col t = chars_write v t row col (cs ! col)"
  shows "\<exists>w'. for_each [0..<80] f w = Ret w' \<and> writer_wf w' \<and>
    visible v w' = (visible v w)[row := cs] \<and>
    column_position w' = column_position w \<and> writer_color w' = writer_color w"
proof -
  let ?P = "\<lambda>k t. writer_wf t \<and> visible v t = (visible v w)[row := take k cs @ drop k (visible v w ! row)] \<and>
    column_position t = column_position w \<and> writer_color t = writer_color w"
  have "\<exists>w'. for_each [0..<80] f w = Ret w' \<and> ?P 80 w'"
  proof (rule for_each_upt [where P = ?P])
    fix col t
    assume col: "col < 80" and P: "?P col t"
    have len: "length (visible v w) = 25" "length (visible v w ! row) = 80"
      using visible_wf [OF assms(1)] assms(2) by auto
    have "f col t = chars_write v t row col (cs ! col)" using P col len by (intro step) auto
    moreover have "(take col cs @ drop col (visible v w ! row))[col := cs ! col] =
        take (Suc col) cs @ drop (Suc col) (visible v w ! row)"
      using col len assms(3)
      by (simp add: list_update_append take_Suc_conv_app_nth Cons_nth_drop_Suc [symmetric])
    ultimately show "\<exists>t'. f col t = Ret t' \<and> ?P (Suc col) t'"
      using chars_write_visible [of t row col "cs ! col"] P assms(2) col len by auto
  qed (use assms(1) in auto)
  then show ?thesis using visible_wf [OF assms(1)] assms(2,3) by auto
qed

lemma clear_row_visible:
  assumes "writer_wf w" and "unat row < 25"
  shows "\<exists>w'. clear_row v w row = Ret w' \<and> writer_wf w' \<and>
    visible v w' = (visible v w)[unat row := replicate 80 (blank (writer_color w))] \<and>
    column_position w' = column_position w \<and> writer_color w' = writer_color w"
  unfolding clear_row_def Let_def BUFFER_WIDTH_def blank_def [symmetric]
  using overwrite_row [OF assms, of "replicate 80 (blank (writer_color w))"] by simp

lemma scroll_visible:
  assumes "writer_wf w"
  shows "\<exists>w'. for_each [1..<25] (\<lambda>row. for_each [0..<80] (\<lambda>col w.
        and_then (chars_read v w row col) (\<lambda>character. chars_write v w (row - 1) col character))) w = Ret w' \<and>
    writer_wf w' \<and> visible v w' = tl (visible v w) @ [visible v w ! 24] \<and>
    column_position w' = column_position w \<and> writer_color w' = writer_color w"
    (is "\<exists>w'. for_each _ ?f w = Ret w' \<and> _")
proof -
  let ?V = "visible v w"
  let ?P = "\<lambda>k t. writer_wf t \<and> visible v t = take (k - 1) (tl ?V) @ drop (k - 1) ?V \<and>
    column_position t = column_position w \<and> writer_color t = writer_color w"
  have "\<exists>w'. for_each [1..<25] ?f w = Ret w' \<and> ?P 25 w'"
  proof (rule for_each_upt [where P = ?P])
    fix row t
    assume row: "1 \<le> row" "row < 25" and P: "?P row t"
    have "writer_wf t" using P by blast
    then have len: "length ?V = 25" "length (visible v t) = 25" "length (visible v t ! row) = 80"
      using visible_wf assms row by blast+
    have "\<exists>t'. ?f row t = Ret t' \<and> writer_wf t' \<and>
        visible v t' = (visible v t)[row - 1 := visible v t ! row] \<and>
        column_position t' = column_position t \<and> writer_color t' = writer_color t"
      using row \<open>writer_wf t\<close> len(3) by (intro overwrite_row) (auto simp: chars_read_visible)
    moreover have "(visible v t)[row - 1 := visible v t ! row] = take row (tl ?V) @ drop row ?V"
    proof -
      obtain k where k: "row = Suc k" using row by (cases row) auto
      then have t: "visible v t = take k (tl ?V) @ drop k ?V" using P by simp
      moreover have "visible v t ! row = tl ?V ! k"
        unfolding t using row len(1) k by (simp add: nth_append nth_tl)
      ultimately show ?thesis
        using row len(1) k by (simp add: list_update_append take_Suc_conv_app_nth Cons_nth_drop_Suc [symmetric])
    qed
    ultimately show "\<exists>t'. ?f row t = Ret t' \<and> ?P (Suc row) t'" using P by auto
  qed (use assms in auto)
  moreover have "drop 24 ?V = [?V ! 24]"
    using visible_wf(1) [OF assms] Cons_nth_drop_Suc [of 24 ?V] by simp
  ultimately show ?thesis using visible_wf(1) [OF assms] by auto
qed

lemma new_line_visible:
  assumes "writer_wf w"
  shows "\<exists>w'. new_line v w = Ret w' \<and> writer_wf w' \<and>
    visible v w' = tl (visible v w) @ [replicate 80 (blank (writer_color w))] \<and>
    column_position w' = 0 \<and> writer_color w' = writer_color w"
proof -
  obtain t where t: "for_each [1..<25] (\<lambda>row. for_each [0..<80] (\<lambda>col w.
        and_then (chars_read v w row col) (\<lambda>character. chars_write v w (row - 1) col character))) w = Ret t"
    "writer_wf t" "visible v t = tl (visible v w) @ [visible v w ! 24]" "writer_color t = writer_color w"
    using scroll_visible [OF assms] by blast
  obtain u where u: "clear_row v t 24 = Ret u" "writer_wf u"
    "visible v u = (visible v t)[24 := replicate 80 (blank (writer_color t))]"
    "writer_color u = writer_color t"
    using clear_row_visible [OF t(2), of 24] by auto
  have "new_line v w = Ret (u\<lparr>column_position := 0\<rparr>)"
    using t(1) u(1) by (simp add: new_line_def BUFFER_HEIGHT_def BUFFER_WIDTH_def sub_usize_def)
  moreover have "visible v (u\<lparr>column_position := 0\<rparr>) = visible v u" by (simp add: visible_def)
  ultimately show ?thesis
    using t u visible_wf(1) [OF assms] by (simp add: writer_wf_def list_update_append)
qed

lemma terminal_of_shows:
  assumes "writer_wf w"
  shows "shows_terminal v w (terminal_of v w)"
proof -
  have "visible v w \<noteq> []" using visible_wf(1) [OF assms] by auto
  with visible_wf(1) [OF assms] assms show ?thesis
    by (simp add: shows_terminal_def terminal_of_def term_screen_def)
qed

lemma new_line_shows:
  assumes "shows_terminal v w t"
  shows "\<exists>w'. new_line v w = Ret w' \<and> shows_terminal v w' (term_newline (writer_color w) t) \<and>
    writer_color w' = writer_color w"
proof -
  have wf: "writer_wf w" and len: "24 \<le> length (term_log t)" and vis: "visible v w = term_screen t"
    using assms by (auto simp: shows_terminal_def)
  obtain k where k: "length (term_log t) = k + 24" using len by (metis le_Suc_ex add.commute)
  have "tl (drop (length (term_log t) - 24) (term_log t)) = drop (Suc (length (term_log t)) - 24) (term_log t)"
    using k by (simp add: tl_drop drop_Suc)
  moreover have "drop (length (term_log t) - 24) (term_log t) \<noteq> []" using len by simp
  ultimately have "tl (term_screen t) @ [replicate 80 (blank (writer_color w))] =
      term_screen (term_newline (writer_color w) t)"
    using len by (simp add: term_screen_def term_newline_def)
  with new_line_visible [OF wf] vis len show ?thesis
    by (auto simp: shows_terminal_def term_newline_def)
qed

lemma put_char_shows:
  assumes "shows_terminal v w t" and "term_col t < 80"
  shows "\<exists>w' w''. chars_write v w 24 (unat (column_position w)) c = Ret w' \<and>
    add_usize (column_position w') 1 = Ret (column_position w'') \<and>
    w'' = w'\<lparr>column_position := column_position w''\<rparr> \<and>
    shows_terminal v w'' (t\<lparr>term_line := (term_line t)[term_col t := c], term_col := term_col t + 1\<rparr>) \<and>
    writer_color w'' = writer_color w"
proof -
  have wf: "writer_wf w" and len: "24 \<le> length (term_log t)" and vis: "visible v w = term_screen t"
    and col: "unat (column_position w) = term_col t"
    using assms by (auto simp: shows_terminal_def)
  obtain u where u: "chars_write v w 24 (term_col t) c = Ret u" "writer_wf u"
    "visible v u = (visible v w)[24 := (visible v w ! 24)[term_col t := c]]"
    "column_position u = column_position w" "writer_color u = writer_color w"
    using chars_write_visible [OF wf _ assms(2), of 24 c] by auto
  let ?w = "u\<lparr>column_position := column_position w + 1\<rparr>"
  have "unat (column_position w + 1) = term_col t + 1"
    using col assms(2) by (subst unat_add_exact) simp_all
  moreover have "visible v ?w = visible v u" by (simp add: visible_def)
  ultimately have "shows_terminal v ?w (t\<lparr>term_line := (term_line t)[term_col t := c], term_col := term_col t + 1\<rparr>)"
    using u len vis assms(2)
    by (simp add: shows_terminal_def writer_wf_def term_screen_def nth_append list_update_append)
  moreover have "add_usize (column_position u) 1 = Ret (column_position ?w)"
    using u(4) col assms(2) by simp
  ultimately show ?thesis using u col by (intro exI [of _ u] exI [of _ ?w]) simp
qed

lemma write_byte_shows:
  assumes "shows_terminal v w t"
  shows "\<exists>w'. write_byte v w b = Ret w' \<and> shows_terminal v w' (term_put (writer_color w) b t) \<and>
    writer_color w' = writer_color w"
proof (cases "b = 0x0A")
  case True
  then show ?thesis using new_line_shows [OF assms] by (simp add: write_byte_def term_put_def)
next
  case False
  define t' where "t' = (if term_col t \<ge> 80 then term_newline (writer_color w) t else t)"
  have full: "BUFFER_WIDTH \<le> column_position w \<longleftrightarrow> 80 \<le> term_col t"
    using assms by (simp add: shows_terminal_def word_le_nat_alt BUFFER_WIDTH_def)
  obtain u where u: "(if column_position w \<ge> BUFFER_WIDTH then new_line v w else Ret w) = Ret u"
    "shows_terminal v u t'" "writer_color u = writer_color w"
    using new_line_shows [OF assms] assms unfolding full t'_def by (cases "80 \<le> term_col t") auto
  have "term_col t' < 80" by (simp add: t'_def term_newline_def)
  from put_char_shows [OF u(2) this] obtain x y where
    "chars_write v u 24 (unat (column_position u)) \<lparr>ascii_character = b, char_color = writer_color u\<rparr> = Ret x"
    "add_usize (column_position x) 1 = Ret (column_position y)"
    "x\<lparr>column_position := column_position y\<rparr> = y" "writer_color y = writer_color u"
    "shows_terminal v y (t'\<lparr>term_line := (term_line t')[term_col t' :=
       \<lparr>ascii_character = b, char_color = writer_color u\<rparr>], term_col := term_col t' + 1\<rparr>)" by metis
  then show ?thesis
    using False u by (simp add: write_byte_def term_put_def Let_def t'_def [symmetric]
        BUFFER_HEIGHT_def sub_usize_def)
qed

lemma write_string_shows:
  assumes "shows_terminal v w t"
  shows "\<exists>w'. write_string v w s = Ret w' \<and> shows_terminal v w' (term_write (writer_color w) s t) \<and>
    writer_color w' = writer_color w"
  unfolding write_string_def using assms
proof (induction s arbitrary: w t)
  case Nil
  then show ?case by (simp add: term_write_def)
next
  case (Cons b s)
  from write_byte_shows [OF Cons.prems, of "vga_byte b"] obtain w' where
    w': "write_byte v w (vga_byte b) = Ret w'" "writer_color w' = writer_color w"
    "shows_terminal v w' (term_put (writer_color w) (vga_byte b) t)" by blast
  from Cons.IH [OF w'(3)] w'(1,2) show ?case
    by (auto simp add: vga_byte_def term_write_def split: if_splits)
qed

lemma write_fmt_shows:
  assumes "shows_terminal v w t"
  shows "\<exists>w'. write_fmt v w args = Ret (Some (), w') \<and>
    shows_terminal v w' (term_write (writer_color w) (concat args) t) \<and>
    writer_color w' = writer_color w"
  using assms
proof (induction args arbitrary: w t)
  case Nil
  then show ?case by (simp add: term_write_def)
next
  case (Cons piece args)
  from write_string_shows [OF Cons.prems, of piece] obtain w' where
    w': "write_string v w piece = Ret w'" "writer_color w' = writer_color w"
    "shows_terminal v w' (term_write (writer_color w) piece t)" by blast
  from Cons.IH [OF w'(3)] w'(1,2) show ?case
    by (auto simp: write_str_def term_write_def)
qed

end

subsection \<open>Cells as bytes\<close>

text \<open>
  A \<open>ScreenChar\<close> is \<open>repr(C)\<close> with a \<open>repr(transparent)\<close> colour code: two bytes,
  the character first. Reading and writing those bytes meets the contract.
\<close>

definition vga_cell :: "(u8 \<times> u8) volatile_ops" where
  "vga_cell = \<lparr>volatile_read = (\<lambda>(a, c). \<lparr>ascii_character = a, char_color = ColorCode c\<rparr>),
     volatile_write = (\<lambda>s _. (ascii_character s, case char_color s of ColorCode c \<Rightarrow> c))\<rparr>"

interpretation vga: volatile_cell vga_cell
  by unfold_locales (simp add: vga_cell_def split: color_code.splits)

subsection \<open>Properties\<close>

lemma color_u8_less: "color_u8 c < 16"
  by (cases c) simp_all

lemma color_u8_inj: "color_u8 c = color_u8 d \<longleftrightarrow> c = d"
  by (cases c; cases d) simp_all

lemma nibbles:
  fixes a b :: u8
  assumes "a < 16" and "b < 16"
  shows "(push_bit 4 a OR b) AND 15 = b" and "drop_bit 4 (push_bit 4 a OR b) = a"
proof -
  have small: "n < 4" if "x < 16" "bit x n" for x :: u8 and n
  proof -
    have "x = take_bit 4 x" using less_mask_eq [of x 4] that(1) by (simp add: take_bit_eq_mask)
    with that(2) show ?thesis by (metis bit_take_bit_iff)
  qed
  have m: "(15 :: u8) = mask 4" by (simp add: mask_eq_exp_minus_1)
  show "(push_bit 4 a OR b) AND 15 = b"
    unfolding m by (rule bit_word_eqI) (use small [OF assms(2)] in \<open>auto simp: bit_simps\<close>)
  show "drop_bit 4 (push_bit 4 a OR b) = a"
    by (rule bit_word_eqI) (use small [OF assms(1)] small [OF assms(2)] in \<open>fastforce simp: bit_simps\<close>)
qed

text \<open>
  A colour code holds both colours: foreground in the low nibble, background in the
  high nibble, so the pair is recovered from the byte.
\<close>

theorem color_code_roundtrip:
  "code_foreground (color_code_new fg bg) = color_u8 fg \<and>
   code_background (color_code_new fg bg) = color_u8 bg \<and>
   (color_code_new fg bg = color_code_new fg' bg' \<longleftrightarrow> fg = fg' \<and> bg = bg')"
proof -
  have rt: "code_foreground (color_code_new f b) = color_u8 f" "code_background (color_code_new f b) = color_u8 b"
    for f b using nibbles [OF color_u8_less color_u8_less, of b f]
    unfolding code_foreground_def code_background_def color_code_new_def color_code.case by blast+
  then show ?thesis using color_u8_inj by metis
qed

lemma print_args_wf:
  assumes "volatile_cell v" and "writer_wf w"
  shows "\<exists>w'. print_args v w args = Ret w' \<and> writer_wf w' \<and> writer_color w' = writer_color w"
  using volatile_cell.write_fmt_shows [OF assms(1) volatile_cell.terminal_of_shows [OF assms], of args]
  by (auto simp: print_args_def shows_terminal_def)

text \<open>
  C32. Printing any bytes on a well-formed writer neither panics nor reports a formatting
  error, and keeps the buffer 25 by 80 and the column at most 80: no access to the
  buffer is out of bounds, whatever is printed and however often the screen scrolls.
\<close>

theorem print_safe:
  assumes "volatile_cell v" and "writer_wf w"
  shows "\<exists>w'. print_args v w args = Ret w' \<and> writer_wf w' \<and> writer_color w' = writer_color w"
  using assms by (rule print_args_wf)

lemma example_writer_wf: "writer_wf (writer_static (replicate 25 (replicate 80 (0, 0))))"
  by (auto simp: writer_wf_def writer_static_def)

theorem print_safe_witness:
  "\<exists>w'. print_args vga_cell (writer_static (replicate 25 (replicate 80 (0, 0)))) [[72, 105], [10], [200]] = Ret w' \<and>
    writer_wf w' \<and> writer_color w' = color_code_new Yellow Black"
  using print_safe [OF vga.volatile_cell_axioms example_writer_wf, of "[[72, 105], [10], [200]]"]
  by (simp add: writer_static_def)

text \<open>
  C12. The driver implements the terminal: after any sequence of pieces, the screen is
  the last 25 lines of the log that the same bytes produce on the abstract terminal,
  where unprintable bytes appear as 0xFE, and the column is the terminal's cursor.
\<close>

theorem print_refines_terminal:
  assumes "volatile_cell v" and "writer_wf w"
  shows "\<exists>w'. print_args v w args = Ret w' \<and>
    visible v w' = term_screen (term_write (writer_color w) (concat args) (terminal_of v w)) \<and>
    unat (column_position w') = term_col (term_write (writer_color w) (concat args) (terminal_of v w))"
  using volatile_cell.write_fmt_shows [OF assms(1) volatile_cell.terminal_of_shows [OF assms], of args]
  by (auto simp: print_args_def shows_terminal_def)

theorem print_refines_terminal_witness:
  "\<exists>w'. print_args vga_cell (writer_static (replicate 25 (replicate 80 (0, 0)))) [[72], [10]] = Ret w' \<and>
    visible vga_cell w' = term_screen (term_write (color_code_new Yellow Black) [72, 10]
      (terminal_of vga_cell (writer_static (replicate 25 (replicate 80 (0, 0)))))) \<and>
    unat (column_position w') = 0"
  using print_refines_terminal [OF vga.volatile_cell_axioms example_writer_wf, of "[[72], [10]]"]
  by (simp add: writer_static_def term_write_def term_put_def vga_byte_def term_newline_def)

text \<open>Bytes that fit on the current line overwrite it from the cursor on.\<close>

lemma vga_byte_newline [simp]: "vga_byte b = 0x0A \<longleftrightarrow> b = 0x0A"
  by (simp add: vga_byte_def)

lemma term_write_line:
  assumes "0x0A \<notin> set s" and "term_col t + length s \<le> 80" and "length (term_line t) = 80"
  shows "term_write c s t = t\<lparr>term_line := take (term_col t) (term_line t) @
      map (\<lambda>b. \<lparr>ascii_character = vga_byte b, char_color = c\<rparr>) s @ drop (term_col t + length s) (term_line t),
    term_col := term_col t + length s\<rparr>"
  using assms
proof (induction s arbitrary: t)
  case Nil
  then show ?case by (simp add: term_write_def)
next
  case (Cons b s)
  let ?t = "term_put c (vga_byte b) t"
  have put: "?t = t\<lparr>term_line := (term_line t)[term_col t := \<lparr>ascii_character = vga_byte b, char_color = c\<rparr>],
      term_col := term_col t + 1\<rparr>"
    using Cons.prems by (simp add: term_put_def)
  have "term_write c (b # s) t = term_write c s ?t" by (simp add: term_write_def)
  also have "\<dots> = ?t\<lparr>term_line := take (term_col ?t) (term_line ?t) @
      map (\<lambda>b. \<lparr>ascii_character = vga_byte b, char_color = c\<rparr>) s @ drop (term_col ?t + length s) (term_line ?t),
    term_col := term_col ?t + length s\<rparr>"
    using Cons.prems put by (intro Cons.IH) simp_all
  finally show ?case
    using Cons.prems by (simp add: put take_Suc_conv_app_nth)
qed

lemma term_write_append: "term_write c (s @ r) t = term_write c r (term_write c s t)"
  by (simp add: term_write_def)

lemma term_write_newline: "term_write c [0x0A] t = term_newline c t"
  by (simp add: term_write_def term_put_def vga_byte_def)

lemma writeln_visible:
  assumes "volatile_cell v" and "writer_wf w" and "0x0A \<notin> set s" and "length s \<le> 80"
  shows "\<exists>w'. write_fmt v w [[0x0A], s, [0x0A]] = Ret (Some (), w') \<and>
    visible v w' = drop 2 (visible v w) @
      [map (\<lambda>b. \<lparr>ascii_character = vga_byte b, char_color = writer_color w\<rparr>) s @
         replicate (80 - length s) (blank (writer_color w)),
       replicate 80 (blank (writer_color w))]"
proof -
  let ?c = "writer_color w" and ?t = "terminal_of v w"
  have len: "length (visible v w) = 25" using volatile_cell.visible_wf(1) [OF assms(1,2)] .
  then have ne: "visible v w \<noteq> []" by auto
  have "term_write ?c (concat [[0x0A], s, [0x0A]]) ?t =
      term_newline ?c (term_write ?c s (term_newline ?c ?t))"
    by (simp add: term_write_append [symmetric] term_write_newline [symmetric])
  also have "term_write ?c s (term_newline ?c ?t) = (term_newline ?c ?t)\<lparr>term_line :=
      map (\<lambda>b. \<lparr>ascii_character = vga_byte b, char_color = ?c\<rparr>) s @ replicate (80 - length s) (blank ?c),
      term_col := length s\<rparr>"
    using assms(3,4) by (subst term_write_line) (simp_all add: term_newline_def)
  finally have "term_screen (term_write ?c (concat [[0x0A], s, [0x0A]]) ?t) = drop 2 (visible v w) @
      [map (\<lambda>b. \<lparr>ascii_character = vga_byte b, char_color = ?c\<rparr>) s @
         replicate (80 - length s) (blank ?c), replicate 80 (blank ?c)]"
    using len ne by (simp add: term_screen_def term_newline_def terminal_of_def)
  with volatile_cell.write_fmt_shows [OF assms(1) volatile_cell.terminal_of_shows [OF assms(1,2)], of "[[0x0A], s, [0x0A]]"]
  show ?thesis by (auto simp: shows_terminal_def)
qed

text \<open>
  What the kernel's own test asserts, for every string: after a newline, a string of
  at most 80 bytes without newlines and another newline, the string stands at the left
  of line \<open>BUFFER_HEIGHT - 2\<close>, the rest of that line and the last line are blank, and
  everything above has moved up by two lines.
\<close>

theorem println_output:
  assumes "volatile_cell v" and "writer_wf w" and "0x0A \<notin> set s" and "length s \<le> 80"
  shows "\<exists>w'. write_fmt v w [[0x0A], s, [0x0A]] = Ret (Some (), w') \<and>
    visible v w' = drop 2 (visible v w) @
      [map (\<lambda>b. \<lparr>ascii_character = vga_byte b, char_color = writer_color w\<rparr>) s @
         replicate (80 - length s) (blank (writer_color w)),
       replicate 80 (blank (writer_color w))]"
  using assms by (rule writeln_visible)

theorem println_output_witness:
  "\<exists>w'. write_fmt vga_cell (writer_static (replicate 25 (replicate 80 (0, 0)))) [[10], [72, 105], [10]] = Ret (Some (), w') \<and>
    visible vga_cell w' ! 23 ! 1 = \<lparr>ascii_character = 105, char_color = color_code_new Yellow Black\<rparr>"
  using println_output [OF vga.volatile_cell_axioms example_writer_wf, of "[72, 105]"]
  by (auto simp: writer_static_def visible_def vga_byte_def nth_append)

end
