(* ===== verification/Machine_Run.thy ===== *)
theory Machine_Run
  imports Prelude
begin

text \<open>
  Runs of a whole machine. Where a panic handler, an endless loop or the end of the
  machine matters, the state at that moment matters too, so a run ends with the state
  in every case: it returns, it panics, it loops for ever (\<open>hlt_loop\<close>,
  \<open>loop {}\<close>), the virtual machine exits with a status, or the processor resets after
  a triple fault.
\<close>

datatype ('a, 's) run =
    Returned 'a 's
  | Panicked panic 's
  | Looping 's
  | Exited u32 's
  | Reset 's

fun run_bind :: "('a, 's) run \<Rightarrow> ('a \<Rightarrow> 's \<Rightarrow> ('b, 's) run) \<Rightarrow> ('b, 's) run" where
  "run_bind (Returned x s) f = f x s"
| "run_bind (Panicked p s) f = Panicked p s"
| "run_bind (Looping s) f = Looping s"
| "run_bind (Exited c s) f = Exited c s"
| "run_bind (Reset s) f = Reset s"

text \<open>
  An operation with an outcome as a run. The state of a panic is the one before the
  operation.
\<close>

definition run_lift :: "('s \<Rightarrow> ('a \<times> 's) outcome) \<Rightarrow> 's \<Rightarrow> ('a, 's) run" where
  "run_lift f s = (case f s of Ret (x, s') \<Rightarrow> Returned x s' | Panic p \<Rightarrow> Panicked p s | Diverge \<Rightarrow> Looping s)"

fun run_each :: "'a list \<Rightarrow> ('a \<Rightarrow> 's \<Rightarrow> (unit, 's) run) \<Rightarrow> 's \<Rightarrow> (unit, 's) run" where
  "run_each [] f s = Returned () s"
| "run_each (x # xs) f s = run_bind (f x s) (\<lambda>_. run_each xs f)"

text \<open>\<open>#[panic_handler]\<close>: a panic calls the handler, which does not return.\<close>

fun with_panic_handler :: "(panic \<Rightarrow> 's \<Rightarrow> ('a, 's) run) \<Rightarrow> ('a, 's) run \<Rightarrow> ('a, 's) run" where
  "with_panic_handler h (Panicked p s) = h p s"
| "with_panic_handler h r = r"

text \<open>\<open>assert_eq!\<close> and the like inside a run.\<close>

definition run_assert :: "bool \<Rightarrow> 's \<Rightarrow> (unit, 's) run" where
  "run_assert b s = (if b then Returned () s else Panicked AssertionFailed s)"

lemma run_bind_assoc: "run_bind (run_bind r f) g = run_bind r (\<lambda>x s. run_bind (f x s) g)"
  by (cases r) auto

lemma run_bind_Returned:
  "run_bind r f = Returned y t \<longleftrightarrow> (\<exists>x s. r = Returned x s \<and> f x s = Returned y t)"
  by (cases r) auto

lemma run_lift_Ret [simp]: "f s = Ret (x, s') \<Longrightarrow> run_lift f s = Returned x s'"
  by (simp add: run_lift_def)

text \<open>A loop whose body returns and keeps a property of the state.\<close>

lemma run_each_invariant:
  assumes "I s" and "\<And>x s. x \<in> set xs \<Longrightarrow> I s \<Longrightarrow> \<exists>s'. f x s = Returned () s' \<and> I s'"
  shows "\<exists>s'. run_each xs f s = Returned () s' \<and> I s'"
  using assms
proof (induction xs arbitrary: s)
  case Nil
  then show ?case by simp
next
  case (Cons x xs)
  then obtain s' where "f x s = Returned () s'" "I s'" by fastforce
  with Cons.IH [of s'] Cons.prems(2) show ?case by auto
qed

end
