(* ===== verification/Serial_Port.thy ===== *)
theory Serial_Port
  imports Vga_Buffer Machine_Run
begin

text \<open>
  The serial interface, \<open>src/serial.rs\<close>. \<open>SerialPort\<close> is of the crate
  \<open>uart_16550\<close>: its operations are a record, its documented behaviour is the locale
  \<open>serial_line\<close>, in which \<open>sent\<close> is what has gone out on the line. The port is
  initialised when it is first used.
\<close>

record 'sp serial_ops =
  serial_new :: "u16 \<Rightarrow> 'sp"
  serial_init :: "'sp \<Rightarrow> 'sp"
  serial_write_str :: "'sp \<Rightarrow> u8 list \<Rightarrow> unit option \<times> 'sp"

definition SERIAL1 :: "'sp serial_ops \<Rightarrow> 'sp" where
  "SERIAL1 ops =
     (let serial_port = serial_new ops 0x3F8
      in serial_init ops serial_port)"

text \<open>\<open>write_fmt\<close> of the port: the pieces in order, up to an error.\<close>

fun serial_write_fmt :: "'sp serial_ops \<Rightarrow> 'sp \<Rightarrow> u8 list list \<Rightarrow> unit option \<times> 'sp" where
  "serial_write_fmt ops sp [] = (Some (), sp)"
| "serial_write_fmt ops sp (piece # pieces) =
     (case serial_write_str ops sp piece of
        (Some _, sp) \<Rightarrow> serial_write_fmt ops sp pieces
      | (None, sp) \<Rightarrow> (None, sp))"

text \<open>\<open>_print\<close> on the port that \<open>SERIAL1\<close> guards, \<open>None\<close> before its first use.\<close>

definition serial_print_args :: "'sp serial_ops \<Rightarrow> 'sp option \<Rightarrow> u8 list list \<Rightarrow> 'sp outcome" where
  "serial_print_args ops cell args =
     (let sp = (case cell of Some sp \<Rightarrow> sp | None \<Rightarrow> SERIAL1 ops);
          (r, sp) = serial_write_fmt ops sp args
      in and_then (expect ''Printing to serial failed'' r) (\<lambda>_. Ret sp))"

text \<open>\<open>serial_println!\<close> appends the newline to the format string.\<close>

definition serial_println_args :: "'sp serial_ops \<Rightarrow> 'sp option \<Rightarrow> u8 list list \<Rightarrow> 'sp outcome" where
  "serial_println_args ops cell args = serial_print_args ops cell (args @ [[0x0A]])"

text \<open>Backspace and delete are the two bytes the port does not send as they are.\<close>

definition plain :: "u8 list \<Rightarrow> bool" where
  "plain s \<longleftrightarrow> 0x08 \<notin> set s \<and> 0x7F \<notin> set s"

text \<open>What has gone out on the line so far.\<close>

definition line_log :: "('sp \<Rightarrow> u8 list) \<Rightarrow> 'sp option \<Rightarrow> u8 list" where
  "line_log sent cell = (case cell of None \<Rightarrow> [] | Some sp \<Rightarrow> sent sp)"

locale serial_line =
  fixes ops :: "'sp serial_ops" and sent :: "'sp \<Rightarrow> u8 list"
  assumes serial_init_law: "sent (serial_init ops (serial_new ops 0x3F8)) = []"
    and serial_write_law: "\<exists>sp'. serial_write_str ops sp s = (Some (), sp') \<and> (plain s \<longrightarrow> sent sp' = sent sp @ s)"
begin

lemma serial_write_fmt_law:
  "\<exists>sp'. serial_write_fmt ops sp args = (Some (), sp') \<and> (plain (concat args) \<longrightarrow> sent sp' = sent sp @ concat args)"
proof (induction args arbitrary: sp)
  case Nil
  then show ?case by simp
next
  case (Cons piece args)
  obtain sp1 where p: "serial_write_str ops sp piece = (Some (), sp1)" "plain piece \<longrightarrow> sent sp1 = sent sp @ piece"
    using serial_write_law by blast
  obtain sp2 where "serial_write_fmt ops sp1 args = (Some (), sp2)" "plain (concat args) \<longrightarrow> sent sp2 = sent sp1 @ concat args"
    using Cons by blast
  with p show ?case by (auto simp: plain_def)
qed

lemma serial_print_law:
  "\<exists>sp'. serial_print_args ops cell args = Ret sp' \<and>
     (plain (concat args) \<longrightarrow> line_log sent (Some sp') = line_log sent cell @ concat args)"
  using serial_write_fmt_law [of "case cell of Some sp \<Rightarrow> sp | None \<Rightarrow> SERIAL1 ops" args] serial_init_law
  by (auto simp: serial_print_args_def line_log_def SERIAL1_def split: option.splits)

end

text \<open>A port that keeps what it sent.\<close>

definition list_serial :: "u8 list serial_ops" where
  "list_serial = \<lparr>serial_new = (\<lambda>_. []), serial_init = (\<lambda>_. []), serial_write_str = (\<lambda>sp s. (Some (), sp @ s))\<rparr>"

interpretation list_serial: serial_line list_serial id
  by unfold_locales (simp_all add: list_serial_def)

end
