(* ===== verification/Task.thy ===== *)
theory Task
  imports Prelude
begin

text \<open>
  Tasks, \<open>src/task/mod.rs\<close>, and the basic executor, \<open>src/task/simple_executor.rs\<close>.
  A task is an id and a future. A future is a value of type \<open>'f\<close>, and its
  \<open>poll\<close>, which the executors call through \<open>dyn Future\<close>, is an argument: it gets
  the waker of the context and a state \<open>'w\<close> it may change, and says whether it is
  ready.
\<close>

datatype 'a poll = Ready 'a | Pending

text \<open>
  The two wakers of the kernel: the dummy waker of \<open>simple_executor.rs\<close> and a
  \<open>TaskWaker\<close> of \<open>executor.rs\<close> with the id of its task.
\<close>

datatype waker = DummyWaker | TaskWaker u64

type_synonym ('f, 'w) poll_fn = "'f \<Rightarrow> waker \<Rightarrow> 'w \<Rightarrow> (unit poll \<times> 'f \<times> 'w) outcome"

record 'f task =
  task_id :: u64
  future :: 'f

text \<open>\<open>NEXT_ID.fetch_add(1)\<close>: the old value and the new one, wrapping.\<close>

definition task_id_new :: "u64 \<Rightarrow> u64 \<times> u64" where
  "task_id_new next_id = (next_id, next_id + 1)"

definition task_new :: "'f \<Rightarrow> u64 \<Rightarrow> 'f task \<times> u64" where
  "task_new f next_id = (case task_id_new next_id of (tid, next_id') \<Rightarrow> (\<lparr>task_id = tid, future = f\<rparr>, next_id'))"

definition task_poll :: "('f, 'w) poll_fn \<Rightarrow> 'f task \<Rightarrow> waker \<Rightarrow> 'w \<Rightarrow> (unit poll \<times> 'f task \<times> 'w) outcome" where
  "task_poll pollf task context w =
     and_then (pollf (future task) context w) (\<lambda>(r, f, w). Ret (r, task\<lparr>future := f\<rparr>, w))"

text \<open>Tasks made one after another.\<close>

fun tasks_new :: "'f list \<Rightarrow> u64 \<Rightarrow> 'f task list \<times> u64" where
  "tasks_new [] next_id = ([], next_id)"
| "tasks_new (f # fs) next_id =
     (case task_new f next_id of (t, next_id) \<Rightarrow>
      case tasks_new fs next_id of (ts, next_id) \<Rightarrow> (t # ts, next_id))"

subsection \<open>The simple executor\<close>

record 'f simple_executor =
  simple_queue :: "'f task list"

definition simple_new :: "'f simple_executor" where
  "simple_new = \<lparr>simple_queue = []\<rparr>"

definition simple_spawn :: "'f simple_executor \<Rightarrow> 'f task \<Rightarrow> 'f simple_executor" where
  "simple_spawn e task = e\<lparr>simple_queue := simple_queue e @ [task]\<rparr>"

text \<open>The dummy waker: cloning it gives a dummy waker, waking it does nothing.\<close>

definition dummy_waker :: waker where
  "dummy_waker = DummyWaker"

partial_function (option) simple_loop ::
  "('f, 'w) poll_fn \<Rightarrow> 'f task list \<Rightarrow> 'w \<Rightarrow> ('f task list \<times> 'w) outcome option" where
  "simple_loop pollf q w =
     (case q of
        [] \<Rightarrow> Some (Ret ([], w))
      | task # q \<Rightarrow>
          (case task_poll pollf task dummy_waker w of
             Panic e \<Rightarrow> Some (Panic e)
           | Diverge \<Rightarrow> Some Diverge
           | Ret (r, task, w) \<Rightarrow>
               (case r of
                  Ready _ \<Rightarrow> simple_loop pollf q w
                | Pending \<Rightarrow> simple_loop pollf (q @ [task]) w)))"

definition simple_run ::
  "('f, 'w) poll_fn \<Rightarrow> 'f simple_executor \<Rightarrow> 'w \<Rightarrow> ('f simple_executor \<times> 'w) outcome" where
  "simple_run pollf e w =
     and_then (loop_outcome (simple_loop pollf (simple_queue e) w)) (\<lambda>(q, w).
     Ret (e\<lparr>simple_queue := q\<rparr>, w))"

subsection \<open>Task ids\<close>

lemma tasks_new_ids:
  "map task_id (fst (tasks_new fs n)) = map (\<lambda>i. n + of_nat i) [0..<length fs] \<and>
   snd (tasks_new fs n) = n + of_nat (length fs)"
proof (induction fs arbitrary: n)
  case Nil
  then show ?case by simp
next
  case (Cons f fs)
  have "[0..<Suc k] = 0 # map Suc [0..<k]" for k
    by (simp add: map_Suc_upt upt_conv_Cons)
  then have "map (\<lambda>i. n + of_nat i) [0..<Suc (length fs)] = n # map (\<lambda>i. n + 1 + of_nat i) [0..<length fs]"
    by (simp add: comp_def add.assoc)
  moreover obtain ts n' where "tasks_new fs (n + 1) = (ts, n')" by (cases "tasks_new fs (n + 1)")
  ultimately show ?case
    using Cons.IH [of "n + 1"] by (simp add: task_new_def task_id_new_def add.assoc del: upt_Suc)
qed

text \<open>
  Task ids are unique: the first \<open>2^64\<close> tasks have pairwise different ids,
  wherever the counter starts.
\<close>

theorem task_ids_distinct:
  assumes "length fs \<le> 2 ^ 64"
  shows "distinct (map task_id (fst (tasks_new fs n)))"
proof -
  have "inj_on (\<lambda>i. n + of_nat i :: u64) {0..<length fs}"
  proof (rule inj_onI)
    fix i j
    assume "i \<in> {0..<length fs}" "j \<in> {0..<length fs}" "n + of_nat i = (n + of_nat j :: u64)"
    then have "unat (of_nat i :: u64) = unat (of_nat j :: u64)" "i < 2 ^ 64" "j < 2 ^ 64"
      using assms by auto
    then show "i = j" by (simp add: unat_of_nat)
  qed
  then show ?thesis by (simp add: tasks_new_ids distinct_map)
qed

theorem task_ids_distinct_witness: "distinct (map task_id (fst (tasks_new [(), (), ()] (- 1))))"
  by (rule task_ids_distinct) simp

subsection \<open>The run loop of the simple executor\<close>

text \<open>One round: every task of the queue is polled once, in order; the pending ones remain.\<close>

fun poll_round :: "('f, 'w) poll_fn \<Rightarrow> 'f task list \<Rightarrow> 'w \<Rightarrow> ('f task list \<times> 'w) outcome" where
  "poll_round pollf [] w = Ret ([], w)"
| "poll_round pollf (t # ts) w =
     and_then (task_poll pollf t dummy_waker w) (\<lambda>(r, t', w).
     and_then (poll_round pollf ts w) (\<lambda>(ps, w).
     Ret (case r of Ready _ \<Rightarrow> ps | Pending \<Rightarrow> t' # ps, w)))"

lemma simple_loop_round:
  "loop_outcome (simple_loop pollf (q @ p) w) =
     and_then (poll_round pollf q w) (\<lambda>(p', w). loop_outcome (simple_loop pollf (p @ p') w))"
proof (induction q arbitrary: p w)
  case Nil
  then show ?case by simp
next
  case (Cons t q)
  show ?case
  proof (cases "task_poll pollf t dummy_waker w")
    case (Ret x)
    obtain r t' w' where x: "x = (r, t', w')" by (cases x)
    have "loop_outcome (simple_loop pollf ((t # q) @ p) w) =
        loop_outcome (simple_loop pollf (q @ (case r of Ready _ \<Rightarrow> p | Pending \<Rightarrow> p @ [t'])) w')"
      using Ret x by (subst simple_loop.simps) (simp split: poll.splits)
    also have "\<dots> = and_then (poll_round pollf q w') (\<lambda>(p', w).
        loop_outcome (simple_loop pollf ((case r of Ready _ \<Rightarrow> p | Pending \<Rightarrow> p @ [t']) @ p') w))"
      by (rule Cons.IH)
    finally show ?thesis
      using Ret x by (cases "poll_round pollf q w'") (auto split: poll.splits)
  qed (subst simple_loop.simps, simp)+
qed

lemma simple_loop_terminates:
  assumes "\<And>f w. (\<exists>f' w'. pollf f DummyWaker w = Ret (Ready (), f', w')) \<or>
      (\<exists>f' w'. pollf f DummyWaker w = Ret (Pending, f', w') \<and> rank f' < (rank f :: nat))"
  shows "\<exists>w'. simple_loop pollf q w = Some (Ret ([], w'))"
proof (induction "sum_list (map (\<lambda>t. Suc (rank (future t))) q)" arbitrary: q w rule: less_induct)
  case less
  show ?case
  proof (cases q)
    case Nil
    then show ?thesis by (simp add: simple_loop.simps)
  next
    case (Cons t ts)
    consider f' w' where "pollf (future t) DummyWaker w = Ret (Ready (), f', w')"
      | f' w' where "pollf (future t) DummyWaker w = Ret (Pending, f', w')" "rank f' < rank (future t)"
      using assms by blast
    then show ?thesis
    proof cases
      case 1
      then have "simple_loop pollf q w = simple_loop pollf ts w'"
        unfolding Cons by (subst simple_loop.simps) (simp add: task_poll_def dummy_waker_def)
      with less Cons show ?thesis by simp
    next
      case 2
      then have "simple_loop pollf q w = simple_loop pollf (ts @ [t\<lparr>future := f'\<rparr>]) w'"
        unfolding Cons by (subst simple_loop.simps) (simp add: task_poll_def dummy_waker_def)
      with less Cons 2(2) show ?thesis by simp
    qed
  qed
qed

text \<open>
  C30. The simple executor is fair: its loop over the queue, which takes a task from the
  front and puts it back at the end, runs in rounds in which every task is polled once
  in the order they were spawned, whatever the tasks do, a panic included.
\<close>

theorem simple_run_rounds:
  "simple_run pollf e w =
     and_then (poll_round pollf (simple_queue e) w) (\<lambda>(pending, w).
     simple_run pollf (e\<lparr>simple_queue := pending\<rparr>) w)"
proof -
  have "loop_outcome (simple_loop pollf (simple_queue e) w) =
      and_then (poll_round pollf (simple_queue e) w) (\<lambda>(p', w). loop_outcome (simple_loop pollf p' w))"
    using simple_loop_round [of pollf "simple_queue e" "[]" w] by simp
  then show ?thesis
    by (cases "poll_round pollf (simple_queue e) w") (auto simp: simple_run_def split: prod.splits)
qed

text \<open>
  C31. If every future needs finitely many polls, \<open>run\<close> returns with an empty queue.
\<close>

theorem simple_run_terminates:
  assumes "\<And>f w. (\<exists>f' w'. pollf f DummyWaker w = Ret (Ready (), f', w')) \<or>
      (\<exists>f' w'. pollf f DummyWaker w = Ret (Pending, f', w') \<and> rank f' < (rank f :: nat))"
  shows "\<exists>w'. simple_run pollf e w = Ret (e\<lparr>simple_queue := []\<rparr>, w')"
  using simple_loop_terminates [where pollf = pollf and rank = rank and q = "simple_queue e" and w = w] assms
  by (auto simp: simple_run_def)

text \<open>A future that is ready after a number of polls, and logs them.\<close>

definition countdown_poll :: "(nat, nat list) poll_fn" where
  "countdown_poll f context w =
     (case f of 0 \<Rightarrow> Ret (Ready (), 0, w @ [f]) | Suc k \<Rightarrow> Ret (Pending, k, w @ [f]))"

theorem simple_run_terminates_witness:
  "\<exists>w'. simple_run countdown_poll (simple_spawn (simple_spawn simple_new \<lparr>task_id = 0, future = 2\<rparr>)
      \<lparr>task_id = 1, future = 1\<rparr>) [] = Ret (simple_new, w')"
proof -
  have "\<exists>w'. simple_run countdown_poll e [] = Ret (e\<lparr>simple_queue := []\<rparr>, w')" for e
    by (rule simple_run_terminates [where rank = id])
      (auto simp: countdown_poll_def split: nat.splits)
  from this [of "simple_spawn (simple_spawn simple_new \<lparr>task_id = 0, future = 2\<rparr>) \<lparr>task_id = 1, future = 1\<rparr>"]
  show ?thesis by (simp add: simple_spawn_def simple_new_def)
qed

end
