(* ===== verification/Screen_Log.thy ===== *)
theory Screen_Log
  imports Vga_Buffer
begin

text \<open>
  Texts on the screen when more than one part of the kernel prints. A text is what one
  call of \<open>print!\<close> or \<open>println!\<close> writes; its pieces stay together, because
  \<open>_print\<close> runs with interrupts disabled. Texts of a program are shown amid others, of
  interrupt handlers: in their order, with texts of a set \<open>N\<close> in between.
\<close>

text \<open>The bytes of an ASCII string.\<close>

definition str_bytes :: "string \<Rightarrow> u8 list" where
  "str_bytes s = map of_char s"

lemma print_args_cons:
  "print_args v w (a # as) = and_then (print_args v w [a]) (\<lambda>w. print_args v w as)"
  by (cases "write_string v w a") (auto simp: print_args_def write_str_def)

lemma print_args_append:
  "print_args v w (as @ bs) = and_then (print_args v w as) (\<lambda>w. print_args v w bs)"
proof (induction as arbitrary: w)
  case Nil
  then show ?case by (simp add: print_args_def)
next
  case (Cons a as)
  have "print_args v w ((a # as) @ bs) = and_then (print_args v w [a]) (\<lambda>w. print_args v w (as @ bs))"
    using print_args_cons [of v w a "as @ bs"] by simp
  also have "\<dots> = and_then (and_then (print_args v w [a]) (\<lambda>w. print_args v w as)) (\<lambda>w. print_args v w bs)"
    by (simp add: Cons.IH and_then_assoc)
  finally show ?case using print_args_cons [of v w a as] by simp
qed

subsection \<open>Texts amid others\<close>

definition shown_amid ::
  "u8 list list set \<Rightarrow> 'c volatile_ops \<Rightarrow> u8 list list list \<Rightarrow> 'c writer \<Rightarrow> 'c writer \<Rightarrow> bool" where
  "shown_amid N v texts w w' \<longleftrightarrow> (\<exists>noise printed. printed \<in> shuffles texts noise \<and> set noise \<subseteq> N \<and>
     print_args v w (concat printed) = Ret w')"

lemma shuffles_append:
  "xs \<in> shuffles as bs \<Longrightarrow> ys \<in> shuffles cs ds \<Longrightarrow> xs @ ys \<in> shuffles (as @ cs) (bs @ ds)"
proof (induction xs arbitrary: as bs)
  case Nil
  then show ?case by (simp add: Nil_in_shuffles)
next
  case (Cons x xs)
  from Cons.prems(1) consider as' where "as = x # as'" "xs \<in> shuffles as' bs" | bs' where "bs = x # bs'" "xs \<in> shuffles as bs'"
    by (auto simp: Cons_in_shuffles_iff neq_Nil_conv)
  then show ?case using Cons.IH Cons.prems(2) by cases (auto intro: Cons_in_shuffles_leftI Cons_in_shuffles_rightI)
qed

lemma shown_amid_refl [simp]: "shown_amid N v [] w w"
  unfolding shown_amid_def by (intro exI [of _ "[]"]) (simp add: print_args_def)

lemma shown_amid_texts: "print_args v w (concat texts) = Ret w' \<Longrightarrow> shown_amid N v texts w w'"
  unfolding shown_amid_def by (intro exI [of _ "[]"] exI [of _ texts]) simp

lemma shown_amid_noise: "print_args v w (concat noise) = Ret w' \<Longrightarrow> set noise \<subseteq> N \<Longrightarrow> shown_amid N v [] w w'"
  unfolding shown_amid_def by (intro exI [of _ noise] exI [of _ noise]) simp

lemma shown_amid_mono: "shown_amid M v texts w w' \<Longrightarrow> M \<subseteq> N \<Longrightarrow> shown_amid N v texts w w'"
  unfolding shown_amid_def by blast

lemma shown_amid_trans:
  assumes "shown_amid N v t1 w w1" and "shown_amid N v t2 w1 w2"
  shows "shown_amid N v (t1 @ t2) w w2"
proof -
  obtain n1 p1 where 1: "p1 \<in> shuffles t1 n1" "set n1 \<subseteq> N" "print_args v w (concat p1) = Ret w1"
    using assms(1) by (auto simp: shown_amid_def)
  obtain n2 p2 where 2: "p2 \<in> shuffles t2 n2" "set n2 \<subseteq> N" "print_args v w1 (concat p2) = Ret w2"
    using assms(2) by (auto simp: shown_amid_def)
  have "print_args v w (concat (p1 @ p2)) = Ret w2" using 1(3) 2(3) by (simp add: print_args_append)
  with shuffles_append [OF 1(1) 2(1)] 1(2) 2(2) show ?thesis
    unfolding shown_amid_def by (intro exI [of _ "n1 @ n2"] exI [of _ "p1 @ p2"]) simp
qed

text \<open>Noise before or after the texts changes nothing.\<close>

lemma shown_amid_quiet:
  "shown_amid N v [] w w1 \<Longrightarrow> shown_amid N v ts w1 w2 \<Longrightarrow> shown_amid N v ts w w2"
  "shown_amid N v ts w w1 \<Longrightarrow> shown_amid N v [] w1 w2 \<Longrightarrow> shown_amid N v ts w w2"
  using shown_amid_trans [of N v "[]" w w1 ts w2] shown_amid_trans [of N v ts w w1 "[]" w2] by simp_all

end
