(* ===== verification/Sync_Prims.thy ===== *)
theory Sync_Prims
  imports Task Screen_Log
begin

text \<open>
  The data structures of other crates that the tasks and interrupt handlers share:
  \<open>crossbeam_queue::ArrayQueue\<close>, \<open>conquer_once::spin::OnceCell\<close> and
  \<open>futures_util::task::AtomicWaker\<close>. Each is a record of the operations the kernel
  calls, with a locale for its documented behaviour and an instance that has it. The
  record \<open>kernel\<close> is the state those operations act on, with the VGA writer.
\<close>

text \<open>\<open>push\<close> gives \<open>None\<close> for \<open>Err\<close>, \<open>pop\<close> gives \<open>None\<close> for \<open>Err(PopError)\<close>.\<close>

record ('a, 'q) array_queue_ops =
  queue_new :: "nat \<Rightarrow> 'q"
  queue_push :: "'a \<Rightarrow> 'q \<Rightarrow> 'q option"
  queue_pop :: "'q \<Rightarrow> ('a \<times> 'q) option"
  queue_is_empty :: "'q \<Rightarrow> bool"

text \<open>
  \<open>try_get\<close> and \<open>try_init_once\<close>, \<open>None\<close> for \<open>Err\<close>; \<open>once_put\<close> is the cell
  after its content was changed through the reference that \<open>try_get\<close> returned.
\<close>

record ('q, 'cell) once_cell_ops =
  once_uninit :: 'cell
  try_get :: "'cell \<Rightarrow> 'q option"
  try_init_once :: "'q \<Rightarrow> 'cell \<Rightarrow> 'cell option"
  once_put :: "'q \<Rightarrow> 'cell \<Rightarrow> 'cell"

text \<open>\<open>waker_wake_slot\<close> is \<open>AtomicWaker::wake\<close> up to the call of the waker it returns.\<close>

record 'aw atomic_waker_ops =
  waker_empty :: 'aw
  waker_register :: "waker \<Rightarrow> 'aw \<Rightarrow> 'aw"
  waker_take :: "'aw \<Rightarrow> waker option \<times> 'aw"
  waker_wake_slot :: "'aw \<Rightarrow> waker option \<times> 'aw"

record ('q, 'cell, 'aw, 'tq, 'c) prims =
  scan_ops :: "(u8, 'q) array_queue_ops"
  cell_ops :: "('q, 'cell) once_cell_ops"
  slot_ops :: "'aw atomic_waker_ops"
  task_ops :: "(u64, 'tq) array_queue_ops"
  vga_ops :: "'c volatile_ops"

text \<open>
  The hardware interrupts, a key press with its scancode. \<open>arrivals\<close> is their
  schedule: what arrives at each point at which running code can be interrupted.
\<close>

datatype irq = TimerTick | KeyPressed u8

record ('cell, 'aw, 'tq, 'c) kernel =
  scancode_queue :: 'cell
  keyboard_waker :: 'aw
  task_queue :: 'tq
  vga_writer :: "'c writer"
  interrupts_enabled :: bool
  arrivals :: "irq list list"

subsection \<open>Documented behaviour\<close>

locale array_queue =
  fixes ops :: "('a, 'q) array_queue_ops" and contents :: "'q \<Rightarrow> 'a list" and capacity :: "'q \<Rightarrow> nat"
  assumes queue_new_law: "0 < n \<Longrightarrow> contents (queue_new ops n) = [] \<and> capacity (queue_new ops n) = n"
    and queue_push_ok: "length (contents q) < capacity q \<Longrightarrow>
      \<exists>q'. queue_push ops x q = Some q' \<and> contents q' = contents q @ [x] \<and> capacity q' = capacity q"
    and queue_push_full: "\<not> length (contents q) < capacity q \<Longrightarrow> queue_push ops x q = None"
    and queue_pop_empty: "contents q = [] \<Longrightarrow> queue_pop ops q = None"
    and queue_pop_ok: "contents q = x # xs \<Longrightarrow>
      \<exists>q'. queue_pop ops q = Some (x, q') \<and> contents q' = xs \<and> capacity q' = capacity q"
    and queue_empty_law: "queue_is_empty ops q \<longleftrightarrow> contents q = []"

locale once_cell =
  fixes ops :: "('q, 'cell) once_cell_ops"
  assumes once_uninit_law: "try_get ops (once_uninit ops) = None"
    and once_init_law: "try_get ops c = None \<Longrightarrow> \<exists>c'. try_init_once ops q c = Some c' \<and> try_get ops c' = Some q"
    and once_again_law: "try_get ops c = Some q' \<Longrightarrow> try_init_once ops q c = None"
    and once_put_law: "try_get ops c \<noteq> None \<Longrightarrow> try_get ops (once_put ops q c) = Some q"

locale atomic_waker =
  fixes ops :: "'aw atomic_waker_ops" and slot :: "'aw \<Rightarrow> waker option"
  assumes waker_empty_law: "slot (waker_empty ops) = None"
    and waker_register_law: "slot (waker_register ops w a) = Some w"
    and waker_take_law: "fst (waker_take ops a) = slot a \<and> slot (snd (waker_take ops a)) = None"
    and waker_wake_law: "fst (waker_wake_slot ops a) = slot a \<and> slot (snd (waker_wake_slot ops a)) = None"

locale kernel_prims =
  scan: array_queue "scan_ops P" scan_contents scan_capacity +
  tasks: array_queue "task_ops P" task_contents task_capacity +
  once_cell "cell_ops P" + atomic_waker "slot_ops P" slot + volatile_cell "vga_ops P"
  for P :: "('q, 'cell, 'aw, 'tq, 'c) prims" and scan_contents scan_capacity task_contents task_capacity slot

subsection \<open>An instance\<close>

definition list_queue :: "('a, nat \<times> 'a list) array_queue_ops" where
  "list_queue = \<lparr>
     queue_new = (\<lambda>n. (n, [])),
     queue_push = (\<lambda>x (n, xs). if length xs < n then Some (n, xs @ [x]) else None),
     queue_pop = (\<lambda>(n, xs). case xs of [] \<Rightarrow> None | x # xs \<Rightarrow> Some (x, (n, xs))),
     queue_is_empty = (\<lambda>(n, xs). xs = [])\<rparr>"

interpretation list_queue: array_queue list_queue snd fst
  by unfold_locales (auto simp: list_queue_def split: prod.splits list.splits)

definition option_cell :: "('q, 'q option) once_cell_ops" where
  "option_cell = \<lparr>once_uninit = None, try_get = id,
     try_init_once = (\<lambda>q c. case c of None \<Rightarrow> Some (Some q) | Some _ \<Rightarrow> None),
     once_put = (\<lambda>q c. Some q)\<rparr>"

interpretation option_cell: once_cell option_cell
  by unfold_locales (auto simp: option_cell_def)

definition option_waker :: "waker option atomic_waker_ops" where
  "option_waker = \<lparr>waker_empty = None, waker_register = (\<lambda>w _. Some w),
     waker_take = (\<lambda>a. (a, None)), waker_wake_slot = (\<lambda>a. (a, None))\<rparr>"

interpretation option_waker: atomic_waker option_waker id
  by unfold_locales (auto simp: option_waker_def)

definition list_prims ::
  "(nat \<times> u8 list, (nat \<times> u8 list) option, waker option, nat \<times> u64 list, u8 \<times> u8) prims" where
  "list_prims = \<lparr>scan_ops = list_queue, cell_ops = option_cell, slot_ops = option_waker,
     task_ops = list_queue, vga_ops = vga_cell\<rparr>"

interpretation list_prims: kernel_prims list_prims snd fst snd fst id
  by (simp add: kernel_prims_def list_prims_def list_queue.array_queue_axioms option_cell.once_cell_axioms
      option_waker.atomic_waker_axioms vga.volatile_cell_axioms)

end
