(* ===== verification/Keyboard.thy ===== *)
theory Keyboard
  imports Sync_Prims "HOL-Library.Sublist"
begin

text \<open>
  The keyboard task, \<open>src/task/keyboard.rs\<close>, with the wakers of
  \<open>src/task/executor.rs\<close>. The interrupt handlers, the keyboard's, which calls
  \<open>add_scancode\<close>, and the timer's, which prints a dot, may run at every
  \<open>interrupt_point\<close> of the other code: before each
  atomic operation on the shared structures, as long as interrupts are enabled. The
  decoder of the \<open>pc_keyboard\<close> crate is a record of operations. The theorems say that
  no wake-up and no scancode is lost, for every schedule of interrupts.
\<close>

subsection \<open>Wakers\<close>

definition wake_task ::
  "('q, 'cell, 'aw, 'tq, 'c) prims \<Rightarrow> u64 \<Rightarrow> ('cell, 'aw, 'tq, 'c) kernel \<Rightarrow> ('cell, 'aw, 'tq, 'c) kernel outcome" where
  "wake_task P tid k =
     and_then (expect ''task queue full'' (queue_push (task_ops P) tid (task_queue k))) (\<lambda>tq.
     Ret (k\<lparr>task_queue := tq\<rparr>))"

fun waker_wake ::
  "('q, 'cell, 'aw, 'tq, 'c) prims \<Rightarrow> waker \<Rightarrow> ('cell, 'aw, 'tq, 'c) kernel \<Rightarrow> ('cell, 'aw, 'tq, 'c) kernel outcome" where
  "waker_wake P DummyWaker k = Ret k"
| "waker_wake P (TaskWaker tid) k = wake_task P tid k"

subsection \<open>The interrupt side\<close>

definition kernel_println ::
  "('q, 'cell, 'aw, 'tq, 'c) prims \<Rightarrow> u8 list \<Rightarrow> ('cell, 'aw, 'tq, 'c) kernel \<Rightarrow> ('cell, 'aw, 'tq, 'c) kernel outcome" where
  "kernel_println P msg k =
     and_then (println (vga_ops P) (vga_writer k) [msg]) (\<lambda>w. Ret (k\<lparr>vga_writer := w\<rparr>))"

definition kernel_print ::
  "('q, 'cell, 'aw, 'tq, 'c) prims \<Rightarrow> u8 list \<Rightarrow> ('cell, 'aw, 'tq, 'c) kernel \<Rightarrow> ('cell, 'aw, 'tq, 'c) kernel outcome" where
  "kernel_print P msg k =
     and_then (print_args (vga_ops P) (vga_writer k) [msg]) (\<lambda>w. Ret (k\<lparr>vga_writer := w\<rparr>))"

text \<open>\<open>WAKER.wake()\<close>: the registered waker is removed and woken.\<close>

definition keyboard_wake ::
  "('q, 'cell, 'aw, 'tq, 'c) prims \<Rightarrow> ('cell, 'aw, 'tq, 'c) kernel \<Rightarrow> ('cell, 'aw, 'tq, 'c) kernel outcome" where
  "keyboard_wake P k =
     (case waker_wake_slot (slot_ops P) (keyboard_waker k) of (w, aw) \<Rightarrow>
      let k = k\<lparr>keyboard_waker := aw\<rparr>
      in case w of None \<Rightarrow> Ret k | Some w \<Rightarrow> waker_wake P w k)"

definition add_scancode ::
  "('q, 'cell, 'aw, 'tq, 'c) prims \<Rightarrow> u8 \<Rightarrow> ('cell, 'aw, 'tq, 'c) kernel \<Rightarrow> ('cell, 'aw, 'tq, 'c) kernel outcome" where
  "add_scancode P scancode k =
     (case try_get (cell_ops P) (scancode_queue k) of
        Some queue \<Rightarrow>
          (case queue_push (scan_ops P) scancode queue of
             None \<Rightarrow> kernel_println P (str_bytes ''WARNING: scancode queue full; dropping keyboard input'') k
           | Some queue' \<Rightarrow>
               keyboard_wake P (k\<lparr>scancode_queue := once_put (cell_ops P) queue' (scancode_queue k)\<rparr>))
      | None \<Rightarrow> kernel_println P (str_bytes ''WARNING: scancode queue uninitialized'') k)"

text \<open>
  What the handlers of the two interrupts do with the state of the tasks, and the
  interrupts that arrive at a point where the running code can be interrupted.
\<close>

fun serve_irq ::
  "('q, 'cell, 'aw, 'tq, 'c) prims \<Rightarrow> irq \<Rightarrow> ('cell, 'aw, 'tq, 'c) kernel \<Rightarrow> ('cell, 'aw, 'tq, 'c) kernel outcome" where
  "serve_irq P TimerTick k = kernel_print P (str_bytes ''.'') k"
| "serve_irq P (KeyPressed scancode) k = add_scancode P scancode k"

definition interrupt_point ::
  "('q, 'cell, 'aw, 'tq, 'c) prims \<Rightarrow> ('cell, 'aw, 'tq, 'c) kernel \<Rightarrow> ('cell, 'aw, 'tq, 'c) kernel outcome" where
  "interrupt_point P k =
     (if interrupts_enabled k then
        (case arrivals k of
           [] \<Rightarrow> Ret k
         | burst # rest \<Rightarrow> for_each burst (serve_irq P) (k\<lparr>arrivals := rest\<rparr>))
      else Ret k)"

text \<open>Serving an interrupt neither reads nor changes the schedule.\<close>

lemma arrivals_last:
  fixes k :: "('cell, 'aw, 'tq, 'c) kernel"
  shows "k\<lparr>arrivals := a, vga_writer := w\<rparr> = k\<lparr>vga_writer := w, arrivals := a\<rparr>"
    and "k\<lparr>arrivals := a, task_queue := tq\<rparr> = k\<lparr>task_queue := tq, arrivals := a\<rparr>"
    and "k\<lparr>arrivals := a, keyboard_waker := aw\<rparr> = k\<lparr>keyboard_waker := aw, arrivals := a\<rparr>"
    and "k\<lparr>arrivals := a, scancode_queue := q\<rparr> = k\<lparr>scancode_queue := q, arrivals := a\<rparr>"
    and "k\<lparr>arrivals := a, interrupts_enabled := b\<rparr> = k\<lparr>interrupts_enabled := b, arrivals := a\<rparr>"
  by simp_all

lemma serve_irq_blind:
  "serve_irq P i (k\<lparr>arrivals := a\<rparr>) = and_then (serve_irq P i k) (\<lambda>k'. Ret (k'\<lparr>arrivals := a\<rparr>))"
proof -
  have print: "kernel_print P msg (k\<lparr>arrivals := a\<rparr>) = and_then (kernel_print P msg k) (\<lambda>k'. Ret (k'\<lparr>arrivals := a\<rparr>))"
    "kernel_println P msg (k\<lparr>arrivals := a\<rparr>) = and_then (kernel_println P msg k) (\<lambda>k'. Ret (k'\<lparr>arrivals := a\<rparr>))" for msg
    by (simp_all add: kernel_print_def kernel_println_def and_then_assoc arrivals_last)
  have "waker_wake P w (k\<lparr>arrivals := a\<rparr>) = and_then (waker_wake P w k) (\<lambda>k'. Ret (k'\<lparr>arrivals := a\<rparr>))" for w k
    by (cases w) (simp_all add: wake_task_def and_then_assoc arrivals_last)
  then have "keyboard_wake P (k\<lparr>arrivals := a\<rparr>) = and_then (keyboard_wake P k) (\<lambda>k'. Ret (k'\<lparr>arrivals := a\<rparr>))" for k
    by (simp add: keyboard_wake_def Let_def arrivals_last split: prod.split option.split)
  with print show ?thesis
    by (cases i) (simp_all add: add_scancode_def arrivals_last split: option.split)
qed

lemma burst_blind:
  "for_each is (serve_irq P) (k\<lparr>arrivals := a\<rparr>) =
     and_then (for_each is (serve_irq P) k) (\<lambda>k'. Ret (k'\<lparr>arrivals := a\<rparr>))"
proof (induction "is" arbitrary: k)
  case (Cons i "is")
  show ?case by (cases "serve_irq P i k") (simp_all add: serve_irq_blind Cons)
qed simp

lemma burst_arrivals:
  assumes "for_each is (serve_irq P) k = Ret k'"
  shows "arrivals k' = arrivals k"
proof -
  have "for_each is (serve_irq P) (k\<lparr>arrivals := arrivals k\<rparr>) =
      and_then (for_each is (serve_irq P) k) (\<lambda>k'. Ret (k'\<lparr>arrivals := arrivals k\<rparr>))" by (rule burst_blind)
  then have "k' = k'\<lparr>arrivals := arrivals k\<rparr>" using assms by simp
  from arg_cong [OF this, of arrivals] show ?thesis by simp
qed

lemma interrupt_arrivals:
  assumes "interrupt_point P k = Ret k'"
  shows "arrivals k' = (if interrupts_enabled k then tl (arrivals k) else arrivals k)"
  using assms by (auto simp: interrupt_point_def dest: burst_arrivals split: if_splits list.splits)

lemma interrupt_uses: "interrupt_point P k = Ret k' \<Longrightarrow> length (arrivals k) \<le> Suc (length (arrivals k'))"
  using interrupt_arrivals [of P k k'] by auto

subsection \<open>The stream of scancodes\<close>

definition scancode_stream_new ::
  "('q, 'cell, 'aw, 'tq, 'c) prims \<Rightarrow> ('cell, 'aw, 'tq, 'c) kernel \<Rightarrow> ('cell, 'aw, 'tq, 'c) kernel outcome" where
  "scancode_stream_new P k =
     and_then (expect ''ScancodeStream::new should only be called once''
       (try_init_once (cell_ops P) (queue_new (scan_ops P) 100) (scancode_queue k))) (\<lambda>cell.
     Ret (k\<lparr>scancode_queue := cell\<rparr>))"

text \<open>\<open>queue.pop()\<close> on the queue in the cell.\<close>

definition scan_pop ::
  "('q, 'cell, 'aw, 'tq, 'c) prims \<Rightarrow> ('cell, 'aw, 'tq, 'c) kernel \<Rightarrow> (u8 option \<times> ('cell, 'aw, 'tq, 'c) kernel) outcome" where
  "scan_pop P k =
     and_then (expect ''not initialized'' (try_get (cell_ops P) (scancode_queue k))) (\<lambda>queue.
     case queue_pop (scan_ops P) queue of
       None \<Rightarrow> Ret (None, k)
     | Some (scancode, queue') \<Rightarrow>
         Ret (Some scancode, k\<lparr>scancode_queue := once_put (cell_ops P) queue' (scancode_queue k)\<rparr>))"

text \<open>The second check, after the waker is registered.\<close>

definition poll_next_second ::
  "('q, 'cell, 'aw, 'tq, 'c) prims \<Rightarrow> ('cell, 'aw, 'tq, 'c) kernel \<Rightarrow>
   (u8 option poll \<times> ('cell, 'aw, 'tq, 'c) kernel) outcome" where
  "poll_next_second P k =
     and_then (scan_pop P k) (\<lambda>(r, k).
     case r of
       Some scancode \<Rightarrow>
         and_then (interrupt_point P k) (\<lambda>k.
         Ret (Ready (Some scancode),
              k\<lparr>keyboard_waker := snd (waker_take (slot_ops P) (keyboard_waker k))\<rparr>))
     | None \<Rightarrow> Ret (Pending, k))"

definition poll_next ::
  "('q, 'cell, 'aw, 'tq, 'c) prims \<Rightarrow> waker \<Rightarrow> ('cell, 'aw, 'tq, 'c) kernel \<Rightarrow>
   (u8 option poll \<times> ('cell, 'aw, 'tq, 'c) kernel) outcome" where
  "poll_next P cx k =
     and_then (expect ''not initialized'' (try_get (cell_ops P) (scancode_queue k))) (\<lambda>_.
     and_then (interrupt_point P k) (\<lambda>k.
     and_then (scan_pop P k) (\<lambda>(r, k).
     case r of
       Some scancode \<Rightarrow> Ret (Ready (Some scancode), k)
     | None \<Rightarrow>
         and_then (interrupt_point P k) (\<lambda>k.
         let k = k\<lparr>keyboard_waker := waker_register (slot_ops P) cx (keyboard_waker k)\<rparr>
         in and_then (interrupt_point P k) (\<lambda>k.
            poll_next_second P k)))))"

text \<open>A poll passes at most four points at which it can be interrupted.\<close>

lemma scan_pop_arrivals: "scan_pop P k = Ret (r, k') \<Longrightarrow> arrivals k' = arrivals k"
  by (auto simp: scan_pop_def split: option.splits)

lemma poll_next_uses:
  assumes "poll_next P cx k = Ret (r, k')"
  shows "length (arrivals k) \<le> length (arrivals k') + 4"
  using assms
  by (fastforce simp: poll_next_def poll_next_second_def Let_def split: option.splits
      dest!: interrupt_uses scan_pop_arrivals)

subsection \<open>The keyboard task\<close>

datatype ('ch, 'kc) decoded_key = Unicode 'ch | RawKey 'kc

text \<open>
  \<open>Keyboard::new\<close>, \<open>add_byte\<close> (\<open>None\<close> for \<open>Err\<close>) and \<open>process_keyevent\<close> of
  the decoder, and the bytes that \<open>print!\<close> formats a character and a key code to.
\<close>

record ('kb, 'ev, 'ch, 'kc) keyboard_ops =
  keyboard_new :: 'kb
  add_byte :: "'kb \<Rightarrow> u8 \<Rightarrow> 'ev option option \<times> 'kb"
  process_keyevent :: "'kb \<Rightarrow> 'ev \<Rightarrow> ('ch, 'kc) decoded_key option \<times> 'kb"
  char_text :: "'ch \<Rightarrow> u8 list"
  keycode_text :: "'kc \<Rightarrow> u8 list"

text \<open>The body of the loop of \<open>print_keypresses\<close>.\<close>

definition handle_scancode ::
  "('q, 'cell, 'aw, 'tq, 'c) prims \<Rightarrow> ('kb, 'ev, 'ch, 'kc) keyboard_ops \<Rightarrow> 'kb \<Rightarrow> u8 \<Rightarrow>
   ('cell, 'aw, 'tq, 'c) kernel \<Rightarrow> ('kb \<times> ('cell, 'aw, 'tq, 'c) kernel) outcome" where
  "handle_scancode P K kb scancode k =
     (case add_byte K kb scancode of (r, kb) \<Rightarrow>
      case r of
        Some (Some key_event) \<Rightarrow>
          (case process_keyevent K kb key_event of (r, kb) \<Rightarrow>
           case r of
             Some key \<Rightarrow>
               and_then (case key of
                   Unicode character \<Rightarrow> kernel_print P (char_text K character) k
                 | RawKey key \<Rightarrow> kernel_print P (keycode_text K key) k) (\<lambda>k.
               Ret (kb, k))
           | None \<Rightarrow> Ret (kb, k))
      | _ \<Rightarrow> Ret (kb, k))"

text \<open>
  \<open>print_keypresses\<close> as the future the compiler makes of it: not started, waiting at
  the \<open>await\<close> with the decoder's state, or done.
\<close>

datatype 'kb keypresses = KeypressesStart | KeypressesWait 'kb | KeypressesDone

partial_function (option) keypresses_loop ::
  "('q, 'cell, 'aw, 'tq, 'c) prims \<Rightarrow> ('kb, 'ev, 'ch, 'kc) keyboard_ops \<Rightarrow> waker \<Rightarrow> 'kb \<Rightarrow>
   ('cell, 'aw, 'tq, 'c) kernel \<Rightarrow> (unit poll \<times> 'kb keypresses \<times> ('cell, 'aw, 'tq, 'c) kernel) outcome option" where
  "keypresses_loop P K cx kb k =
     (case poll_next P cx k of
        Panic e \<Rightarrow> Some (Panic e)
      | Diverge \<Rightarrow> Some Diverge
      | Ret (r, k) \<Rightarrow>
          (case r of
             Pending \<Rightarrow> Some (Ret (Pending, KeypressesWait kb, k))
           | Ready None \<Rightarrow> Some (Ret (Ready (), KeypressesDone, k))
           | Ready (Some scancode) \<Rightarrow>
               (case handle_scancode P K kb scancode k of
                  Panic e \<Rightarrow> Some (Panic e)
                | Diverge \<Rightarrow> Some Diverge
                | Ret (kb, k) \<Rightarrow> keypresses_loop P K cx kb k)))"

text \<open>Induction over the turns of a loop that returns.\<close>

lemma keypresses_loop_induct [consumes 1, case_names pending ended key]:
  assumes "keypresses_loop P K cx kb k = Some (Ret (x, f, k'))"
    and pending: "\<And>kb k k1. poll_next P cx k = Ret (Pending, k1) \<Longrightarrow> Q kb k Pending (KeypressesWait kb) k1"
    and ended: "\<And>kb k k1. poll_next P cx k = Ret (Ready None, k1) \<Longrightarrow> Q kb k (Ready ()) KeypressesDone k1"
    and key: "\<And>kb k c k1 kb' k2 x f k'. poll_next P cx k = Ret (Ready (Some c), k1) \<Longrightarrow>
      handle_scancode P K kb c k1 = Ret (kb', k2) \<Longrightarrow> Q kb' k2 x f k' \<Longrightarrow> Q kb k x f k'"
  shows "Q kb k x f k'"
proof -
  let ?Q = "\<lambda>((((P', K'), cx'), kb), k) r. P' = P \<and> K' = K \<and> cx' = cx \<longrightarrow> (\<forall>x f k'. r = Ret (x, f, k') \<longrightarrow> Q kb k x f k')"
  have "?Q ((((P, K), cx), kb), k) (Ret (x, f, k'))"
  proof (rule keypresses_loop.raw_induct [where Pa = ?Q, OF _ assms(1)], clarify, goal_cases)
    case (1 loop P' K' cx' kb k r x f k')
    from 1(2) obtain p k1 where p: "poll_next P cx k = Ret (p, k1)" by (auto split: outcome.splits)
    consider "p = Pending" | "p = Ready None" | c where "p = Ready (Some c)" by (metis not_None_eq poll.exhaust)
    then show ?case
    proof cases
      case (3 c)
      with 1(2) p obtain kb' k2 where "handle_scancode P K kb c k1 = Ret (kb', k2)" "loop P K cx kb' k2 = Some (Ret (x, f, k'))"
        by (auto split: outcome.splits)
      with 1(1) key p 3 show ?thesis by blast
    qed (use 1(2) p pending ended in auto)
  qed
  then show ?thesis by simp
qed

fun print_keypresses ::
  "('q, 'cell, 'aw, 'tq, 'c) prims \<Rightarrow> ('kb, 'ev, 'ch, 'kc) keyboard_ops \<Rightarrow>
   ('kb keypresses, ('cell, 'aw, 'tq, 'c) kernel) poll_fn" where
  "print_keypresses P K KeypressesStart cx k =
     and_then (scancode_stream_new P k) (\<lambda>k.
     loop_outcome (keypresses_loop P K cx (keyboard_new K) k))"
| "print_keypresses P K (KeypressesWait kb) cx k = loop_outcome (keypresses_loop P K cx kb k)"
| "print_keypresses P K KeypressesDone cx k = Panic (ExplicitPanic ''`async fn` resumed after completion'')"

subsection \<open>Scancodes in flight, and the state of the wake-up\<close>

definition scancodes :: "('q, 'cell, 'aw, 'tq, 'c) prims \<Rightarrow> ('q \<Rightarrow> u8 list) \<Rightarrow> ('cell, 'aw, 'tq, 'c) kernel \<Rightarrow> u8 list" where
  "scancodes P scon k = (case try_get (cell_ops P) (scancode_queue k) of Some q \<Rightarrow> scon q | None \<Rightarrow> [])"

text \<open>The scancodes among interrupts.\<close>

fun pressed :: "irq list \<Rightarrow> u8 list" where
  "pressed [] = []"
| "pressed (TimerTick # is) = pressed is"
| "pressed (KeyPressed c # is) = c # pressed is"

lemma pressed_append [simp]: "pressed (is @ js) = pressed is @ pressed js"
  by (induction "is" rule: pressed.induct) simp_all

text \<open>Scancodes not yet consumed: those in the queue and those still to arrive.\<close>

definition in_flight :: "('q, 'cell, 'aw, 'tq, 'c) prims \<Rightarrow> ('q \<Rightarrow> u8 list) \<Rightarrow> ('cell, 'aw, 'tq, 'c) kernel \<Rightarrow> u8 list" where
  "in_flight P scon k = scancodes P scon k @ pressed (concat (arrivals k))"

text \<open>The stream exists, the queues have their capacities, and only task \<open>t\<close> registers.\<close>

definition stream_ready ::
  "('q, 'cell, 'aw, 'tq, 'c) prims \<Rightarrow> ('q \<Rightarrow> nat) \<Rightarrow> ('tq \<Rightarrow> nat) \<Rightarrow> ('aw \<Rightarrow> waker option) \<Rightarrow> u64 \<Rightarrow>
   ('cell, 'aw, 'tq, 'c) kernel \<Rightarrow> bool" where
  "stream_ready P scap tcap slot t k \<longleftrightarrow>
     (\<exists>q. try_get (cell_ops P) (scancode_queue k) = Some q \<and> scap q = 100) \<and>
     tcap (task_queue k) = 100 \<and> writer_wf (vga_writer k) \<and>
     slot (keyboard_waker k) \<in> {None, Some (TaskWaker t)}"

text \<open>The entries of the task queue, with the one that the registered waker may add.\<close>

definition wake_load :: "('tq \<Rightarrow> u64 list) \<Rightarrow> ('aw \<Rightarrow> waker option) \<Rightarrow> ('cell, 'aw, 'tq, 'c) kernel \<Rightarrow> nat" where
  "wake_load tcon slot k = length (tcon (task_queue k)) + (if slot (keyboard_waker k) = None then 0 else 1)"

text \<open>The work ahead: every entry of the task queue, and every interrupt, which may add one.\<close>

definition work_ahead :: "('tq \<Rightarrow> u64 list) \<Rightarrow> ('cell, 'aw, 'tq, 'c) kernel \<Rightarrow> nat" where
  "work_ahead tcon k = length (pressed (concat (arrivals k))) + length (tcon (task_queue k))"

text \<open>Task \<open>t\<close> will run again: it is queued, or its waker is registered.\<close>

definition will_wake :: "('tq \<Rightarrow> u64 list) \<Rightarrow> ('aw \<Rightarrow> waker option) \<Rightarrow> u64 \<Rightarrow> ('cell, 'aw, 'tq, 'c) kernel \<Rightarrow> bool" where
  "will_wake tcon slot t k \<longleftrightarrow>
     t \<in> set (tcon (task_queue k)) \<or> slot (keyboard_waker k) = Some (TaskWaker t)"

text \<open>The condition of a sleeping keyboard task: queued, or nothing to read and registered.\<close>

definition armed ::
  "('q, 'cell, 'aw, 'tq, 'c) prims \<Rightarrow> ('q \<Rightarrow> u8 list) \<Rightarrow> ('tq \<Rightarrow> u64 list) \<Rightarrow> ('aw \<Rightarrow> waker option) \<Rightarrow> u64 \<Rightarrow>
   ('cell, 'aw, 'tq, 'c) kernel \<Rightarrow> bool" where
  "armed P scon tcon slot t k \<longleftrightarrow>
     t \<in> set (tcon (task_queue k)) \<or>
     scancodes P scon k = [] \<and> slot (keyboard_waker k) = Some (TaskWaker t)"

text \<open>
  What interrupts print when \<open>n\<close> more scancodes fit into the queue: a dot for each tick
  of the timer, and a warning for each scancode that does not fit.
\<close>

definition tick_text :: "u8 list list" where
  "tick_text = [str_bytes ''.'']"

definition full_text :: "u8 list list" where
  "full_text = [str_bytes ''WARNING: scancode queue full; dropping keyboard input'', [0x0A]]"

fun burst_output :: "nat \<Rightarrow> irq list \<Rightarrow> u8 list list list" where
  "burst_output n [] = []"
| "burst_output n (TimerTick # is) = tick_text # burst_output n is"
| "burst_output n (KeyPressed c # is) = (if n = 0 then [full_text] else []) @ burst_output (n - 1) is"

lemma burst_output_Cons: "burst_output n (i # is) = burst_output n [i] @ burst_output (n - length (pressed [i])) is"
  by (cases i) simp_all

lemma pressed_Cons: "pressed (i # is) = pressed [i] @ pressed is"
  by (cases i) simp_all

lemma burst_output_ticks: "length (pressed is) \<le> n \<Longrightarrow> set (burst_output n is) \<subseteq> {tick_text}"
  by (induction n "is" rule: burst_output.induct) auto

text \<open>
  The reference for the keyboard task: the texts that a list of scancodes decodes to, and
  the decoder's state after them.
\<close>

definition decode :: "('kb, 'ev, 'ch, 'kc) keyboard_ops \<Rightarrow> 'kb \<Rightarrow> u8 \<Rightarrow> u8 list list \<times> 'kb" where
  "decode K kb c =
     (case add_byte K kb c of
        (Some (Some ev), kb) \<Rightarrow>
          (case process_keyevent K kb ev of
             (Some (Unicode ch), kb) \<Rightarrow> ([char_text K ch], kb)
           | (Some (RawKey kc), kb) \<Rightarrow> ([keycode_text K kc], kb)
           | (None, kb) \<Rightarrow> ([], kb))
      | (_, kb) \<Rightarrow> ([], kb))"

fun decode_all :: "('kb, 'ev, 'ch, 'kc) keyboard_ops \<Rightarrow> 'kb \<Rightarrow> u8 list \<Rightarrow> u8 list list \<times> 'kb" where
  "decode_all K kb [] = ([], kb)"
| "decode_all K kb (c # cs) =
     (case decode K kb c of (ts, kb) \<Rightarrow> case decode_all K kb cs of (ts', kb) \<Rightarrow> (ts @ ts', kb))"

lemma decode_all_append:
  "decode_all K kb (cs @ ds) =
     (fst (decode_all K kb cs) @ fst (decode_all K (snd (decode_all K kb cs)) ds),
      snd (decode_all K (snd (decode_all K kb cs)) ds))"
  by (induction cs arbitrary: kb) (simp_all add: case_prod_beta)

text \<open>Each text is printed by a call of its own.\<close>

definition key_texts :: "('kb, 'ev, 'ch, 'kc) keyboard_ops \<Rightarrow> 'kb \<Rightarrow> u8 list \<Rightarrow> u8 list list list" where
  "key_texts K kb cs = map (\<lambda>t. [t]) (fst (decode_all K kb cs))"

lemma key_texts_Nil [simp]: "key_texts K kb [] = []"
  by (simp add: key_texts_def)

lemma key_texts_append: "key_texts K kb (cs @ ds) = key_texts K kb cs @ key_texts K (snd (decode_all K kb cs)) ds"
  by (simp add: key_texts_def decode_all_append)

lemma handle_scancode_decode:
  "handle_scancode P K kb c k =
     and_then (print_args (vga_ops P) (vga_writer k) (fst (decode K kb c))) (\<lambda>w.
     Ret (snd (decode K kb c), k\<lparr>vga_writer := w\<rparr>))"
  by (auto simp: handle_scancode_def decode_def kernel_print_def print_args_def and_then_assoc
      split: option.splits decoded_key.splits prod.splits)

context kernel_prims
begin

abbreviation "codes \<equiv> scancodes P scan_contents"
abbreviation "flight \<equiv> in_flight P scan_contents"
abbreviation "ready \<equiv> stream_ready P scan_capacity task_capacity slot"
abbreviation "load \<equiv> wake_load task_contents slot"
abbreviation "work \<equiv> work_ahead task_contents"
abbreviation "willwake \<equiv> will_wake task_contents slot"
abbreviation "arm \<equiv> armed P scan_contents task_contents slot"
abbreviation "space k \<equiv> 100 - length (codes k)"
abbreviation "shown texts k k' \<equiv> shown_amid {tick_text} (vga_ops P) texts (vga_writer k) (vga_writer k')"

text \<open>What interrupts leave of the state, apart from the scancodes.\<close>

definition calm :: "u64 \<Rightarrow> ('cell, 'aw, 'tq, 'c) kernel \<Rightarrow> ('cell, 'aw, 'tq, 'c) kernel \<Rightarrow> bool" where
  "calm t k k' \<longleftrightarrow> ready t k' \<and> load k' \<le> load k \<and> (willwake t k \<longrightarrow> willwake t k') \<and>
     (arm t k \<longrightarrow> arm t k') \<and> interrupts_enabled k' = interrupts_enabled k \<and>
     set (task_contents (task_queue k')) \<subseteq> insert t (set (task_contents (task_queue k)))"

lemma calm_trans: "calm t k k' \<Longrightarrow> calm t k' k'' \<Longrightarrow> calm t k k''"
  by (auto simp: calm_def)

lemma print_ready:
  assumes "writer_wf w"
  shows "\<exists>w'. print_args (vga_ops P) w args = Ret w' \<and> writer_wf w'"
  using write_fmt_shows [OF terminal_of_shows [OF assms], of args]
  by (auto simp: print_args_def shows_terminal_def)

text \<open>Printing changes nothing but the screen.\<close>

lemma calm_print:
  assumes "ready t k" and "writer_wf w"
  shows "calm t k (k\<lparr>vga_writer := w\<rparr>)" and "codes (k\<lparr>vga_writer := w\<rparr>) = codes k"
  using assms by (auto simp: calm_def stream_ready_def wake_load_def will_wake_def armed_def scancodes_def)

lemma tick_law:
  assumes "ready t k"
  shows "\<exists>w. kernel_print P (str_bytes ''.'') k = Ret (k\<lparr>vga_writer := w\<rparr>) \<and> writer_wf w \<and>
    print_args (vga_ops P) (vga_writer k) tick_text = Ret w"
  using print_ready [of "vga_writer k" tick_text] assms by (auto simp: kernel_print_def tick_text_def stream_ready_def)

lemma full_law:
  assumes "ready t k"
  shows "\<exists>w. kernel_println P (str_bytes ''WARNING: scancode queue full; dropping keyboard input'') k = Ret (k\<lparr>vga_writer := w\<rparr>) \<and>
    writer_wf w \<and> print_args (vga_ops P) (vga_writer k) full_text = Ret w"
  using print_ready [of "vga_writer k" full_text] assms
  by (auto simp: kernel_println_def println_def full_text_def stream_ready_def)

lemma wake_slot_law:
  assumes "ready t k" and "load k \<le> 100"
  shows "\<exists>k'. keyboard_wake P k = Ret k' \<and>
    k' = k\<lparr>keyboard_waker := keyboard_waker k', task_queue := task_queue k'\<rparr> \<and>
    ready t k' \<and> load k' \<le> load k \<and>
    (slot (keyboard_waker k) = Some (TaskWaker t) \<longrightarrow> t \<in> set (task_contents (task_queue k'))) \<and>
    set (task_contents (task_queue k)) \<subseteq> set (task_contents (task_queue k')) \<and>
    set (task_contents (task_queue k')) \<subseteq> insert t (set (task_contents (task_queue k))) \<and>
    length (task_contents (task_queue k')) \<le> length (task_contents (task_queue k)) + 1"
proof -
  obtain w aw where w: "waker_wake_slot (slot_ops P) (keyboard_waker k) = (w, aw)"
    "w = slot (keyboard_waker k)" "slot aw = None"
    using waker_wake_law [of "keyboard_waker k"] by (metis prod.exhaust_sel)
  show ?thesis
  proof (cases w)
    case None
    with w assms show ?thesis by (auto simp: keyboard_wake_def stream_ready_def wake_load_def Let_def)
  next
    case (Some w')
    then have "w' = TaskWaker t" using assms(1) w(2) by (auto simp: stream_ready_def)
    moreover have "length (task_contents (task_queue k)) < task_capacity (task_queue k)"
      using assms Some w(2) by (simp add: stream_ready_def wake_load_def)
    from tasks.queue_push_ok [OF this, of t] obtain tq where "queue_push (task_ops P) t (task_queue k) = Some tq"
      "task_contents tq = task_contents (task_queue k) @ [t]" "task_capacity tq = task_capacity (task_queue k)" by blast
    ultimately show ?thesis
      using w assms Some
      by (intro exI [of _ "k\<lparr>keyboard_waker := aw, task_queue := tq\<rparr>"])
        (auto simp: keyboard_wake_def stream_ready_def wake_load_def wake_task_def split: if_splits)
  qed
qed

lemma add_scancode_law:
  assumes "ready t k" and "load k \<le> 100"
  shows "\<exists>k'. add_scancode P c k = Ret k' \<and> calm t k k' \<and> arrivals k' = arrivals k \<and>
    length (task_contents (task_queue k')) \<le> length (task_contents (task_queue k)) + 1 \<and>
    (if length (codes k) < 100 then codes k' = codes k @ [c] \<and> vga_writer k' = vga_writer k
     else codes k' = codes k \<and> print_args (vga_ops P) (vga_writer k) full_text = Ret (vga_writer k'))"
proof -
  obtain q where q: "try_get (cell_ops P) (scancode_queue k) = Some q" "scan_capacity q = 100"
    using assms(1) by (auto simp: stream_ready_def)
  show ?thesis
  proof (cases "length (scan_contents q) < 100")
    case True
    then obtain q' where q': "queue_push (scan_ops P) c q = Some q'"
      "scan_contents q' = scan_contents q @ [c]" "scan_capacity q' = 100"
      using scan.queue_push_ok [of q c] q(2) by auto
    let ?k = "k\<lparr>scancode_queue := once_put (cell_ops P) q' (scancode_queue k)\<rparr>"
    have get: "try_get (cell_ops P) (scancode_queue ?k) = Some q'" using once_put_law q(1) by simp
    then have k: "ready t ?k" "load ?k \<le> 100"
      using assms q'(3) by (auto simp: stream_ready_def wake_load_def)
    obtain k' where k': "add_scancode P c k = Ret k'"
      "k' = ?k\<lparr>keyboard_waker := keyboard_waker k', task_queue := task_queue k'\<rparr>"
      "ready t k'" "load k' \<le> load ?k"
      "slot (keyboard_waker ?k) = Some (TaskWaker t) \<longrightarrow> t \<in> set (task_contents (task_queue k'))"
      "set (task_contents (task_queue ?k)) \<subseteq> set (task_contents (task_queue k'))"
      "set (task_contents (task_queue k')) \<subseteq> insert t (set (task_contents (task_queue ?k)))"
      "length (task_contents (task_queue k')) \<le> length (task_contents (task_queue ?k)) + 1"
      using wake_slot_law [OF k] q(1) q'(1) unfolding add_scancode_def by auto
    have "scancode_queue k' = scancode_queue ?k" "arrivals k' = arrivals k" "vga_writer k' = vga_writer k"
      "interrupts_enabled k' = interrupts_enabled k"
      by (subst k'(2), simp)+
    moreover from this have "codes k' = codes k @ [c]"
      using get q(1) q'(2) by (simp add: scancodes_def)
    ultimately show ?thesis
      using k' True q(1) by (auto simp: calm_def scancodes_def will_wake_def armed_def wake_load_def)
  next
    case False
    then have "queue_push (scan_ops P) c q = None" using scan.queue_push_full q(2) by simp
    with full_law [OF assms(1)] q(1) obtain w where
      w: "add_scancode P c k = Ret (k\<lparr>vga_writer := w\<rparr>)" "writer_wf w" "print_args (vga_ops P) (vga_writer k) full_text = Ret w"
      by (auto simp: add_scancode_def)
    with calm_print [OF assms(1) w(2)] False q(1) show ?thesis by (auto simp: scancodes_def)
  qed
qed

text \<open>The effect of interrupts: which scancodes are kept, and what is printed.\<close>

definition served :: "u64 \<Rightarrow> irq list \<Rightarrow> ('cell, 'aw, 'tq, 'c) kernel \<Rightarrow> ('cell, 'aw, 'tq, 'c) kernel \<Rightarrow> bool" where
  "served t is k k' \<longleftrightarrow> calm t k k' \<and> arrivals k' = arrivals k \<and>
     length (task_contents (task_queue k')) \<le> length (task_contents (task_queue k)) + length (pressed is) \<and>
     codes k' = codes k @ take (space k) (pressed is) \<and>
     print_args (vga_ops P) (vga_writer k) (concat (burst_output (space k) is)) = Ret (vga_writer k')"

lemma serve_law:
  assumes "ready t k" and "load k \<le> 100"
  shows "\<exists>k'. serve_irq P i k = Ret k' \<and> served t [i] k k'"
proof (cases i)
  case TimerTick
  with tick_law [OF assms(1)] calm_print [OF assms(1)] show ?thesis by (auto simp: served_def)
next
  case (KeyPressed c)
  with add_scancode_law [OF assms, of c] show ?thesis by (auto simp: served_def print_args_def split: if_splits)
qed

lemma served_trans:
  assumes "served t [i] k k1" and "served t is k1 k2"
  shows "served t (i # is) k k2"
proof -
  have "space k1 = space k - length (pressed [i])" using assms(1) by (auto simp: served_def)
  with assms calm_trans [of t k k1 k2] show ?thesis
    by (simp add: served_def burst_output_Cons [of _ i "is"] pressed_Cons [of i "is"] print_args_append)
qed

lemma burst_law:
  assumes "ready t k" and "load k \<le> 100"
  shows "\<exists>k'. for_each is (serve_irq P) k = Ret k' \<and> served t is k k'"
  using assms
proof (induction "is" arbitrary: k)
  case Nil
  then show ?case by (auto simp: served_def calm_def print_args_def)
next
  case (Cons i "is")
  from serve_law [OF Cons.prems, of i] obtain k1 where k1: "serve_irq P i k = Ret k1" "served t [i] k k1" by blast
  then have "ready t k1" "load k1 \<le> 100" using Cons.prems(2) by (auto simp: served_def calm_def)
  from Cons.IH [OF this] k1 served_trans [OF k1(2)] show ?case by auto
qed

definition quiet :: "u64 \<Rightarrow> ('cell, 'aw, 'tq, 'c) kernel \<Rightarrow> ('cell, 'aw, 'tq, 'c) kernel \<Rightarrow> bool" where
  "quiet t k k' \<longleftrightarrow> calm t k k' \<and> work k' \<le> work k \<and> length (arrivals k') \<le> length (arrivals k) \<and> subseq (flight k') (flight k) \<and>
     (length (flight k) \<le> 100 \<longrightarrow> flight k' = flight k \<and> shown [] k k')"

lemma quiet_trans:
  assumes "quiet t k k'" and "quiet t k' k''"
  shows "quiet t k k''"
  using assms calm_trans [of t k k' k''] subseq_order.trans [of "flight k''" "flight k'" "flight k"]
  by (auto simp: quiet_def intro: shown_amid_quiet)

text \<open>Nothing is lost or reported while the scancodes of a burst fit into the queue.\<close>

lemma served_room:
  assumes "arrivals k = is # rest" and "served t is (k\<lparr>arrivals := rest\<rparr>) k'"
    and "length (codes k) + length (pressed is) \<le> 100"
  shows "flight k' = flight k" and "shown [] k k'"
proof -
  have same: "codes (k\<lparr>arrivals := rest\<rparr>) = codes k" by (simp add: scancodes_def)
  have "length (pressed is) \<le> space k" using assms(3) by simp
  with burst_output_ticks [OF this] assms(1,2) show "flight k' = flight k" "shown [] k k'"
    by (auto simp: served_def same in_flight_def intro!: shown_amid_noise)
qed

lemma served_quiet:
  assumes "arrivals k = is # rest" and "served t is (k\<lparr>arrivals := rest\<rparr>) k'"
  shows "quiet t k k'"
proof -
  have same: "codes (k\<lparr>arrivals := rest\<rparr>) = codes k" "calm t (k\<lparr>arrivals := rest\<rparr>) k' = calm t k k'"
    by (simp_all add: scancodes_def calm_def wake_load_def will_wake_def armed_def)
  note s = assms(2) [unfolded served_def same]
  have "subseq (codes k') (codes k @ pressed is)"
    using s by (simp add: prefix_imp_subseq take_is_prefix)
  then have "subseq (flight k') (flight k)"
    using s assms(1) list_emb_append_mono [OF _ subseq_order.refl] by (fastforce simp: in_flight_def)
  moreover have "flight k' = flight k \<and> shown [] k k'" if "length (flight k) \<le> 100"
    using served_room [OF assms] that assms(1) by (simp add: in_flight_def)
  ultimately show ?thesis using s assms(1) by (simp add: quiet_def work_ahead_def)
qed

lemma interrupt_exact:
  assumes "ready t k" and "load k \<le> 100" and "interrupts_enabled k" and "arrivals k = is # rest"
  shows "\<exists>k'. interrupt_point P k = Ret k' \<and> served t is (k\<lparr>arrivals := rest\<rparr>) k'"
proof -
  have "ready t (k\<lparr>arrivals := rest\<rparr>)" "load (k\<lparr>arrivals := rest\<rparr>) \<le> 100"
    using assms(1,2) by (simp_all add: stream_ready_def wake_load_def)
  from burst_law [OF this, of "is"] assms(3,4) show ?thesis by (simp add: interrupt_point_def)
qed

lemma interrupt_law:
  assumes "ready t k" and "load k \<le> 100"
  shows "\<exists>k'. interrupt_point P k = Ret k' \<and> quiet t k k' \<and>
    (interrupts_enabled k \<longrightarrow> arrivals k' = tl (arrivals k))"
proof (cases "interrupts_enabled k \<and> arrivals k \<noteq> []")
  case False
  then have "interrupt_point P k = Ret k" by (auto simp: interrupt_point_def split: list.splits)
  then show ?thesis using assms False by (auto simp: quiet_def calm_def)
next
  case True
  then obtain b rest where a: "arrivals k = b # rest" by (cases "arrivals k") auto
  from interrupt_exact [OF assms _ a] True obtain k' where
    "interrupt_point P k = Ret k'" "served t b (k\<lparr>arrivals := rest\<rparr>) k'" by blast
  with served_quiet [OF a] a show ?thesis by (auto simp: served_def)
qed

lemma scan_pop_law:
  assumes "ready t k"
  shows "codes k = [] \<Longrightarrow> scan_pop P k = Ret (None, k)"
    and "codes k = c # cs \<Longrightarrow> \<exists>k'. scan_pop P k = Ret (Some c, k') \<and> k' = k\<lparr>scancode_queue := scancode_queue k'\<rparr> \<and>
      ready t k' \<and> codes k' = cs"
proof -
  obtain q where q: "try_get (cell_ops P) (scancode_queue k) = Some q" "scan_capacity q = 100"
    using assms by (auto simp: stream_ready_def)
  show "scan_pop P k = Ret (None, k)" if "codes k = []"
    using that q scan.queue_pop_empty [of q] by (simp add: scan_pop_def scancodes_def)
  show "\<exists>k'. scan_pop P k = Ret (Some c, k') \<and> k' = k\<lparr>scancode_queue := scancode_queue k'\<rparr> \<and>
      ready t k' \<and> codes k' = cs" if c: "codes k = c # cs"
  proof -
    obtain q' where q': "queue_pop (scan_ops P) q = Some (c, q')" "scan_contents q' = cs" "scan_capacity q' = 100"
      using scan.queue_pop_ok [of q c cs] c q by (auto simp: scancodes_def)
    have "try_get (cell_ops P) (once_put (cell_ops P) q' (scancode_queue k)) = Some q'"
      using once_put_law q(1) by simp
    with q q' assms show ?thesis
      by (intro exI [of _ "k\<lparr>scancode_queue := once_put (cell_ops P) q' (scancode_queue k)\<rparr>"])
        (auto simp: scan_pop_def stream_ready_def scancodes_def)
  qed
qed

lemma pop_quiet:
  assumes "ready t k" and "load k \<le> 100" and "codes k = c # cs"
  shows "\<exists>k'. scan_pop P k = Ret (Some c, k') \<and> ready t k' \<and> load k' = load k \<and> flight k = c # flight k' \<and>
    vga_writer k' = vga_writer k \<and> interrupts_enabled k' = interrupts_enabled k \<and> arrivals k' = arrivals k \<and>
    task_queue k' = task_queue k"
proof -
  obtain k' where k': "scan_pop P k = Ret (Some c, k')" "k' = k\<lparr>scancode_queue := scancode_queue k'\<rparr>"
    "ready t k'" "codes k' = cs" using scan_pop_law(2) [OF assms(1,3)] by blast
  have "keyboard_waker k' = keyboard_waker k" "task_queue k' = task_queue k" "vga_writer k' = vga_writer k"
    "arrivals k' = arrivals k" "interrupts_enabled k' = interrupts_enabled k"
    by (subst k'(2), simp)+
  then show ?thesis using k'(1,3,4) assms(3) by (auto simp: in_flight_def wake_load_def)
qed

text \<open>What \<open>poll_next\<close> promises of its result \<open>r\<close> and the state \<open>k'\<close> it leaves.\<close>

definition delivers :: "u64 \<Rightarrow> ('cell, 'aw, 'tq, 'c) kernel \<Rightarrow> u8 option poll \<Rightarrow> ('cell, 'aw, 'tq, 'c) kernel \<Rightarrow> bool" where
  "delivers t k r k' \<longleftrightarrow> ready t k' \<and> interrupts_enabled k' = interrupts_enabled k \<and>
     work k' \<le> work k \<and> length (arrivals k') \<le> length (arrivals k) \<and>
     set (task_contents (task_queue k')) \<subseteq> insert t (set (task_contents (task_queue k))) \<and>
     (case r of
        Pending \<Rightarrow> arm t k' \<and> subseq (flight k') (flight k) \<and>
          (length (flight k) \<le> 100 \<longrightarrow> flight k' = flight k \<and> shown [] k k')
      | Ready None \<Rightarrow> False
      | Ready (Some c) \<Rightarrow> subseq (c # flight k') (flight k) \<and>
          (length (flight k) \<le> 100 \<longrightarrow> flight k = c # flight k' \<and> shown [] k k'))"

lemma register_law:
  assumes "ready t k" and "load k < 100"
  shows "let k' = k\<lparr>keyboard_waker := waker_register (slot_ops P) (TaskWaker t) (keyboard_waker k)\<rparr> in
    ready t k' \<and> load k' \<le> load k + 1 \<and> load k' \<le> 100 \<and> willwake t k' \<and> flight k' = flight k \<and>
    vga_writer k' = vga_writer k \<and> interrupts_enabled k' = interrupts_enabled k \<and>
    arrivals k' = arrivals k \<and> task_queue k' = task_queue k"
  using assms by (auto simp: stream_ready_def wake_load_def will_wake_def waker_register_law in_flight_def
      scancodes_def split: if_splits)

lemma take_law:
  assumes "ready t k"
  shows "let k' = k\<lparr>keyboard_waker := snd (waker_take (slot_ops P) (keyboard_waker k))\<rparr> in
    ready t k' \<and> load k' \<le> load k \<and> flight k' = flight k \<and>
    vga_writer k' = vga_writer k \<and> interrupts_enabled k' = interrupts_enabled k \<and>
    arrivals k' = arrivals k \<and> task_queue k' = task_queue k"
  using assms waker_take_law by (auto simp: stream_ready_def wake_load_def in_flight_def scancodes_def split: if_splits)

lemma poll_next_slow:
  assumes "ready t k" and "load k \<le> 100" and "willwake t k"
  shows "\<exists>r k'. poll_next_second P k = Ret (r, k') \<and> delivers t k r k' \<and> load k' \<le> load k"
proof (cases "codes k")
  case Nil
  then have "arm t k" using assms(3) by (auto simp: armed_def will_wake_def)
  with scan_pop_law(1) [OF assms(1) Nil] assms show ?thesis by (auto simp: poll_next_second_def delivers_def)
next
  case (Cons c cs)
  from pop_quiet [OF assms(1,2) Cons] obtain k1 where
    k1: "scan_pop P k = Ret (Some c, k1)" "ready t k1" "load k1 = load k" "flight k = c # flight k1"
    "vga_writer k1 = vga_writer k" "interrupts_enabled k1 = interrupts_enabled k"
    "arrivals k1 = arrivals k" "task_queue k1 = task_queue k" by blast
  then have "load k1 \<le> 100" using assms(2) by simp
  from interrupt_law [OF k1(2) this] obtain k2 where k2: "interrupt_point P k1 = Ret k2" "quiet t k1 k2" by blast
  let ?k = "k2\<lparr>keyboard_waker := snd (waker_take (slot_ops P) (keyboard_waker k2))\<rparr>"
  have "ready t k2" using k2(2) by (simp add: quiet_def calm_def)
  from take_law [OF this] k2 k1 have "delivers t k (Ready (Some c)) ?k \<and> load ?k \<le> load k"
    by (auto simp: delivers_def quiet_def calm_def Let_def work_ahead_def)
  with k1(1) k2(1) show ?thesis by (auto simp: poll_next_second_def)
qed

lemma delivers_quiet:
  assumes "quiet t k k1" and "delivers t k1 r k'"
  shows "delivers t k r k'"
proof -
  have "subseq x (flight k)" if "subseq x (flight k1)" for x
    using that assms(1) subseq_order.trans by (auto simp: quiet_def)
  with assms show ?thesis
    by (auto simp: delivers_def quiet_def calm_def split: poll.splits option.splits intro: shown_amid_quiet)
qed

lemma poll_next_law:
  assumes "ready t k" and "load k < 100"
  shows "\<exists>r k'. poll_next P (TaskWaker t) k = Ret (r, k') \<and> delivers t k r k' \<and> load k' \<le> load k + 1"
proof -
  have "load k \<le> 100" using assms(2) by simp
  from interrupt_law [OF assms(1) this] obtain k1 where k1: "interrupt_point P k = Ret k1" "quiet t k k1" by blast
  then have r1: "ready t k1" "load k1 \<le> load k" "load k1 \<le> 100" using assms(2) by (auto simp: quiet_def calm_def)
  obtain q where q: "try_get (cell_ops P) (scancode_queue k) = Some q" using assms(1) by (auto simp: stream_ready_def)
  show ?thesis
  proof (cases "codes k1")
    case (Cons c cs)
    from pop_quiet [OF r1(1,3) Cons] obtain k2 where
      "scan_pop P k1 = Ret (Some c, k2)" "delivers t k1 (Ready (Some c)) k2" "load k2 = load k1"
      by (auto simp: delivers_def work_ahead_def subset_insertI)
    with delivers_quiet [OF k1(2)] k1(1) r1(2) q show ?thesis by (auto simp: poll_next_def)
  next
    case Nil
    from interrupt_law [OF r1(1,3)] obtain k2 where k2: "interrupt_point P k1 = Ret k2" "quiet t k1 k2" by blast
    then have r2: "ready t k2" "load k2 < 100" using r1 assms(2) by (auto simp: quiet_def calm_def)
    let ?k = "k2\<lparr>keyboard_waker := waker_register (slot_ops P) (TaskWaker t) (keyboard_waker k2)\<rparr>"
    have r3: "ready t ?k" "load ?k \<le> load k2 + 1" "load ?k \<le> 100" "willwake t ?k" "flight ?k = flight k2"
      "vga_writer ?k = vga_writer k2" "interrupts_enabled ?k = interrupts_enabled k2" "arrivals ?k = arrivals k2"
      "task_queue ?k = task_queue k2"
      using register_law [OF r2] by (auto simp: Let_def)
    from interrupt_law [OF r3(1,3)] obtain k4 where k4: "interrupt_point P ?k = Ret k4" "quiet t ?k k4" by blast
    then have r4: "ready t k4" "load k4 \<le> 100" "willwake t k4" using r3 by (auto simp: quiet_def calm_def)
    obtain r k' where p: "poll_next P (TaskWaker t) k = Ret (r, k')" "delivers t k4 r k'" "load k' \<le> load k4"
      using poll_next_slow [OF r4] k1(1) scan_pop_law(1) [OF r1(1) Nil] k2(1) k4(1) q
      by (auto simp: poll_next_def)
    have "delivers t ?k r k'" using delivers_quiet [OF k4(2) p(2)] .
    then have "delivers t k2 r k'" unfolding delivers_def work_ahead_def r3(5-9) .
    then have "delivers t k r k'" using delivers_quiet [OF k1(2)] delivers_quiet [OF k2(2)] by blast
    moreover have "load k' \<le> load k + 1"
      using p(3) k4(2) r3(2) k2(2) r1(2) by (simp add: quiet_def calm_def)
    ultimately show ?thesis using p(1) by blast
  qed
qed

text \<open>One turn of the loop: it stops with \<open>Pending\<close>, or decodes and prints the next scancode.\<close>

lemma keypresses_turn:
  assumes "ready t k" and "load k < 100" and "length (flight k) \<le> 100"
  shows "(\<exists>k1. keypresses_loop P K (TaskWaker t) kb k = Some (Ret (Pending, KeypressesWait kb, k1)) \<and>
      delivers t k Pending k1 \<and> load k1 \<le> load k + 1 \<and> length (arrivals k) \<le> length (arrivals k1) + 4) \<or>
    (\<exists>c k1. keypresses_loop P K (TaskWaker t) kb k = keypresses_loop P K (TaskWaker t) (snd (decode K kb c)) k1 \<and>
      ready t k1 \<and> flight k = c # flight k1 \<and> load k1 \<le> load k + 1 \<and> work k1 \<le> work k \<and>
      length (arrivals k1) \<le> length (arrivals k) \<and> interrupts_enabled k1 = interrupts_enabled k \<and>
      set (task_contents (task_queue k1)) \<subseteq> insert t (set (task_contents (task_queue k))) \<and>
      shown (map (\<lambda>t. [t]) (fst (decode K kb c))) k k1 \<and> length (arrivals k) \<le> length (arrivals k1) + 4)"
proof -
  from poll_next_law [OF assms(1,2)] obtain r k1 where
    p: "poll_next P (TaskWaker t) k = Ret (r, k1)" "delivers t k r k1" "load k1 \<le> load k + 1" by blast
  note uses = poll_next_uses [OF p(1)]
  show ?thesis
  proof (cases r)
    case Pending
    with p uses show ?thesis by (simp add: keypresses_loop.simps)
  next
    case (Ready x)
    then obtain c where c: "r = Ready (Some c)" using p(2) by (cases x) (auto simp: delivers_def)
    then have d: "ready t k1" "flight k = c # flight k1" "shown [] k k1"
      "interrupts_enabled k1 = interrupts_enabled k" "work k1 \<le> work k" "length (arrivals k1) \<le> length (arrivals k)"
      "set (task_contents (task_queue k1)) \<subseteq> insert t (set (task_contents (task_queue k)))"
      using p(2) assms(3) by (auto simp: delivers_def)
    obtain w where w: "print_args (vga_ops P) (vga_writer k1) (fst (decode K kb c)) = Ret w" "writer_wf w"
      using print_ready d(1) by (auto simp: stream_ready_def)
    let ?k = "k1\<lparr>vga_writer := w\<rparr>"
    have e: "ready t ?k" "load ?k = load k1" "flight ?k = flight k1" "work ?k = work k1"
      using d(1) w(2) by (auto simp: stream_ready_def wake_load_def in_flight_def scancodes_def work_ahead_def)
    have "keypresses_loop P K (TaskWaker t) kb k = keypresses_loop P K (TaskWaker t) (snd (decode K kb c)) ?k"
      using p(1) c w(1) by (subst keypresses_loop.simps) (simp add: handle_scancode_decode)
    moreover have "shown (map (\<lambda>t. [t]) (fst (decode K kb c))) k1 ?k" using w(1) by (simp add: shown_amid_texts)
    ultimately show ?thesis using d e p(3) uses shown_amid_quiet(1) [OF d(3)]
      by (intro disjI2 exI [of _ c] exI [of _ ?k]) simp
  qed
qed

lemma keypresses_loop_law:
  assumes "ready t k" and "load k + length (flight k) < 100"
  shows "\<exists>cs k'. keypresses_loop P K (TaskWaker t) kb k =
      Some (Ret (Pending, KeypressesWait (snd (decode_all K kb cs)), k')) \<and>
    flight k = cs @ flight k' \<and> arm t k' \<and> ready t k' \<and> load k' \<le> load k + length cs + 1 \<and>
    work k' \<le> work k \<and> length (arrivals k') \<le> length (arrivals k) \<and>
    set (task_contents (task_queue k')) \<subseteq> insert t (set (task_contents (task_queue k))) \<and>
    interrupts_enabled k' = interrupts_enabled k \<and>
    shown (key_texts K kb cs) k k' \<and> length (arrivals k) \<le> length (arrivals k') + 4 * (length cs + 1)"
  using assms
proof (induction "length (flight k)" arbitrary: k kb rule: less_induct)
  case less
  have len: "load k < 100" "length (flight k) \<le> 100" using less.prems(2) by auto
  from keypresses_turn [OF less.prems(1) len, where K = K and kb = kb] show ?case
  proof (elim disjE exE conjE)
    fix k1
    assume "keypresses_loop P K (TaskWaker t) kb k = Some (Ret (Pending, KeypressesWait kb, k1))"
      "delivers t k Pending k1" "load k1 \<le> load k + 1" "length (arrivals k) \<le> length (arrivals k1) + 4"
    with len(2) show ?case by (intro exI [of _ "[]"] exI [of _ k1]) (simp add: delivers_def)
  next
    fix c k1
    assume step: "keypresses_loop P K (TaskWaker t) kb k = keypresses_loop P K (TaskWaker t) (snd (decode K kb c)) k1"
      and r: "ready t k1" and f: "flight k = c # flight k1" "load k1 \<le> load k + 1" "work k1 \<le> work k"
        "length (arrivals k1) \<le> length (arrivals k)" "interrupts_enabled k1 = interrupts_enabled k"
      and q: "set (task_contents (task_queue k1)) \<subseteq> insert t (set (task_contents (task_queue k)))"
      and out: "shown (map (\<lambda>t. [t]) (fst (decode K kb c))) k k1" and uses: "length (arrivals k) \<le> length (arrivals k1) + 4"
    from f(1,2) less.prems(2) have "length (flight k1) < length (flight k)" "load k1 + length (flight k1) < 100" by auto
    from less.hyps [OF this(1) r this(2), of "snd (decode K kb c)"] obtain cs k' where
      IH: "keypresses_loop P K (TaskWaker t) (snd (decode K kb c)) k1 =
        Some (Ret (Pending, KeypressesWait (snd (decode_all K (snd (decode K kb c)) cs)), k'))" "flight k1 = cs @ flight k'"
      "arm t k'" "ready t k'" "load k' \<le> load k1 + length cs + 1" "work k' \<le> work k1"
      "length (arrivals k') \<le> length (arrivals k1)" "interrupts_enabled k' = interrupts_enabled k1"
      "set (task_contents (task_queue k')) \<subseteq> insert t (set (task_contents (task_queue k1)))"
      "shown (key_texts K (snd (decode K kb c)) cs) k1 k'" "length (arrivals k1) \<le> length (arrivals k') + 4 * (length cs + 1)" by blast
    from shown_amid_trans [OF out IH(10)] have "shown (key_texts K kb (c # cs)) k k'"
      by (simp add: key_texts_def case_prod_beta)
    moreover have "set (task_contents (task_queue k')) \<subseteq> insert t (set (task_contents (task_queue k)))" using IH(9) q by auto
    ultimately show ?case using step IH(1-8,11) f uses by (intro exI [of _ "c # cs"] exI [of _ k']) (simp add: case_prod_beta)
  qed
qed

text \<open>
  A scancode that arrives between the registration of the waker and the second check is
  delivered at once, but its wake-up stays in the task queue.
\<close>

definition raced :: "u64 \<Rightarrow> nat \<Rightarrow> irq list list \<Rightarrow> ('cell, 'aw, 'tq, 'c) kernel \<Rightarrow> bool" where
  "raced t n as k \<longleftrightarrow> ready t k \<and> codes k = [] \<and> slot (keyboard_waker k) = None \<and> interrupts_enabled k \<and>
     arrivals k = as \<and> length (task_contents (task_queue k)) = n"

lemma raced_prefix:
  assumes "raced t n ([] # [] # [KeyPressed c] # as) k"
  obtains q' where "scan_contents q' = [c]" and "scan_capacity q' = 100"
    and "poll_next P (TaskWaker t) k =
      and_then (keyboard_wake P (k\<lparr>keyboard_waker := waker_register (slot_ops P) (TaskWaker t) (keyboard_waker k), arrivals := as,
          scancode_queue := once_put (cell_ops P) q' (scancode_queue k)\<rparr>)) (poll_next_second P)"
proof -
  obtain q where q: "try_get (cell_ops P) (scancode_queue k) = Some q" "scan_capacity q = 100" "scan_contents q = []"
    using assms by (auto simp: raced_def stream_ready_def scancodes_def)
  obtain q' where q': "queue_push (scan_ops P) c q = Some q'" "scan_contents q' = [c]" "scan_capacity q' = 100"
    using scan.queue_push_ok [of q c] q by auto
  have pop: "scan_pop P (k\<lparr>arrivals := a\<rparr>) = Ret (None, k\<lparr>arrivals := a\<rparr>)" for a
    using q scan.queue_pop_empty [of q] by (simp add: scan_pop_def)
  have "poll_next P (TaskWaker t) k =
      and_then (keyboard_wake P (k\<lparr>keyboard_waker := waker_register (slot_ops P) (TaskWaker t) (keyboard_waker k), arrivals := as,
          scancode_queue := once_put (cell_ops P) q' (scancode_queue k)\<rparr>)) (poll_next_second P)"
    using assms q q' pop
    by (auto simp: poll_next_def interrupt_point_def raced_def add_scancode_def Let_def and_then_assoc
        intro!: arg_cong [where f = "\<lambda>m. and_then m _"])
  with q q' show thesis using that by auto
qed

lemma raced_wake:
  assumes "slot (keyboard_waker k) = Some (TaskWaker t)"
  shows "keyboard_wake P k = wake_task P t (k\<lparr>keyboard_waker := snd (waker_wake_slot (slot_ops P) (keyboard_waker k))\<rparr>)"
    and "slot (snd (waker_wake_slot (slot_ops P) (keyboard_waker k))) = None"
  using waker_wake_law [of "keyboard_waker k"] assms
  by (auto simp: keyboard_wake_def Let_def split: prod.splits)

lemma raced_poll:
  assumes "raced t n ([] # [] # [KeyPressed c] # [] # as) k" and "n < 100"
  shows "\<exists>k'. poll_next P (TaskWaker t) k = Ret (Ready (Some c), k') \<and> raced t (Suc n) as k'"
proof -
  obtain q' where q': "scan_contents q' = [c]" "scan_capacity q' = 100" and poll: "poll_next P (TaskWaker t) k =
      and_then (keyboard_wake P (k\<lparr>keyboard_waker := waker_register (slot_ops P) (TaskWaker t) (keyboard_waker k),
          arrivals := [] # as, scancode_queue := once_put (cell_ops P) q' (scancode_queue k)\<rparr>)) (poll_next_second P)" by (rule raced_prefix [OF assms(1)])
  let ?k = "k\<lparr>keyboard_waker := waker_register (slot_ops P) (TaskWaker t) (keyboard_waker k),
    arrivals := [] # as, scancode_queue := once_put (cell_ops P) q' (scancode_queue k)\<rparr>"
  have init: "try_get (cell_ops P) (scancode_queue ?k) = Some q'"
    using assms(1) once_put_law by (auto simp: raced_def stream_ready_def)
  then have r: "ready t ?k" "load ?k \<le> 100" "codes ?k = [c]"
    using assms q' by (auto simp: raced_def stream_ready_def waker_register_law wake_load_def scancodes_def)
  from tasks.queue_push_ok [of "task_queue k" t] obtain tq where
    tq: "queue_push (task_ops P) t (task_queue k) = Some tq" "task_contents tq = task_contents (task_queue k) @ [t]"
    "task_capacity tq = 100" using assms by (auto simp: raced_def stream_ready_def)
  let ?k2 = "?k\<lparr>keyboard_waker := snd (waker_wake_slot (slot_ops P) (keyboard_waker ?k)), task_queue := tq\<rparr>"
  have slot: "slot (keyboard_waker ?k) = Some (TaskWaker t)" by (simp add: waker_register_law)
  have k2: "keyboard_wake P ?k = Ret ?k2" using raced_wake(1) [OF slot] tq(1) by (simp add: wake_task_def)
  have r2: "ready t ?k2" "codes ?k2 = [c]"
    using assms(1) raced_wake(2) [OF slot] tq(3) init q' by (auto simp: raced_def stream_ready_def scancodes_def)
  from scan_pop_law(2) [OF this] obtain k3 where k3: "scan_pop P ?k2 = Ret (Some c, k3)"
    "k3 = ?k2\<lparr>scancode_queue := scancode_queue k3\<rparr>" "ready t k3" "codes k3 = []" by blast
  have f: "keyboard_waker k3 = keyboard_waker ?k2" "task_queue k3 = tq" "arrivals k3 = [] # as"
    "interrupts_enabled k3 = interrupts_enabled k" by (subst k3(2), simp)+
  let ?k4 = "k3\<lparr>arrivals := as, keyboard_waker := snd (waker_take (slot_ops P) (keyboard_waker k3))\<rparr>"
  have "poll_next P (TaskWaker t) k = Ret (Ready (Some c), ?k4)"
    using poll k2 k3(1) f assms(1) by (simp add: poll_next_second_def interrupt_point_def raced_def)
  moreover have "raced t (Suc n) as ?k4"
    using k3(3,4) f tq(2) assms(1) waker_take_law by (auto simp: raced_def stream_ready_def scancodes_def)
  ultimately show ?thesis by blast
qed

lemma raced_panic:
  assumes "raced t 100 ([] # [] # [KeyPressed c] # as) k"
  shows "poll_next P (TaskWaker t) k = Panic (ExpectFailed ''task queue full'')"
proof -
  obtain q' where "scan_contents q' = [c]" "scan_capacity q' = 100" and poll: "poll_next P (TaskWaker t) k =
      and_then (keyboard_wake P (k\<lparr>keyboard_waker := waker_register (slot_ops P) (TaskWaker t) (keyboard_waker k),
          arrivals := as, scancode_queue := once_put (cell_ops P) q' (scancode_queue k)\<rparr>)) (poll_next_second P)" by (rule raced_prefix [OF assms])
  let ?k = "k\<lparr>keyboard_waker := waker_register (slot_ops P) (TaskWaker t) (keyboard_waker k),
    arrivals := as, scancode_queue := once_put (cell_ops P) q' (scancode_queue k)\<rparr>"
  have full: "queue_push (task_ops P) t (task_queue k) = None"
    using assms tasks.queue_push_full [of "task_queue k" t] by (simp add: raced_def stream_ready_def)
  have "slot (keyboard_waker ?k) = Some (TaskWaker t)" by (simp add: waker_register_law)
  from raced_wake(1) [OF this] full have "keyboard_wake P ?k = Panic (ExpectFailed ''task queue full'')"
    by (simp add: wake_task_def)
  then show ?thesis unfolding poll by simp
qed

lemma raced_loop:
  assumes "raced t n (concat (replicate (101 - n) [[], [], [KeyPressed c], []])) k" and "n \<le> 100"
  shows "keypresses_loop P K (TaskWaker t) kb k = Some (Panic (ExpectFailed ''task queue full''))"
  using assms
proof (induction "100 - n" arbitrary: n k kb)
  case 0
  then have "n = 100" by simp
  with 0 have "poll_next P (TaskWaker t) k = Panic (ExpectFailed ''task queue full'')"
    by (intro raced_panic [where as = "[[]]"]) simp
  then show ?case by (simp add: keypresses_loop.simps)
next
  case (Suc m)
  then have n: "n < 100" by simp
  then have "101 - n = Suc (101 - Suc n)" by simp
  then obtain k1 where k1: "poll_next P (TaskWaker t) k = Ret (Ready (Some c), k1)"
    "raced t (Suc n) (concat (replicate (101 - Suc n) [[], [], [KeyPressed c], []])) k1"
    using raced_poll [OF _ n, of t c "concat (replicate (101 - Suc n) [[], [], [KeyPressed c], []])" k] Suc.prems(1) by auto
  obtain w where w: "print_args (vga_ops P) (vga_writer k1) (fst (decode K kb c)) = Ret w" "writer_wf w"
    using print_ready k1(2) by (auto simp: raced_def stream_ready_def)
  have "raced t (Suc n) (concat (replicate (101 - Suc n) [[], [], [KeyPressed c], []])) (k1\<lparr>vga_writer := w\<rparr>)"
    using k1(2) w(2) by (simp add: raced_def stream_ready_def scancodes_def)
  with Suc.hyps(1) [of "Suc n"] Suc.hyps(2) n
  have "keypresses_loop P K (TaskWaker t) (snd (decode K kb c)) (k1\<lparr>vga_writer := w\<rparr>) =
      Some (Panic (ExpectFailed ''task queue full''))" by simp
  then show ?case
    using k1(1) w(1) by (subst keypresses_loop.simps) (simp add: handle_scancode_decode)
qed

end

subsection \<open>Properties\<close>

text \<open>An example state: the stream is initialised and scancodes arrive at the first points.\<close>

definition example_kernel ::
  "irq list list \<Rightarrow> ((nat \<times> u8 list) option, waker option, nat \<times> u64 list, u8 \<times> u8) kernel" where
  "example_kernel as = \<lparr>scancode_queue = Some (100, []), keyboard_waker = None, task_queue = (100, []),
     vga_writer = writer_static (replicate 25 (replicate 80 (0, 0))), interrupts_enabled = True, arrivals = as\<rparr>"

lemma example_ready: "stream_ready list_prims fst fst id t (example_kernel as)"
  using example_writer_wf by (simp add: stream_ready_def example_kernel_def list_prims_def option_cell_def)

lemma example_load: "wake_load snd id (example_kernel as) = 0"
  by (simp add: wake_load_def example_kernel_def)

lemma example_flight: "in_flight list_prims snd (example_kernel as) = pressed (concat as)"
  by (simp add: in_flight_def scancodes_def example_kernel_def list_prims_def option_cell_def)

text \<open>
  C6. No wake-up is lost in \<open>poll_next\<close>, wherever keyboard interrupts strike: if it
  returns \<open>Pending\<close>, the task is in the task queue or else no scancode is waiting and
  its waker is registered; if it returns a scancode, that is the oldest one not dropped,
  and the others stay in order. It never returns the end of the stream.
\<close>

theorem poll_next_no_lost_wakeup:
  assumes "kernel_prims P scon scap tcon tcap slot" and "stream_ready P scap tcap slot t k"
    and "wake_load tcon slot k < 100"
  shows "\<exists>r k'. poll_next P (TaskWaker t) k = Ret (r, k') \<and> stream_ready P scap tcap slot t k' \<and>
    (case r of
       Pending \<Rightarrow> armed P scon tcon slot t k' \<and> subseq (in_flight P scon k') (in_flight P scon k)
     | Ready None \<Rightarrow> False
     | Ready (Some c) \<Rightarrow> subseq (c # in_flight P scon k') (in_flight P scon k))"
proof -
  from kernel_prims.poll_next_law [OF assms] obtain r k' where
    "poll_next P (TaskWaker t) k = Ret (r, k')" "kernel_prims.delivers P scon scap tcon tcap slot t k r k'" by blast
  then show ?thesis
    unfolding kernel_prims.delivers_def [OF assms(1)]
    by (intro exI [of _ r] exI [of _ k']) (auto split: poll.splits option.splits)
qed

theorem poll_next_no_lost_wakeup_witness:
  "\<exists>r k'. poll_next list_prims (TaskWaker 7) (example_kernel [[TimerTick], [], [KeyPressed 30]]) = Ret (r, k') \<and>
    stream_ready list_prims fst fst id 7 k' \<and>
    (case r of
       Pending \<Rightarrow> armed list_prims snd snd id 7 k' \<and>
         subseq (in_flight list_prims snd k') (in_flight list_prims snd (example_kernel [[TimerTick], [], [KeyPressed 30]]))
     | Ready None \<Rightarrow> False
     | Ready (Some c) \<Rightarrow> subseq (c # in_flight list_prims snd k') (in_flight list_prims snd (example_kernel [[TimerTick], [], [KeyPressed 30]])))"
  by (rule poll_next_no_lost_wakeup [OF list_prims.kernel_prims_axioms example_ready]) (simp add: example_load)

text \<open>
  A sleeping keyboard task is woken: from a state in which the task is queued or
  waits on an empty stream with its waker registered, interrupts never panic, and once
  they have brought a scancode the task is in the task queue.
\<close>

theorem interrupt_wakes_task:
  assumes "kernel_prims P scon scap tcon tcap slot" and "stream_ready P scap tcap slot t k"
    and "wake_load tcon slot k \<le> 100" and "armed P scon tcon slot t k"
  shows "\<exists>k'. interrupt_point P k = Ret k' \<and> armed P scon tcon slot t k' \<and>
    (scancodes P scon k' \<noteq> [] \<longrightarrow> t \<in> set (tcon (task_queue k'))) \<and>
    wake_load tcon slot k' \<le> wake_load tcon slot k"
proof -
  from kernel_prims.interrupt_law [OF assms(1-3)] obtain k' where
    "interrupt_point P k = Ret k'" "kernel_prims.quiet P scon scap tcon tcap slot t k k'" by blast
  then have "armed P scon tcon slot t k'" "wake_load tcon slot k' \<le> wake_load tcon slot k"
    using assms(4) by (auto simp: kernel_prims.quiet_def [OF assms(1)] kernel_prims.calm_def [OF assms(1)])
  with \<open>interrupt_point P k = Ret k'\<close> show ?thesis by (auto simp: armed_def)
qed

theorem interrupt_wakes_task_witness:
  "\<exists>k'. interrupt_point list_prims ((example_kernel [[KeyPressed 30, TimerTick, KeyPressed 48]])\<lparr>keyboard_waker := Some (TaskWaker 7)\<rparr>) = Ret k' \<and>
    armed list_prims snd snd id 7 k' \<and>
    (scancodes list_prims snd k' \<noteq> [] \<longrightarrow> 7 \<in> set (snd (task_queue k'))) \<and>
    wake_load snd id k' \<le> wake_load snd id ((example_kernel [[KeyPressed 30, TimerTick, KeyPressed 48]])\<lparr>keyboard_waker := Some (TaskWaker 7)\<rparr>)"
  by (rule interrupt_wakes_task [OF list_prims.kernel_prims_axioms])
    (use example_ready [of 7] in \<open>simp_all add: stream_ready_def wake_load_def armed_def scancodes_def
      example_kernel_def list_prims_def option_cell_def\<close>)

text \<open>
  C22. Typing works: once the keyboard task has created the stream and waits at its
  \<open>await\<close>, and with fewer than 100 scancodes in flight and wake-ups of the task together
  (without that bound the task queue can overflow), a poll of the keyboard task
  returns \<open>Pending\<close> under every schedule of interrupts, having decoded and printed a
  prefix of the scancodes, each once and in the order of arrival, with nothing in between
  but the dots of the timer; the rest is still there, and the task will be woken for it.
\<close>

theorem keypresses_printed_in_order:
  assumes "kernel_prims P scon scap tcon tcap slot" and "stream_ready P scap tcap slot t k"
    and "wake_load tcon slot k + length (in_flight P scon k) < 100"
  shows "\<exists>cs k'. print_keypresses P K (KeypressesWait kb) (TaskWaker t) k =
      Ret (Pending, KeypressesWait (snd (decode_all K kb cs)), k') \<and>
    in_flight P scon k = cs @ in_flight P scon k' \<and> armed P scon tcon slot t k' \<and>
    shown_amid {tick_text} (vga_ops P) (key_texts K kb cs) (vga_writer k) (vga_writer k')"
  using kernel_prims.keypresses_loop_law [OF assms, of K kb] by auto

text \<open>A decoder that turns every scancode into one character, for the witness.\<close>

definition echo_keyboard :: "(unit, u8, u8, unit) keyboard_ops" where
  "echo_keyboard = \<lparr>keyboard_new = (), add_byte = (\<lambda>kb c. (Some (Some c), kb)),
     process_keyevent = (\<lambda>kb ev. (Some (Unicode ev), kb)), char_text = (\<lambda>ch. [ch]), keycode_text = (\<lambda>_. [])\<rparr>"

theorem keypresses_printed_in_order_witness:
  "\<exists>cs k'. print_keypresses list_prims echo_keyboard (KeypressesWait ()) (TaskWaker 7) (example_kernel [[KeyPressed 65, KeyPressed 66], [], [TimerTick, KeyPressed 67]]) =
      Ret (Pending, KeypressesWait (snd (decode_all echo_keyboard () cs)), k') \<and>
    in_flight list_prims snd (example_kernel [[KeyPressed 65, KeyPressed 66], [], [TimerTick, KeyPressed 67]]) = cs @ in_flight list_prims snd k' \<and>
    armed list_prims snd snd id 7 k' \<and>
    shown_amid {tick_text} (vga_ops list_prims) (key_texts echo_keyboard () cs)
      (vga_writer (example_kernel [[KeyPressed 65, KeyPressed 66], [], [TimerTick, KeyPressed 67]])) (vga_writer k')"
  by (rule keypresses_printed_in_order [OF list_prims.kernel_prims_axioms example_ready])
    (simp add: example_load example_flight)

text \<open>
  C40. The wake-ups of the keyboard task can overflow the task queue: when scancodes
  arrive 101 times in a row between the registration of the waker and the second check
  of \<open>poll_next\<close>, each leaves an entry for the task in the queue of 100 while the task
  is still running, and the interrupt handler panics.
\<close>

theorem keyboard_wakeups_overflow:
  assumes "kernel_prims P scon scap tcon tcap slot" and "stream_ready P scap tcap slot t k"
    and "scancodes P scon k = []" and "slot (keyboard_waker k) = None" and "interrupts_enabled k"
    and "tcon (task_queue k) = []" and "arrivals k = concat (replicate 101 [[], [], [KeyPressed c], []])"
  shows "print_keypresses P K (KeypressesWait kb) (TaskWaker t) k = Panic (ExpectFailed ''task queue full'')"
proof -
  have "kernel_prims.raced P scon scap tcon tcap slot t 0 (concat (replicate (101 - 0) [[], [], [KeyPressed c], []])) k"
    unfolding kernel_prims.raced_def [OF assms(1)] using assms(2-) by simp
  from kernel_prims.raced_loop [OF assms(1) this, of K kb] show ?thesis by simp
qed

theorem keyboard_wakeups_overflow_witness:
  "print_keypresses list_prims echo_keyboard (KeypressesWait ()) (TaskWaker 7)
     (example_kernel (concat (replicate 101 [[], [], [KeyPressed 30], []]))) = Panic (ExpectFailed ''task queue full'')"
  by (rule keyboard_wakeups_overflow [OF list_prims.kernel_prims_axioms example_ready])
    (simp_all add: scancodes_def example_kernel_def list_prims_def option_cell_def)

text \<open>
  C19. What a burst of interrupts does, exactly, once the stream of scancodes exists and
  while the task queue has room for the wake-up that a scancode may cause: of the scancodes, as many are queued, in
  order, as the queue of 100 has room for; every further one is dropped with one warning
  on the screen, every timer tick prints one dot, in the order of the interrupts, and
  nothing else is printed. Nothing panics, and a sleeping task is not forgotten. (With the
  task queue full and a waker registered the handler panics.)
\<close>

theorem interrupt_burst_exact:
  assumes "kernel_prims P scon scap tcon tcap slot" and "stream_ready P scap tcap slot t k"
    and "wake_load tcon slot k \<le> 100" and "interrupts_enabled k" and "arrivals k = is # rest"
  shows "\<exists>k'. interrupt_point P k = Ret k' \<and> arrivals k' = rest \<and>
    scancodes P scon k' = scancodes P scon k @ take (100 - length (scancodes P scon k)) (pressed is) \<and>
    print_args (vga_ops P) (vga_writer k) (concat (burst_output (100 - length (scancodes P scon k)) is)) = Ret (vga_writer k') \<and>
    (armed P scon tcon slot t k \<longrightarrow> armed P scon tcon slot t k')"
proof -
  from kernel_prims.interrupt_exact [OF assms] obtain k' where
    k': "interrupt_point P k = Ret k'" "kernel_prims.served P scon scap tcon tcap slot t is (k\<lparr>arrivals := rest\<rparr>) k'" by blast
  have "scancodes P scon (k\<lparr>arrivals := rest\<rparr>) = scancodes P scon k"
    "armed P scon tcon slot t (k\<lparr>arrivals := rest\<rparr>) = armed P scon tcon slot t k"
    by (simp_all add: scancodes_def armed_def)
  with k' show ?thesis
    by (simp add: kernel_prims.served_def [OF assms(1)] kernel_prims.calm_def [OF assms(1)])
qed

theorem interrupt_burst_exact_witness:
  "\<exists>k'. interrupt_point list_prims (example_kernel [replicate 101 (KeyPressed 30) @ [TimerTick]]) = Ret k' \<and>
    scancodes list_prims snd k' = replicate 100 30 \<and>
    print_args vga_cell (writer_static (replicate 25 (replicate 80 (0, 0)))) (full_text @ tick_text) = Ret (vga_writer k')"
proof -
  let ?is = "replicate 101 (KeyPressed 30) @ [TimerTick]"
  have n: "pressed (replicate n (KeyPressed c)) = replicate n c" for n c by (induction n) simp_all
  have o: "burst_output n (replicate (Suc n) (KeyPressed c) @ [TimerTick]) = [full_text, tick_text]" for n c
    by (induction n) simp_all
  have e: "arrivals (example_kernel [?is]) = ?is # []" "interrupts_enabled (example_kernel [?is])"
    "vga_writer (example_kernel [?is]) = writer_static (replicate 25 (replicate 80 (0, 0)))"
    "scancodes list_prims snd (example_kernel [?is]) = []" "vga_ops list_prims = vga_cell"
    by (simp_all add: scancodes_def example_kernel_def list_prims_def option_cell_def)
  from interrupt_burst_exact [OF list_prims.kernel_prims_axioms example_ready _ e(2,1)] obtain k' where
    "interrupt_point list_prims (example_kernel [?is]) = Ret k'"
    "scancodes list_prims snd k' = take 100 (pressed ?is)"
    "print_args vga_cell (writer_static (replicate 25 (replicate 80 (0, 0)))) (concat (burst_output 100 ?is)) = Ret (vga_writer k')"
    unfolding e by (auto simp: example_load)
  then show ?thesis using o [of 100 30] by (simp add: n)
qed

text \<open>
  The stream is a singleton: the first \<open>ScancodeStream::new\<close> succeeds with an
  empty queue of capacity 100, and every later one panics, whatever was read and written
  in between.
\<close>

theorem scancode_stream_once:
  assumes "kernel_prims P scon scap tcon tcap slot" and "try_get (cell_ops P) (scancode_queue k) = None"
  shows "\<exists>k'. scancode_stream_new P k = Ret k' \<and> scancodes P scon k' = [] \<and>
    (\<forall>k''. try_get (cell_ops P) (scancode_queue k'') \<noteq> None \<longrightarrow> scancode_stream_new P k'' =
      Panic (ExpectFailed ''ScancodeStream::new should only be called once'')) \<and>
    (\<exists>q. try_get (cell_ops P) (scancode_queue k') = Some q \<and> scap q = 100)"
proof -
  have oc: "once_cell (cell_ops P)" and aq: "array_queue (scan_ops P) scon scap"
    using assms(1) by (auto simp: kernel_prims_def)
  obtain c where c: "try_init_once (cell_ops P) (queue_new (scan_ops P) 100) (scancode_queue k) = Some c"
    "try_get (cell_ops P) c = Some (queue_new (scan_ops P) 100)"
    using once_cell.once_init_law [OF oc assms(2)] by blast
  have "scon (queue_new (scan_ops P) 100) = []" "scap (queue_new (scan_ops P) 100) = 100"
    using array_queue.queue_new_law [OF aq] by simp_all
  moreover have "scancode_stream_new P k'' = Panic (ExpectFailed ''ScancodeStream::new should only be called once'')"
    if "try_get (cell_ops P) (scancode_queue k'') \<noteq> None" for k'' :: "('b, 'c, 'd, 'e) kernel"
    using that once_cell.once_again_law [OF oc] by (auto simp: scancode_stream_new_def)
  ultimately show ?thesis using c by (auto simp: scancode_stream_new_def scancodes_def)
qed

theorem scancode_stream_once_witness:
  "\<exists>k'. scancode_stream_new list_prims ((example_kernel [])\<lparr>scancode_queue := None\<rparr>) = Ret k' \<and>
    scancodes list_prims snd k' = [] \<and>
    (\<forall>k''. try_get (cell_ops list_prims) (scancode_queue k'') \<noteq> None \<longrightarrow> scancode_stream_new list_prims k'' =
      Panic (ExpectFailed ''ScancodeStream::new should only be called once'')) \<and>
    (\<exists>q. try_get (cell_ops list_prims) (scancode_queue k') = Some q \<and> fst q = 100)"
  by (rule scancode_stream_once [OF list_prims.kernel_prims_axioms]) (simp add: list_prims_def option_cell_def)

end
