(* ===== verification/Executor.thy ===== *)
theory Executor
  imports Keyboard
begin

text \<open>
  The executor with wakers, \<open>src/task/executor.rs\<close>. The queue of task ids is shared
  with the wakers, so it is part of the kernel's state; the maps of tasks and wakers are
  the executor's own. Interrupts may strike before every access to the queue
  while interrupts are enabled.
\<close>

record 'f executor =
  tasks :: "u64 \<rightharpoonup> 'f task"
  waker_cache :: "u64 \<rightharpoonup> waker"

definition executor_new ::
  "('q, 'cell, 'aw, 'tq, 'c) prims \<Rightarrow> ('cell, 'aw, 'tq, 'c) kernel \<Rightarrow> 'f executor \<times> ('cell, 'aw, 'tq, 'c) kernel" where
  "executor_new P k =
     (\<lparr>tasks = Map.empty, waker_cache = Map.empty\<rparr>, k\<lparr>task_queue := queue_new (task_ops P) 100\<rparr>)"

definition spawn ::
  "('q, 'cell, 'aw, 'tq, 'c) prims \<Rightarrow> 'f task \<Rightarrow> 'f executor \<Rightarrow> ('cell, 'aw, 'tq, 'c) kernel \<Rightarrow>
   ('f executor \<times> ('cell, 'aw, 'tq, 'c) kernel) outcome" where
  "spawn P task e k =
     (let tid = task_id task;
          old = tasks e tid;
          e = e\<lparr>tasks := (tasks e)(tid \<mapsto> task)\<rparr>
      in if old \<noteq> None then Panic (ExplicitPanic ''task with same ID already in tasks'')
         else and_then (expect ''queue full'' (queue_push (task_ops P) tid (task_queue k))) (\<lambda>tq.
              Ret (e, k\<lparr>task_queue := tq\<rparr>)))"

definition task_waker_new :: "u64 \<Rightarrow> waker" where
  "task_waker_new tid = TaskWaker tid"

partial_function (option) ready_loop ::
  "('q, 'cell, 'aw, 'tq, 'c) prims \<Rightarrow> ('f, ('cell, 'aw, 'tq, 'c) kernel) poll_fn \<Rightarrow> 'f executor \<Rightarrow>
   ('cell, 'aw, 'tq, 'c) kernel \<Rightarrow> ('f executor \<times> ('cell, 'aw, 'tq, 'c) kernel) outcome option" where
  "ready_loop P pollf e k =
     (case interrupt_point P k of
        Panic x \<Rightarrow> Some (Panic x)
      | Diverge \<Rightarrow> Some Diverge
      | Ret k \<Rightarrow>
          (case queue_pop (task_ops P) (task_queue k) of
             None \<Rightarrow> Some (Ret (e, k))
           | Some (tid, tq) \<Rightarrow>
               (let k = k\<lparr>task_queue := tq\<rparr>
                in case tasks e tid of
                     None \<Rightarrow> ready_loop P pollf e k
                   | Some task \<Rightarrow>
                       (let waker = (case waker_cache e tid of Some w \<Rightarrow> w | None \<Rightarrow> task_waker_new tid);
                            e = e\<lparr>waker_cache := (waker_cache e)(tid \<mapsto> waker)\<rparr>
                        in case task_poll pollf task waker k of
                             Panic x \<Rightarrow> Some (Panic x)
                           | Diverge \<Rightarrow> Some Diverge
                           | Ret (r, task, k) \<Rightarrow>
                               (case r of
                                  Ready _ \<Rightarrow>
                                    ready_loop P pollf
                                      (e\<lparr>tasks := (tasks e)(tid := None), waker_cache := (waker_cache e)(tid := None)\<rparr>) k
                                | Pending \<Rightarrow> ready_loop P pollf (e\<lparr>tasks := (tasks e)(tid \<mapsto> task)\<rparr>) k)))))"

definition run_ready_tasks ::
  "('q, 'cell, 'aw, 'tq, 'c) prims \<Rightarrow> ('f, ('cell, 'aw, 'tq, 'c) kernel) poll_fn \<Rightarrow> 'f executor \<Rightarrow>
   ('cell, 'aw, 'tq, 'c) kernel \<Rightarrow> ('f executor \<times> ('cell, 'aw, 'tq, 'c) kernel) outcome" where
  "run_ready_tasks P pollf e k = loop_outcome (ready_loop P pollf e k)"

text \<open>
  \<open>enable_and_hlt\<close>: interrupts are enabled together with the halt. The processor sleeps
  through the points at which nothing arrives, serves the interrupts of the first
  other one and is awake again; if none is left, it sleeps for ever. The result of
  \<open>sleep_if_idle\<close> says which of it happened, or that the processor was not halted.
\<close>

datatype idle = Busy | Woken | Asleep

definition enable_and_hlt ::
  "('q, 'cell, 'aw, 'tq, 'c) prims \<Rightarrow> ('cell, 'aw, 'tq, 'c) kernel \<Rightarrow> (idle \<times> ('cell, 'aw, 'tq, 'c) kernel) outcome" where
  "enable_and_hlt P k =
     (let k = k\<lparr>interrupts_enabled := True, arrivals := dropWhile (\<lambda>burst. burst = []) (arrivals k)\<rparr>
      in if arrivals k = [] then Ret (Asleep, k)
         else and_then (interrupt_point P k) (\<lambda>k. Ret (Woken, k)))"

definition sleep_if_idle ::
  "('q, 'cell, 'aw, 'tq, 'c) prims \<Rightarrow> ('cell, 'aw, 'tq, 'c) kernel \<Rightarrow>
   (idle \<times> ('cell, 'aw, 'tq, 'c) kernel) outcome" where
  "sleep_if_idle P k =
     and_then (interrupt_point P k) (\<lambda>k.
     let k = k\<lparr>interrupts_enabled := False\<rparr>
     in and_then (interrupt_point P k) (\<lambda>k.
        if queue_is_empty (task_ops P) (task_queue k)
        then and_then (interrupt_point P k) (enable_and_hlt P)
        else Ret (Busy, k\<lparr>interrupts_enabled := True\<rparr>)))"

text \<open>
  \<open>run\<close> never returns; this is its state after \<open>n\<close> turns of its loop, or when the
  processor has gone to sleep for ever.
\<close>

fun run_turns ::
  "('q, 'cell, 'aw, 'tq, 'c) prims \<Rightarrow> ('f, ('cell, 'aw, 'tq, 'c) kernel) poll_fn \<Rightarrow> nat \<Rightarrow> 'f executor \<Rightarrow>
   ('cell, 'aw, 'tq, 'c) kernel \<Rightarrow> ('f executor \<times> ('cell, 'aw, 'tq, 'c) kernel) outcome" where
  "run_turns P pollf 0 e k = Ret (e, k)"
| "run_turns P pollf (Suc n) e k =
     and_then (run_ready_tasks P pollf e k) (\<lambda>(e, k).
     and_then (sleep_if_idle P k) (\<lambda>(r, k).
     if r = Asleep then Ret (e, k) else run_turns P pollf n e k))"

text \<open>The points the processor sleeps through.\<close>

lemma first_burst:
  "\<exists>zs. as = zs @ dropWhile (\<lambda>burst. burst = []) as \<and> concat zs = []"
  by (intro exI [of _ "takeWhile (\<lambda>burst. burst = []) as"]) (auto dest: set_takeWhileD)

lemma first_burst_nonempty: "dropWhile (\<lambda>burst. burst = []) as = burst # rest \<Longrightarrow> burst \<noteq> []"
  using hd_dropWhile [of "\<lambda>burst. burst = []" as] by auto

subsection \<open>The executor's own invariant\<close>

text \<open>Tasks are filed under their ids, cached wakers belong to live tasks.\<close>

definition executor_wf :: "'f executor \<Rightarrow> bool" where
  "executor_wf e \<longleftrightarrow> (\<forall>tid t. tasks e tid = Some t \<longrightarrow> task_id t = tid) \<and>
     (\<forall>tid w. waker_cache e tid = Some w \<longrightarrow> w = TaskWaker tid \<and> tasks e tid \<noteq> None)"

lemma executor_wf_new: "executor_wf (fst (executor_new P k))"
  by (simp add: executor_wf_def executor_new_def)

lemma spawn_wf: "executor_wf e \<Longrightarrow> spawn P t e k = Ret (e', k') \<Longrightarrow> executor_wf e'"
  by (auto simp: executor_wf_def spawn_def Let_def split: if_splits)

lemma task_poll_id: "task_poll pollf t w k = Ret (r, t', k') \<Longrightarrow> task_id t' = task_id t"
  by (auto simp: task_poll_def)

text \<open>What the body of the loop does with a task id: its task is gone, ready, or pending.\<close>

inductive ready_turn :: "('f, 'k) poll_fn \<Rightarrow> u64 \<Rightarrow> 'f executor \<Rightarrow> 'k \<Rightarrow> 'f executor \<Rightarrow> 'k \<Rightarrow> bool" for pollf tid where
  turn_gone: "tasks e tid = None \<Longrightarrow> ready_turn pollf tid e k e k"
| turn_ready: "tasks e tid = Some task \<Longrightarrow>
    task_poll pollf task (case waker_cache e tid of Some w \<Rightarrow> w | None \<Rightarrow> task_waker_new tid) k = Ret (Ready u, task', k') \<Longrightarrow>
    ready_turn pollf tid e k (e\<lparr>tasks := (tasks e)(tid := None), waker_cache := (waker_cache e)(tid := None)\<rparr>) k'"
| turn_pending: "tasks e tid = Some task \<Longrightarrow>
    task_poll pollf task (case waker_cache e tid of Some w \<Rightarrow> w | None \<Rightarrow> task_waker_new tid) k = Ret (Pending, task', k') \<Longrightarrow>
    ready_turn pollf tid e k (e\<lparr>waker_cache := (waker_cache e)(tid \<mapsto> case waker_cache e tid of Some w \<Rightarrow> w | None \<Rightarrow> task_waker_new tid),
      tasks := (tasks e)(tid \<mapsto> task')\<rparr>) k'"

inductive_cases ready_turnE: "ready_turn pollf tid e k e2 k2"

lemma ready_loop_empty:
  assumes "interrupt_point P k = Ret k1" and "queue_pop (task_ops P) (task_queue k1) = None"
  shows "ready_loop P pollf e k = Some (Ret (e, k1))"
  using assms by (simp add: ready_loop.simps)

lemma ready_loop_turn:
  assumes "interrupt_point P k = Ret k1" and "queue_pop (task_ops P) (task_queue k1) = Some (tid, tq)"
    and "ready_turn pollf tid e (k1\<lparr>task_queue := tq\<rparr>) e2 k2"
  shows "ready_loop P pollf e k = ready_loop P pollf e2 k2"
  using assms(3,1,2) by (elim ready_turnE) (simp_all add: ready_loop.simps [of P pollf e k])

text \<open>Induction over the turns of a loop that returns.\<close>

lemma ready_loop_induct [consumes 1, case_names empty turn]:
  assumes "ready_loop P pollf e k = Some (Ret (e', k'))"
    and empty: "\<And>e k k1. interrupt_point P k = Ret k1 \<Longrightarrow> queue_pop (task_ops P) (task_queue k1) = None \<Longrightarrow> Q e k e k1"
    and turn: "\<And>e k k1 tid tq e2 k2 e' k'. interrupt_point P k = Ret k1 \<Longrightarrow>
      queue_pop (task_ops P) (task_queue k1) = Some (tid, tq) \<Longrightarrow> ready_turn pollf tid e (k1\<lparr>task_queue := tq\<rparr>) e2 k2 \<Longrightarrow>
      Q e2 k2 e' k' \<Longrightarrow> Q e k e' k'"
  shows "Q e k e' k'"
proof -
  let ?Q = "\<lambda>(((P', q), e), k) r. P' = P \<and> q = pollf \<longrightarrow> (\<forall>e' k'. r = Ret (e', k') \<longrightarrow> Q e k e' k')"
  have "?Q (((P, pollf), e), k) (Ret (e', k'))"
  proof (rule ready_loop.raw_induct [where Pa = ?Q, OF _ assms(1)], clarify, goal_cases)
    case (1 loop P' q e k r e' k')
    from 1(2) obtain k1 where k1: "interrupt_point P k = Ret k1" by (auto split: outcome.splits)
    show ?case
    proof (cases "queue_pop (task_ops P) (task_queue k1)")
      case None
      with 1(2) k1 empty show ?thesis by auto
    next
      case (Some x)
      obtain tid tq where x: "x = (tid, tq)" by (cases x)
      have "\<exists>e2 k2. ready_turn pollf tid e (k1\<lparr>task_queue := tq\<rparr>) e2 k2 \<and> loop P pollf e2 k2 = Some (Ret (e', k'))"
      proof (cases "tasks e tid")
        case None
        then have "loop P pollf e (k1\<lparr>task_queue := tq\<rparr>) = Some (Ret (e', k'))" using 1(2) k1 Some x by simp
        with turn_gone [OF None, of pollf] show ?thesis by blast
      next
        case task: (Some task)
        let ?w = "case waker_cache e tid of Some w \<Rightarrow> w | None \<Rightarrow> task_waker_new tid"
        from 1(2) k1 Some x task obtain z task' k2 where z: "task_poll pollf task ?w (k1\<lparr>task_queue := tq\<rparr>) = Ret (z, task', k2)"
          by (auto simp: Let_def split: outcome.splits)
        from 1(2) k1 Some x task z show ?thesis
          by (cases z) (auto simp: Let_def intro!: turn_ready [OF task] turn_pending [OF task] exI conjI)
      qed
      with 1(1) turn [OF k1] Some x show ?thesis by blast
    qed
  qed
  then show ?thesis by simp
qed

lemma ready_turn_wf:
  assumes "ready_turn pollf tid e k e2 k2" and "executor_wf e"
  shows "executor_wf e2"
  using assms by (auto elim!: ready_turnE simp: executor_wf_def task_waker_new_def dest: task_poll_id split: option.splits if_splits)

lemma ready_loop_post:
  assumes "ready_loop P pollf e k = Some (Ret (e', k'))" and "executor_wf e"
  shows "executor_wf e' \<and> queue_pop (task_ops P) (task_queue k') = None"
  using assms by (induction rule: ready_loop_induct) (auto dest: ready_turn_wf)

subsection \<open>The executor with the keyboard task\<close>

text \<open>
  The executor runs the keyboard task, which waits at its \<open>await\<close>. The executor's
  futures may be of a type of which \<open>F\<close> makes the keyboard's a part.
\<close>

definition keyboard_host :: "('kb keypresses \<Rightarrow> 'f) \<Rightarrow> u64 \<Rightarrow> 'kb \<Rightarrow> 'f executor \<Rightarrow> bool" where
  "keyboard_host F t kb e \<longleftrightarrow> tasks e = [t \<mapsto> \<lparr>task_id = t, future = F (KeypressesWait kb)\<rparr>] \<and>
     waker_cache e t \<in> {None, Some (TaskWaker t)}"

abbreviation keyboard_executor :: "u64 \<Rightarrow> 'kb \<Rightarrow> 'kb keypresses executor \<Rightarrow> bool" where
  "keyboard_executor \<equiv> keyboard_host (\<lambda>f. f)"

text \<open>Polling the part is polling the keyboard task.\<close>

definition polls_keyboard ::
  "('q, 'cell, 'aw, 'tq, 'c) prims \<Rightarrow> ('kb, 'ev, 'ch, 'kc) keyboard_ops \<Rightarrow> ('kb keypresses \<Rightarrow> 'f) \<Rightarrow>
   ('f, ('cell, 'aw, 'tq, 'c) kernel) poll_fn \<Rightarrow> bool" where
  "polls_keyboard P K F pollf \<longleftrightarrow> (\<forall>kb cx k. pollf (F (KeypressesWait kb)) cx k =
     and_then (print_keypresses P K (KeypressesWait kb) cx k) (\<lambda>(r, f, k). Ret (r, F f, k)))"

lemma polls_keyboard_id: "polls_keyboard P K (\<lambda>f. f) (print_keypresses P K)"
  by (simp add: polls_keyboard_def)

context kernel_prims
begin

text \<open>What holds whenever the keyboard task is not being polled.\<close>

definition sound :: "u64 \<Rightarrow> ('cell, 'aw, 'tq, 'c) kernel \<Rightarrow> bool" where
  "sound t k \<longleftrightarrow> ready t k \<and> arm t k \<and> set (task_contents (task_queue k)) \<subseteq> {t} \<and> load k + length (flight k) < 100"

lemma quiet_sound:
  assumes "sound t k" and "quiet t k k'"
  shows "sound t k'" and "flight k' = flight k" and "shown [] k k'"
  using assms by (auto simp: sound_def quiet_def calm_def)

lemma task_pop_law:
  assumes "sound t k" and "task_contents (task_queue k) \<noteq> []"
  shows "\<exists>tq. queue_pop (task_ops P) (task_queue k) = Some (t, tq) \<and>
    ready t (k\<lparr>task_queue := tq\<rparr>) \<and> Suc (load (k\<lparr>task_queue := tq\<rparr>)) = load k \<and>
    Suc (work (k\<lparr>task_queue := tq\<rparr>)) = work k \<and> flight (k\<lparr>task_queue := tq\<rparr>) = flight k \<and>
    set (task_contents tq) \<subseteq> {t}"
proof -
  obtain ts where ts: "task_contents (task_queue k) = t # ts" "set ts \<subseteq> {t}"
    using assms by (cases "task_contents (task_queue k)") (auto simp: sound_def)
  from tasks.queue_pop_ok [OF this(1)] ts assms(1) show ?thesis
    by (auto simp: sound_def stream_ready_def wake_load_def work_ahead_def in_flight_def scancodes_def)
qed

text \<open>A turn of the loop that polls the keyboard task.\<close>

lemma keyboard_turn:
  assumes poll: "polls_keyboard P K F pollf" and e: "keyboard_host F t kb e" and s: "sound t k1" and ne: "task_contents (task_queue k1) \<noteq> []"
    and irq: "interrupt_point P k = Ret k1"
  shows "\<exists>cs e2 k2. ready_loop P pollf e k = ready_loop P pollf e2 k2 \<and>
    keyboard_host F t (snd (decode_all K kb cs)) e2 \<and> sound t k2 \<and> work k2 < work k1 \<and>
    flight k1 = cs @ flight k2 \<and> interrupts_enabled k2 = interrupts_enabled k1 \<and>
    length (arrivals k2) \<le> length (arrivals k1) \<and>
    shown (key_texts K kb cs) k1 k2 \<and> length (arrivals k1) \<le> length (arrivals k2) + 4 * (length cs + 1)"
proof -
  from task_pop_law [OF s ne] obtain tq where
    tq: "queue_pop (task_ops P) (task_queue k1) = Some (t, tq)" "ready t (k1\<lparr>task_queue := tq\<rparr>)"
    "Suc (load (k1\<lparr>task_queue := tq\<rparr>)) = load k1" "Suc (work (k1\<lparr>task_queue := tq\<rparr>)) = work k1"
    "flight (k1\<lparr>task_queue := tq\<rparr>) = flight k1" "set (task_contents tq) \<subseteq> {t}" by blast
  let ?k = "k1\<lparr>task_queue := tq\<rparr>"
  have "load ?k + length (flight ?k) < 100" using tq(3,5) s by (simp add: sound_def)
  from keypresses_loop_law [OF tq(2) this, of K kb] obtain cs k2 where
    k2: "keypresses_loop P K (TaskWaker t) kb ?k = Some (Ret (Pending, KeypressesWait (snd (decode_all K kb cs)), k2))"
    "flight ?k = cs @ flight k2" "arm t k2" "ready t k2" "load k2 \<le> load ?k + length cs + 1"
    "work k2 \<le> work ?k" "length (arrivals k2) \<le> length (arrivals ?k)"
    "set (task_contents (task_queue k2)) \<subseteq> insert t (set (task_contents (task_queue ?k)))"
    "interrupts_enabled k2 = interrupts_enabled ?k"
    "shown (key_texts K kb cs) ?k k2" "length (arrivals ?k) \<le> length (arrivals k2) + 4 * (length cs + 1)" by blast
  let ?kb = "snd (decode_all K kb cs)"
  let ?e = "e\<lparr>waker_cache := (waker_cache e)(t \<mapsto> TaskWaker t),
    tasks := (tasks e)(t \<mapsto> \<lparr>task_id = t, future = F (KeypressesWait ?kb)\<rparr>)\<rparr>"
  have "keyboard_host F t ?kb ?e" using e by (simp add: keyboard_host_def)
  moreover have "sound t k2" using k2(2-5,8) tq(3,5,6) s by (auto simp: sound_def)
  moreover have "ready_turn pollf t e ?k ?e k2"
    using ready_turn.turn_pending [of e t _ pollf ?k _ k2] k2(1) e poll
    by (auto simp: keyboard_host_def polls_keyboard_def task_poll_def task_waker_new_def)
  then have "ready_loop P pollf e k = ready_loop P pollf ?e k2" by (rule ready_loop_turn [OF irq tq(1)])
  moreover have "work k2 < work k1" using k2(6) tq(4) by simp
  ultimately show ?thesis using k2(2,7,9-) tq(5)
    by (intro exI [of _ cs] exI [of _ ?e] exI [of _ k2]) simp
qed

lemma ready_loop_keyboard:
  assumes poll: "polls_keyboard P K F pollf" and "keyboard_host F t kb e" and "sound t k"
  shows "\<exists>cs e' k'. ready_loop P pollf e k = Some (Ret (e', k')) \<and>
    keyboard_host F t (snd (decode_all K kb cs)) e' \<and> sound t k' \<and> task_contents (task_queue k') = [] \<and>
    flight k = cs @ flight k' \<and> interrupts_enabled k' = interrupts_enabled k \<and>
    (interrupts_enabled k \<longrightarrow> length (arrivals k') \<le> length (arrivals k) - 1) \<and>
    shown (key_texts K kb cs) k k' \<and> length (arrivals k) \<le> length (arrivals k') + (1 + 5 * work k + 4 * length cs)"
  using assms(2-)
proof (induction "work k" arbitrary: kb e k rule: less_induct)
  case less
  have "ready t k" "load k \<le> 100" using less.prems(2) by (auto simp: sound_def)
  from interrupt_law [OF this] obtain k1 where k1: "interrupt_point P k = Ret k1" "quiet t k k1"
    "interrupts_enabled k \<longrightarrow> arrivals k1 = tl (arrivals k)" by blast
  note q = quiet_sound [OF less.prems(2) k1(2)]
  have q': "work k1 \<le> work k" "interrupts_enabled k1 = interrupts_enabled k"
    using k1(2) by (auto simp: quiet_def calm_def)
  note uses = interrupt_uses [OF k1(1)]
  show ?case
  proof (cases "task_contents (task_queue k1) = []")
    case True
    then have "ready_loop P pollf e k = Some (Ret (e, k1))"
      by (intro ready_loop_empty [OF k1(1)] tasks.queue_pop_empty)
    then show ?thesis using True less.prems(1) q q'(2) k1(3) uses
      by (intro exI [of _ "[]"] exI [of _ e] exI [of _ k1]) simp
  next
    case False
    from keyboard_turn [OF poll less.prems(1) q(1) False k1(1)] obtain cs e2 k2 where
      t: "ready_loop P pollf e k = ready_loop P pollf e2 k2"
      "keyboard_host F t (snd (decode_all K kb cs)) e2" "sound t k2" "work k2 < work k1"
      "flight k1 = cs @ flight k2" "interrupts_enabled k2 = interrupts_enabled k1"
      "length (arrivals k2) \<le> length (arrivals k1)"
      "shown (key_texts K kb cs) k1 k2" "length (arrivals k1) \<le> length (arrivals k2) + 4 * (length cs + 1)" by blast
    have "work k2 < work k" using t(4) q'(1) by simp
    from less.hyps [OF this t(2,3)] obtain ds e' k' where
      IH: "ready_loop P pollf e2 k2 = Some (Ret (e', k'))"
      "keyboard_host F t (snd (decode_all K (snd (decode_all K kb cs)) ds)) e'" "sound t k'"
      "task_contents (task_queue k') = []" "flight k2 = ds @ flight k'" "interrupts_enabled k' = interrupts_enabled k2"
      "interrupts_enabled k2 \<longrightarrow> length (arrivals k') \<le> length (arrivals k2) - 1"
      "shown (key_texts K (snd (decode_all K kb cs)) ds) k2 k'"
      "length (arrivals k2) \<le> length (arrivals k') + (1 + 5 * work k2 + 4 * length ds)"
      by blast
    have "length (arrivals k) \<le> length (arrivals k') + (1 + 5 * work k + 4 * length (cs @ ds))"
      using uses t(9) IH(9) t(4) q'(1) by simp
    with IH show ?thesis
      using t(1,5-7) q(2) q'(2) k1(3) decode_all_append [of K kb cs ds]
        shown_amid_trans [OF shown_amid_quiet(1) [OF q(3) t(8)] IH(8)]
      by (intro exI [of _ "cs @ ds"] exI [of _ e'] exI [of _ k']) (auto simp: key_texts_append)
  qed
qed

text \<open>Changing the interrupt flag changes nothing else that is observed here.\<close>

lemma flag_simps [simp]:
  "ready t (k\<lparr>interrupts_enabled := b\<rparr>) = ready t k" "arm t (k\<lparr>interrupts_enabled := b\<rparr>) = arm t k"
  "load (k\<lparr>interrupts_enabled := b\<rparr>) = load k" "flight (k\<lparr>interrupts_enabled := b\<rparr>) = flight k"
  "codes (k\<lparr>interrupts_enabled := b\<rparr>) = codes k" "work (k\<lparr>interrupts_enabled := b\<rparr>) = work k"
  by (simp_all add: stream_ready_def armed_def wake_load_def in_flight_def scancodes_def work_ahead_def)

lemma interrupt_disabled: "\<not> interrupts_enabled k \<Longrightarrow> interrupt_point P k = Ret k"
  by (simp add: interrupt_point_def)

text \<open>
  A halt ends with the first burst that is not empty, whose interrupts are served, or
  never.
\<close>

lemma hlt_law:
  assumes "ready t k" and "load k \<le> 100"
  shows "concat (arrivals k) = [] \<and> enable_and_hlt P k = Ret (Asleep, k\<lparr>interrupts_enabled := True, arrivals := []\<rparr>) \<or>
    (\<exists>zs burst rest k'. concat zs = [] \<and> arrivals k = zs @ burst # rest \<and> burst \<noteq> [] \<and>
      enable_and_hlt P k = Ret (Woken, k') \<and> served t burst (k\<lparr>interrupts_enabled := True, arrivals := rest\<rparr>) k')"
proof -
  obtain zs where zs: "arrivals k = zs @ dropWhile (\<lambda>burst. burst = []) (arrivals k)" "concat zs = []"
    using first_burst by blast
  show ?thesis
  proof (cases "dropWhile (\<lambda>burst. burst = []) (arrivals k)")
    case Nil
    with zs have "concat (arrivals k) = []" by simp
    with Nil show ?thesis by (simp add: enable_and_hlt_def)
  next
    case (Cons burst rest)
    let ?k = "k\<lparr>interrupts_enabled := True, arrivals := burst # rest\<rparr>"
    have "ready t ?k" "load ?k \<le> 100" using assms by (simp_all add: stream_ready_def wake_load_def)
    from interrupt_exact [OF this] obtain k' where
      "interrupt_point P ?k = Ret k'" "served t burst (k\<lparr>interrupts_enabled := True, arrivals := rest\<rparr>) k'" by auto
    then show ?thesis using zs Cons first_burst_nonempty [OF Cons] by (auto simp: enable_and_hlt_def)
  qed
qed

text \<open>
  \<open>sleep_if_idle\<close> serves the interrupts that arrive before it disables them, and then
  halts if the task queue is empty.
\<close>

lemma sleep_law:
  assumes "interrupt_point P k = Ret k1"
  shows "sleep_if_idle P k = (if task_contents (task_queue k1) = [] then enable_and_hlt P (k1\<lparr>interrupts_enabled := False\<rparr>)
    else Ret (Busy, k1\<lparr>interrupts_enabled := True\<rparr>))"
  using assms by (simp add: sleep_if_idle_def interrupt_disabled Let_def tasks.queue_empty_law)

lemma sleep_idle_law:
  assumes "ready t k" and "load k \<le> 100" and "arm t k"
  shows "\<exists>r k'. sleep_if_idle P k = Ret (r, k') \<and> interrupts_enabled k' \<and> arm t k' \<and>
    (case r of
       Busy \<Rightarrow> task_contents (task_queue k') \<noteq> []
     | Woken \<Rightarrow> \<exists>burst. burst \<noteq> [] \<and> suffix (burst # arrivals k') (arrivals k) \<and> codes k' = take 100 (pressed burst)
     | Asleep \<Rightarrow> arrivals k' = [] \<and> task_contents (task_queue k') = [] \<and> codes k' = [] \<and>
         slot (keyboard_waker k') = Some (TaskWaker t))"
proof -
  from interrupt_law [OF assms(1,2)] obtain k1 where k1: "interrupt_point P k = Ret k1" "quiet t k k1" by blast
  then have r: "ready t k1" "load k1 \<le> 100" "arm t k1" using assms(2,3) by (auto simp: quiet_def calm_def)
  note sl = sleep_law [OF k1(1)]
  show ?thesis
  proof (cases "task_contents (task_queue k1) = []")
    case False
    with sl r(3) show ?thesis by simp
  next
    case True
    then have idle: "codes k1 = []" "slot (keyboard_waker k1) = Some (TaskWaker t)" using r(3) by (simp_all add: armed_def)
    let ?k = "k1\<lparr>interrupts_enabled := False\<rparr>"
    from hlt_law [of t ?k] r(1,2) consider
      "sleep_if_idle P k = Ret (Asleep, k1\<lparr>interrupts_enabled := True, arrivals := []\<rparr>)"
      | zs burst rest k' where "arrivals k1 = zs @ burst # rest" "burst \<noteq> []" "sleep_if_idle P k = Ret (Woken, k')"
        "served t burst (k1\<lparr>interrupts_enabled := True, arrivals := rest\<rparr>) k'"
      unfolding sl using True by auto
    then show ?thesis
    proof cases
      case 1
      with True idle show ?thesis by (simp add: armed_def scancodes_def)
    next
      case 2
      have "suffix (arrivals k1) (arrivals k)" using interrupt_arrivals [OF k1(1)] by (auto simp: suffix_tl)
      then have "suffix (burst # arrivals k') (arrivals k)"
        using 2(1,4) by (auto simp: served_def suffix_def)
      moreover have "codes k' = take 100 (pressed burst)" "interrupts_enabled k'" "arm t k'"
        using 2(4) idle True by (auto simp: served_def calm_def scancodes_def armed_def)
      ultimately show ?thesis using 2(2,3) by (intro exI [of _ Woken] exI [of _ k']) auto
    qed
  qed
qed

end

subsection \<open>Properties\<close>

text \<open>
  C14. The processor is halted only when there is nothing to do. When \<open>sleep_if_idle\<close> is
  called while the keyboard task sleeps correctly and the task queue has room for the
  wake-up, it ends in one of three ways, always with interrupts on and the task queued or
  armed. It did not halt, and the task queue is not empty. It halted and was woken by
  interrupts: the scancodes that are now in the queue all came with these (so
  none was waiting when it halted), and if there are any, the task is queued. It sleeps for
  ever: no interrupt is left, no task is queued, no scancode is waiting and the task's waker
  is registered.
\<close>

theorem sleep_only_when_idle:
  assumes "kernel_prims P scon scap tcon tcap slot" and "stream_ready P scap tcap slot t k"
    and "wake_load tcon slot k \<le> 100" and "armed P scon tcon slot t k"
  shows "\<exists>r k'. sleep_if_idle P k = Ret (r, k') \<and> interrupts_enabled k' \<and> armed P scon tcon slot t k' \<and>
    (case r of
       Busy \<Rightarrow> tcon (task_queue k') \<noteq> []
     | Woken \<Rightarrow> \<exists>burst. burst \<noteq> [] \<and> suffix (burst # arrivals k') (arrivals k) \<and>
         scancodes P scon k' = take 100 (pressed burst)
     | Asleep \<Rightarrow> arrivals k' = [] \<and> tcon (task_queue k') = [] \<and> scancodes P scon k' = [] \<and>
         slot (keyboard_waker k') = Some (TaskWaker t))"
  using assms by (rule kernel_prims.sleep_idle_law)

theorem sleep_only_when_idle_witness:
  "\<exists>k'. sleep_if_idle list_prims
      ((example_kernel [[TimerTick], [], [KeyPressed 30], [TimerTick]])\<lparr>keyboard_waker := Some (TaskWaker 7)\<rparr>) = Ret (Woken, k') \<and>
    arrivals k' = [[TimerTick]] \<and> scancodes list_prims snd k' = [30] \<and> 7 \<in> set (snd (task_queue k'))"
proof -
  let ?k = "(example_kernel [[TimerTick], [], [KeyPressed 30], [TimerTick]])\<lparr>keyboard_waker := Some (TaskWaker 7)\<rparr>"
  have "stream_ready list_prims fst fst id 7 ?k" "wake_load snd id ?k \<le> 100" "armed list_prims snd snd id 7 ?k"
    using example_ready [of 7] by (simp_all add: stream_ready_def wake_load_def armed_def scancodes_def
      example_kernel_def list_prims_def option_cell_def)
  from sleep_only_when_idle [OF list_prims.kernel_prims_axioms this] obtain r k' where
    r: "sleep_if_idle list_prims ?k = Ret (r, k')" "armed list_prims snd snd id 7 k'" by blast
  have "r = Woken \<and> arrivals k' = [[TimerTick]] \<and> scancodes list_prims snd k' = [30]"
    using r(1) by (auto simp: sleep_if_idle_def enable_and_hlt_def interrupt_point_def example_kernel_def list_prims_def
      kernel_print_def add_scancode_def keyboard_wake_def wake_task_def list_queue_def option_cell_def option_waker_def
      scancodes_def Let_def)
  with r show ?thesis by (auto simp: armed_def)
qed

text \<open>
  C26. The executor's bookkeeping is sound, for arbitrary tasks: when
  \<open>run_ready_tasks\<close> returns, every task is filed under its own id, every cached waker
  belongs to a task that still exists and wakes that task, and the task queue is empty.
\<close>

theorem run_ready_tasks_wf:
  assumes "array_queue (task_ops P) tcon tcap" and "executor_wf e"
    and "run_ready_tasks P pollf e k = Ret (e', k')"
  shows "executor_wf e' \<and> tcon (task_queue k') = []"
proof -
  have "ready_loop P pollf e k = Some (Ret (e', k'))"
    using assms(3) by (cases "ready_loop P pollf e k") (auto simp: run_ready_tasks_def)
  from ready_loop_post [OF this assms(2)]
  have wf: "executor_wf e'" and pop: "queue_pop (task_ops P) (task_queue k') = None" by simp_all
  have "tcon (task_queue k') = []"
  proof (cases "tcon (task_queue k')")
    case (Cons x xs)
    from array_queue.queue_pop_ok [OF assms(1) this] pop show ?thesis by auto
  qed
  with wf show ?thesis by simp
qed

lemma run_ready_example:
  "run_ready_tasks list_prims (\<lambda>f w k. Ret (Ready (), f, k))
     \<lparr>tasks = [3 \<mapsto> \<lparr>task_id = 3, future = ()\<rparr>], waker_cache = Map.empty\<rparr>
     ((example_kernel [])\<lparr>task_queue := (100, [3])\<rparr>) =
   Ret (\<lparr>tasks = Map.empty, waker_cache = Map.empty\<rparr>, example_kernel [])"
  unfolding run_ready_tasks_def
  by (subst ready_loop.simps, simp add: interrupt_point_def example_kernel_def list_prims_def list_queue_def
      task_poll_def Let_def, subst ready_loop.simps, simp add: interrupt_point_def list_queue_def)

theorem run_ready_tasks_wf_witness:
  "\<exists>e' k'. run_ready_tasks list_prims (\<lambda>f w k. Ret (Ready (), f, k))
      \<lparr>tasks = [3 \<mapsto> \<lparr>task_id = 3, future = ()\<rparr>], waker_cache = Map.empty\<rparr>
      ((example_kernel [])\<lparr>task_queue := (100, [3])\<rparr>) = Ret (e', k') \<and>
    executor_wf e' \<and> snd (task_queue k') = []"
proof -
  have "array_queue (task_ops list_prims) snd fst" "executor_wf \<lparr>tasks = [3 \<mapsto> \<lparr>task_id = 3, future = ()\<rparr>], waker_cache = Map.empty\<rparr>"
    by (simp_all add: list_prims_def list_queue.array_queue_axioms executor_wf_def)
  from run_ready_tasks_wf [OF this run_ready_example] run_ready_example show ?thesis by blast
qed

text \<open>
  \<open>spawn\<close> of a task with a new id succeeds while the queue has room and schedules
  the task behind those already queued; a duplicate id and a full queue panic.
\<close>

theorem spawn_behaviour:
  assumes "array_queue (task_ops P) tcon tcap"
  shows "if tasks e (task_id t) \<noteq> None
      then spawn P t e k = Panic (ExplicitPanic ''task with same ID already in tasks'')
    else if length (tcon (task_queue k)) < tcap (task_queue k)
      then \<exists>k'. spawn P t e k = Ret (e\<lparr>tasks := (tasks e)(task_id t \<mapsto> t)\<rparr>, k') \<and>
        tcon (task_queue k') = tcon (task_queue k) @ [task_id t] \<and> k' = k\<lparr>task_queue := task_queue k'\<rparr>
    else spawn P t e k = Panic (ExpectFailed ''queue full'')"
  using array_queue.queue_push_ok [OF assms, of "task_queue k" "task_id t"]
    array_queue.queue_push_full [OF assms, of "task_queue k" "task_id t"]
  by (auto simp: spawn_def Let_def)

theorem spawn_behaviour_witness:
  "\<exists>k'. spawn list_prims \<lparr>task_id = 3, future = ()\<rparr> \<lparr>tasks = Map.empty, waker_cache = Map.empty\<rparr> (example_kernel []) =
     Ret (\<lparr>tasks = [3 \<mapsto> \<lparr>task_id = 3, future = ()\<rparr>], waker_cache = Map.empty\<rparr>, k') \<and>
     snd (task_queue k') = [3]"
proof -
  have "array_queue (task_ops list_prims) snd fst" by (simp add: list_prims_def list_queue.array_queue_axioms)
  from spawn_behaviour [OF this, of "\<lparr>tasks = Map.empty, waker_cache = Map.empty\<rparr>" "\<lparr>task_id = 3, future = ()\<rparr>" "example_kernel []"]
  show ?thesis by (auto simp: example_kernel_def)
qed

end
