(* ===== verification/Frame_Memory.thy ===== *)
theory Frame_Memory
  imports Prelude
begin

text \<open>
  Physical frames, \<open>src/memory.rs\<close>: the frame allocator over the bootloader's memory
  map and the access to the active level 4 page table. The types of the crates
  \<open>bootloader\<close> and \<open>x86_64\<close> are type variables and the functions of them that the
  code calls are records of operations; locales state what the code relies on. The
  trait \<open>FrameAllocator\<close> is the locale \<open>frame_allocator\<close>.
\<close>

subsection \<open>Operations of the crates\<close>

text \<open>\<open>MemoryMap::iter\<close>, and what is read from a region.\<close>

record ('m, 'r) memory_map_ops =
  map_iter :: "'m \<Rightarrow> 'r list"
  region_usable :: "'r \<Rightarrow> bool"
  region_start :: "'r \<Rightarrow> u64"
  region_end :: "'r \<Rightarrow> u64"

text \<open>\<open>PhysAddr::new\<close>, \<open>PhysFrame::containing_address\<close>, \<open>PhysFrame::start_address\<close>.\<close>

record ('a, 'f) frame_ops =
  phys_addr_new :: "u64 \<Rightarrow> 'a outcome"
  frame_containing :: "'a \<Rightarrow> 'f"
  frame_start :: "'f \<Rightarrow> u64"

subsection \<open>The active level 4 table\<close>

text \<open>
  \<open>virt_add\<close> is the addition of \<open>VirtAddr\<close>, \<open>as_mut_ptr\<close> the pointer of the virtual
  address, \<open>cr3\<close> the frame that \<open>Cr3::read\<close> returns.
\<close>

definition active_level_4_table ::
  "('a, 'f) frame_ops \<Rightarrow> ('v \<Rightarrow> u64 \<Rightarrow> 'v outcome) \<Rightarrow> ('v \<Rightarrow> 'ptr) \<Rightarrow> 'f \<Rightarrow> 'v \<Rightarrow> 'ptr outcome" where
  "active_level_4_table fops virt_add as_mut_ptr cr3 physical_memory_offset =
     (let level_4_table_frame = cr3;
          phys = frame_start fops level_4_table_frame
      in and_then (virt_add physical_memory_offset phys) (\<lambda>virt.
         Ret (as_mut_ptr virt)))"

text \<open>\<open>memory::init\<close>; \<open>offset_page_table_new\<close> is \<open>OffsetPageTable::new\<close>.\<close>

definition memory_init ::
  "('a, 'f) frame_ops \<Rightarrow> ('v \<Rightarrow> u64 \<Rightarrow> 'v outcome) \<Rightarrow> ('v \<Rightarrow> 'ptr) \<Rightarrow> 'f \<Rightarrow> ('ptr \<Rightarrow> 'v \<Rightarrow> 'pt) \<Rightarrow>
   'v \<Rightarrow> 'pt outcome" where
  "memory_init fops virt_add as_mut_ptr cr3 offset_page_table_new physical_memory_offset =
     and_then (active_level_4_table fops virt_add as_mut_ptr cr3 physical_memory_offset) (\<lambda>level_4_table.
     Ret (offset_page_table_new level_4_table physical_memory_offset))"

subsection \<open>Frame allocators\<close>

definition empty_allocate_frame :: "unit \<Rightarrow> ('f option \<times> unit) outcome" where
  "empty_allocate_frame s = Ret (None, s)"

record 'm boot_info_frame_allocator =
  memory_map :: 'm
  next_frame :: usize

definition boot_info_init :: "'m \<Rightarrow> 'm boot_info_frame_allocator" where
  "boot_info_init m = \<lparr>memory_map = m, next_frame = 0\<rparr>"

text \<open>\<open>(start..end).step_by(n)\<close>.\<close>

definition range_step_by :: "u64 \<Rightarrow> u64 \<Rightarrow> nat \<Rightarrow> u64 list" where
  "range_step_by a b n = map (\<lambda>k. a + of_nat (k * n)) [0..<(unat b - unat a + n - 1) div n]"

text \<open>
  The addresses of the usable frames, and the iterator over the frames: its \<open>nth\<close>
  builds every frame up to the one it returns.
\<close>

definition frame_addresses :: "('m, 'r) memory_map_ops \<Rightarrow> 'm \<Rightarrow> u64 list" where
  "frame_addresses mops m =
     (let regions = map_iter mops m;
          usable_regions = filter (region_usable mops) regions;
          addr_ranges = map (\<lambda>r. (region_start mops r, region_end mops r)) usable_regions
      in concat (map (\<lambda>(a, b). range_step_by a b 4096) addr_ranges))"

fun frames_nth :: "('a, 'f) frame_ops \<Rightarrow> u64 list \<Rightarrow> nat \<Rightarrow> 'f option outcome" where
  "frames_nth fops [] n = Ret None"
| "frames_nth fops (addr # addrs) n =
     and_then (phys_addr_new fops addr) (\<lambda>p.
     case n of 0 \<Rightarrow> Ret (Some (frame_containing fops p)) | Suc n' \<Rightarrow> frames_nth fops addrs n')"

definition allocate_frame ::
  "('m, 'r) memory_map_ops \<Rightarrow> ('a, 'f) frame_ops \<Rightarrow> 'm boot_info_frame_allocator \<Rightarrow>
   ('f option \<times> 'm boot_info_frame_allocator) outcome" where
  "allocate_frame mops fops s =
     and_then (frames_nth fops (frame_addresses mops (memory_map s)) (unat (next_frame s))) (\<lambda>frame.
     and_then (add_usize (next_frame s) 1) (\<lambda>n.
     Ret (frame, s\<lparr>next_frame := n\<rparr>)))"

text \<open>\<open>k\<close> calls of a frame allocator.\<close>

fun take_frames :: "('s \<Rightarrow> ('f option \<times> 's) outcome) \<Rightarrow> nat \<Rightarrow> 's \<Rightarrow> ('f option list \<times> 's) outcome" where
  "take_frames alloc 0 s = Ret ([], s)"
| "take_frames alloc (Suc k) s =
     and_then (alloc s) (\<lambda>(f, s).
     and_then (take_frames alloc k s) (\<lambda>(fs, s). Ret (f # fs, s)))"

subsection \<open>The contracts\<close>

text \<open>
  A frame allocator hands out frames it has not handed out before. \<open>fresh n s used\<close>
  says that \<open>n\<close> more calls are possible and that the frames in \<open>used\<close> are taken.
\<close>

locale frame_allocator =
  fixes alloc :: "'s \<Rightarrow> ('f option \<times> 's) outcome"
    and fresh :: "nat \<Rightarrow> 's \<Rightarrow> 'f set \<Rightarrow> bool"
  assumes alloc_fresh: "fresh (Suc n) s used \<Longrightarrow>
    \<exists>r s'. alloc s = Ret (r, s') \<and>
      (case r of None \<Rightarrow> fresh n s' used | Some f \<Rightarrow> f \<notin> used \<and> fresh n s' (insert f used))"

text \<open>
  \<open>PhysAddr::new\<close> accepts addresses below \<open>2^52\<close>, and the frame that contains an
  address on a 4 KiB boundary starts there.
\<close>

locale phys_frames =
  fixes fops :: "('a, 'f) frame_ops"
  assumes frame_at: "unat a < 2 ^ 52 \<Longrightarrow> 4096 dvd unat a \<Longrightarrow>
    \<exists>p. phys_addr_new fops a = Ret p \<and> frame_start fops (frame_containing fops p) = a"

text \<open>The memory map: usable regions are page-aligned, inside physical memory and disjoint.\<close>

definition memory_map_ok :: "('m, 'r) memory_map_ops \<Rightarrow> 'm \<Rightarrow> bool" where
  "memory_map_ok mops m \<longleftrightarrow>
     (\<forall>r\<in>set (filter (region_usable mops) (map_iter mops m)).
        4096 dvd unat (region_start mops r) \<and> 4096 dvd unat (region_end mops r) \<and>
        unat (region_end mops r) \<le> 2 ^ 52) \<and>
     sorted_wrt (\<lambda>r r'. region_end mops r \<le> region_start mops r' \<or> region_end mops r' \<le> region_start mops r)
       (filter (region_usable mops) (map_iter mops m))"

subsection \<open>The addresses of usable frames\<close>

lemma range_step_by_eq:
  assumes "4096 dvd unat a" and "4096 dvd unat b" and "unat b \<le> 2 ^ 52"
  shows "map unat (range_step_by a b 4096) = map (\<lambda>k. unat a + k * 4096) [0..<(unat b - unat a) div 4096]"
proof -
  obtain p q where pq: "unat a = 4096 * p" "unat b = 4096 * q" using assms by (auto simp: dvd_def)
  have "(unat b - unat a + 4096 - 1) div 4096 = (unat b - unat a) div 4096"
  proof -
    have "unat b - unat a = 4096 * (q - p)" using pq by (simp add: diff_mult_distrib2)
    then show ?thesis by simp
  qed
  moreover have "unat (a + of_nat (k * 4096)) = unat a + k * 4096" if "k < (unat b - unat a) div 4096" for k
  proof -
    have "unat a + k * 4096 < 2 ^ 64" using that assms(3) by (simp add: less_mult_imp_div_less div_less_iff_less_mult)
    moreover from this have "unat (of_nat (k * 4096) :: u64) = k * 4096"
      by (simp add: unat_of_nat del: of_nat_mult)
    ultimately show ?thesis by (simp add: unat_add_exact)
  qed
  ultimately show ?thesis by (simp add: range_step_by_def)
qed

lemma range_step_by_set:
  assumes "4096 dvd unat a" and "4096 dvd unat b" and "unat b \<le> 2 ^ 52"
  shows "x \<in> set (range_step_by a b 4096) \<longleftrightarrow> 4096 dvd unat x \<and> a \<le> x \<and> x < b"
    and "distinct (range_step_by a b 4096)"
proof -
  note eq = range_step_by_eq [OF assms]
  have "x \<in> set (range_step_by a b 4096) \<longleftrightarrow> unat x \<in> set (map unat (range_step_by a b 4096))"
    by (simp add: image_iff word_unat_eq_iff [symmetric])
  also have "\<dots> \<longleftrightarrow> (\<exists>k. unat x = unat a + k * 4096 \<and> unat x < unat b)"
  proof -
    obtain p q where pq: "unat a = 4096 * p" "unat b = 4096 * q" using assms by (auto simp: dvd_def)
    have "(4096 * q - 4096 * p) div 4096 = q - p" by (simp add: diff_mult_distrib2 [symmetric])
    then show ?thesis unfolding eq pq by (auto simp: image_iff)
  qed
  also have "\<dots> \<longleftrightarrow> 4096 dvd unat x \<and> a \<le> x \<and> x < b"
  proof -
    obtain p where p: "unat a = 4096 * p" using assms by (auto simp: dvd_def)
    have "(\<exists>k. unat x = unat a + k * 4096) \<longleftrightarrow> 4096 dvd unat x \<and> unat a \<le> unat x"
    proof
      assume "4096 dvd unat x \<and> unat a \<le> unat x"
      then obtain j where "unat x = 4096 * j" "p \<le> j" using p by (auto simp: dvd_def)
      then show "\<exists>k. unat x = unat a + k * 4096" using p by (intro exI [of _ "j - p"]) simp
    qed (use p in auto)
    then show ?thesis by (auto simp: word_le_nat_alt word_less_nat_alt)
  qed
  finally show "x \<in> set (range_step_by a b 4096) \<longleftrightarrow> 4096 dvd unat x \<and> a \<le> x \<and> x < b" .
  have "distinct (map unat (range_step_by a b 4096))"
    unfolding eq by (simp add: distinct_map inj_on_def)
  then show "distinct (range_step_by a b 4096)" by (simp add: distinct_map)
qed

lemma region_ranges:
  assumes "\<forall>r\<in>set rs. 4096 dvd unat (st r) \<and> 4096 dvd unat (en r) \<and> unat (en r) \<le> 2 ^ 52"
    and "sorted_wrt (\<lambda>r r'. en r \<le> st r' \<or> en r' \<le> st r) rs"
  shows "distinct (concat (map (\<lambda>r. range_step_by (st r) (en r) 4096) rs)) \<and>
    set (concat (map (\<lambda>r. range_step_by (st r) (en r) 4096) rs)) =
      {a. 4096 dvd unat a \<and> (\<exists>r\<in>set rs. st r \<le> a \<and> a < en r)}"
  using assms
proof (induction rs)
  case Nil
  then show ?case by simp
next
  case (Cons r rs)
  have r: "4096 dvd unat (st r)" "4096 dvd unat (en r)" "unat (en r) \<le> 2 ^ 52" using Cons.prems by auto
  have IH: "distinct (concat (map (\<lambda>r. range_step_by (st r) (en r) 4096) rs))"
    "set (concat (map (\<lambda>r. range_step_by (st r) (en r) 4096) rs)) =
      {a. 4096 dvd unat a \<and> (\<exists>r\<in>set rs. st r \<le> a \<and> a < en r)}"
    using Cons by auto
  have sep: "\<forall>r'\<in>set rs. en r \<le> st r' \<or> en r' \<le> st r" using Cons.prems(2) by simp
  have "\<not> (st r' \<le> a \<and> a < en r')" if "r' \<in> set rs" "st r \<le> a" "a < en r" for r' a
    using sep that by (meson le_less_trans less_le_trans not_less order_less_imp_le less_irrefl)
  then have "set (range_step_by (st r) (en r) 4096) \<inter>
      {a. 4096 dvd unat a \<and> (\<exists>r\<in>set rs. st r \<le> a \<and> a < en r)} = {}"
    unfolding range_step_by_set(1) [OF r] set_eq_iff Int_iff mem_Collect_eq by blast
  then have "distinct (concat (map (\<lambda>r. range_step_by (st r) (en r) 4096) (r # rs)))"
    using IH range_step_by_set(2) [OF r] by simp
  moreover have "set (concat (map (\<lambda>r. range_step_by (st r) (en r) 4096) (r # rs))) =
      {a. 4096 dvd unat a \<and> (\<exists>r\<in>set (r # rs). st r \<le> a \<and> a < en r)}"
    unfolding list.map concat.simps set_append IH(2)
    using range_step_by_set(1) [OF r] by (simp add: set_eq_iff) blast
  ultimately show ?case by blast
qed

lemma frame_addresses_facts:
  assumes "memory_map_ok mops m"
  shows "distinct (frame_addresses mops m)"
    and "a \<in> set (frame_addresses mops m) \<longleftrightarrow> 4096 dvd unat a \<and>
      (\<exists>r\<in>set (map_iter mops m). region_usable mops r \<and> region_start mops r \<le> a \<and> a < region_end mops r)"
    and "a \<in> set (frame_addresses mops m) \<Longrightarrow> unat a < 2 ^ 52"
proof -
  let ?u = "filter (region_usable mops) (map_iter mops m)"
  have eq: "frame_addresses mops m =
      concat (map (\<lambda>r. range_step_by (region_start mops r) (region_end mops r) 4096) ?u)"
    by (simp add: frame_addresses_def comp_def)
  have u: "\<forall>r\<in>set ?u. 4096 dvd unat (region_start mops r) \<and> 4096 dvd unat (region_end mops r) \<and>
      unat (region_end mops r) \<le> 2 ^ 52"
    "sorted_wrt (\<lambda>r r'. region_end mops r \<le> region_start mops r' \<or> region_end mops r' \<le> region_start mops r) ?u"
    using assms by (auto simp: memory_map_ok_def)
  note rr = region_ranges [OF u]
  show "distinct (frame_addresses mops m)" using rr by (simp add: eq)
  show mem: "a \<in> set (frame_addresses mops m) \<longleftrightarrow> 4096 dvd unat a \<and>
      (\<exists>r\<in>set (map_iter mops m). region_usable mops r \<and> region_start mops r \<le> a \<and> a < region_end mops r)" for a
    using rr unfolding eq by auto
  show "unat a < 2 ^ 52" if "a \<in> set (frame_addresses mops m)"
    using that u(1) unfolding mem by (auto simp: word_less_nat_alt intro: less_le_trans)
qed

subsection \<open>The boot-info allocator keeps the contract\<close>

definition boot_fresh ::
  "('m, 'r) memory_map_ops \<Rightarrow> ('a, 'f) frame_ops \<Rightarrow> nat \<Rightarrow> 'm boot_info_frame_allocator \<Rightarrow> 'f set \<Rightarrow> bool" where
  "boot_fresh mops fops n s used \<longleftrightarrow> memory_map_ok mops (memory_map s) \<and> unat (next_frame s) + n < 2 ^ 64 \<and>
     frame_start fops ` used \<subseteq> set (take (unat (next_frame s)) (frame_addresses mops (memory_map s)))"

context phys_frames
begin

lemma frames_nth_eq:
  assumes "\<forall>a\<in>set as. unat a < 2 ^ 52 \<and> 4096 dvd unat a"
  shows "\<exists>r. frames_nth fops as n = Ret r \<and>
    map_option (frame_start fops) r = (if n < length as then Some (as ! n) else None)"
  using assms
proof (induction as arbitrary: n)
  case Nil
  then show ?case by simp
next
  case (Cons a as)
  obtain p where "phys_addr_new fops a = Ret p" "frame_start fops (frame_containing fops p) = a"
    using frame_at [of a] Cons.prems by auto
  note p = this
  show ?case
  proof (cases n)
    case 0
    with p show ?thesis by simp
  next
    case (Suc k)
    from Cons obtain r where "frames_nth fops as k = Ret r"
      "map_option (frame_start fops) r = (if k < length as then Some (as ! k) else None)" by fastforce
    with p Suc show ?thesis by (intro exI [of _ r]) simp
  qed
qed

lemma allocate_frame_eq:
  assumes "memory_map_ok mops (memory_map s)" and "unat (next_frame s) + 1 < 2 ^ 64"
  shows "\<exists>r. allocate_frame mops fops s = Ret (r, s\<lparr>next_frame := next_frame s + 1\<rparr>) \<and>
    map_option (frame_start fops) r =
      (if unat (next_frame s) < length (frame_addresses mops (memory_map s))
       then Some (frame_addresses mops (memory_map s) ! unat (next_frame s)) else None)"
proof -
  have "\<forall>a\<in>set (frame_addresses mops (memory_map s)). unat a < 2 ^ 52 \<and> 4096 dvd unat a"
    using frame_addresses_facts [OF assms(1)] by blast
  from frames_nth_eq [OF this, of "unat (next_frame s)"] show ?thesis
    using assms(2) by (auto simp: allocate_frame_def)
qed

end

interpretation empty_frames: frame_allocator empty_allocate_frame "\<lambda>n s used. True"
  by unfold_locales (auto simp: empty_allocate_frame_def)

sublocale phys_frames \<subseteq> boot: frame_allocator "allocate_frame mops fops" "boot_fresh mops fops" for mops
proof
  fix n s used
  assume f: "boot_fresh mops fops (Suc n) s used"
  let ?A = "frame_addresses mops (memory_map s)" and ?k = "unat (next_frame s)"
  have ok: "memory_map_ok mops (memory_map s)" and k: "?k + Suc n < 2 ^ 64"
    and used: "frame_start fops ` used \<subseteq> set (take ?k ?A)" using f by (auto simp: boot_fresh_def)
  have suc: "unat (next_frame s + 1) = Suc ?k" using k by (subst unat_add_exact) simp_all
  have "?k + 1 < 2 ^ 64" using k by simp
  from allocate_frame_eq [OF ok this] obtain r where
    r: "allocate_frame mops fops s = Ret (r, s\<lparr>next_frame := next_frame s + 1\<rparr>)"
    "map_option (frame_start fops) r = (if ?k < length ?A then Some (?A ! ?k) else None)" by blast
  have "set (take ?k ?A) \<subseteq> set (take (Suc ?k) ?A)" by (rule set_take_subset_set_take) simp
  with used have sub: "frame_start fops ` used \<subseteq> set (take (Suc ?k) ?A)" by blast
  show "\<exists>r s'. allocate_frame mops fops s = Ret (r, s') \<and>
      (case r of None \<Rightarrow> boot_fresh mops fops n s' used
       | Some f \<Rightarrow> f \<notin> used \<and> boot_fresh mops fops n s' (insert f used))"
  proof (cases r)
    case None
    with r(1) ok k sub show ?thesis by (simp add: boot_fresh_def suc)
  next
    case (Some f)
    then have fs: "?k < length ?A" "frame_start fops f = ?A ! ?k" using r(2) by (auto split: if_splits)
    have "?A ! ?k \<notin> set (take ?k ?A)"
      using frame_addresses_facts(1) [OF ok] fs(1) by (simp add: distinct_conv_nth in_set_conv_nth)
    with fs used have "f \<notin> used" by force
    moreover have "?A ! ?k \<in> set (take (Suc ?k) ?A)" using fs(1) by (simp add: take_Suc_conv_app_nth)
    ultimately show ?thesis using r(1) Some ok k sub fs by (simp add: boot_fresh_def suc)
  qed
qed

context phys_frames
begin

lemma take_frames_eq:
  assumes "memory_map_ok mops (memory_map s)" and "unat (next_frame s) + k < 2 ^ 64"
  shows "\<exists>fs s'. take_frames (allocate_frame mops fops) k s = Ret (fs, s') \<and>
    map (map_option (frame_start fops)) fs =
      map (\<lambda>i. if i < length (frame_addresses mops (memory_map s))
                then Some (frame_addresses mops (memory_map s) ! i) else None)
        [unat (next_frame s)..<unat (next_frame s) + k]"
  using assms
proof (induction k arbitrary: s)
  case 0
  then show ?case by simp
next
  case (Suc k)
  let ?A = "frame_addresses mops (memory_map s)" and ?n = "unat (next_frame s)"
  have suc: "unat (next_frame s + 1) = Suc ?n" using Suc.prems(2) by (subst unat_add_exact) simp_all
  have "?n + 1 < 2 ^ 64" using Suc.prems(2) by simp
  from allocate_frame_eq [OF Suc.prems(1) this] obtain r where
    r: "allocate_frame mops fops s = Ret (r, s\<lparr>next_frame := next_frame s + 1\<rparr>)"
    "map_option (frame_start fops) r = (if ?n < length ?A then Some (?A ! ?n) else None)" by blast
  obtain fs s' where fs: "take_frames (allocate_frame mops fops) k (s\<lparr>next_frame := next_frame s + 1\<rparr>) = Ret (fs, s')"
    "map (map_option (frame_start fops)) fs =
      map (\<lambda>i. if i < length ?A then Some (?A ! i) else None) [Suc ?n..<Suc ?n + k]"
    using Suc.IH [of "s\<lparr>next_frame := next_frame s + 1\<rparr>"] Suc.prems suc by auto
  have "take_frames (allocate_frame mops fops) (Suc k) s = Ret (r # fs, s')" using r(1) fs(1) by simp
  moreover have "map (map_option (frame_start fops)) (r # fs) =
      map (\<lambda>i. if i < length ?A then Some (?A ! i) else None) [?n..<?n + Suc k]"
  proof -
    have "[?n..<?n + Suc k] = ?n # [Suc ?n..<Suc ?n + k]" by (subst upt_conv_Cons) simp_all
    then show ?thesis using r(2) fs(2) by (simp del: upt_Suc)
  qed
  ultimately show ?case by blast
qed

end

subsection \<open>Frames as their start addresses\<close>

text \<open>
  An instance of the contract: physical addresses are checked 64-bit words, a frame is
  its start address, found by clearing the offset.
\<close>

definition word_frames :: "(u64, u64) frame_ops" where
  "word_frames = \<lparr>
     phys_addr_new = (\<lambda>a. if unat a < 2 ^ 52 then Ret a else Panic (ExplicitPanic ''PhysAddr'')),
     frame_containing = (\<lambda>p. p - p mod 4096),
     frame_start = id\<rparr>"

interpretation word_frames: phys_frames word_frames
proof
  fix a :: u64
  assume a: "unat a < 2 ^ 52" "4096 dvd unat a"
  then have "a mod 4096 = 0" by (simp add: word_unat_eq_iff unat_mod dvd_imp_mod_0)
  with a show "\<exists>p. phys_addr_new word_frames a = Ret p \<and>
      frame_start word_frames (frame_containing word_frames p) = a"
    by (simp add: word_frames_def)
qed

text \<open>A memory map as a list of regions: usable or not, start, end.\<close>

definition region_list_ops :: "((bool \<times> u64 \<times> u64) list, bool \<times> u64 \<times> u64) memory_map_ops" where
  "region_list_ops = \<lparr>map_iter = id, region_usable = fst,
     region_start = (\<lambda>r. fst (snd r)), region_end = (\<lambda>r. snd (snd r))\<rparr>"

abbreviation example_map :: "(bool \<times> u64 \<times> u64) list" where
  "example_map \<equiv> [(True, 0x1000, 0x3000), (False, 0x3000, 0x100000), (True, 0x100000, 0x101000)]"

lemma example_map_ok: "memory_map_ok region_list_ops example_map"
  by (simp add: memory_map_ok_def region_list_ops_def)

lemma example_map_addresses: "frame_addresses region_list_ops example_map = [0x1000, 0x2000, 0x100000]"
  by (simp add: frame_addresses_def region_list_ops_def range_step_by_def upt_rec)

subsection \<open>Properties\<close>

text \<open>
  The frame allocator walks exactly the usable memory: the addresses it steps
  through are, without repetition, the 4 KiB-aligned addresses of the usable regions.
\<close>

theorem frame_addresses_exact:
  assumes "memory_map_ok mops m"
  shows "distinct (frame_addresses mops m) \<and>
    set (frame_addresses mops m) = {a. 4096 dvd unat a \<and>
      (\<exists>r\<in>set (map_iter mops m). region_usable mops r \<and> region_start mops r \<le> a \<and> a < region_end mops r)}"
  using frame_addresses_facts(1,2) [OF assms] by blast

theorem frame_addresses_exact_witness:
  "distinct [0x1000, 0x2000, 0x100000 :: u64] \<and> 0x2000 \<in> {a. 4096 dvd unat a \<and>
      (\<exists>r\<in>set example_map. region_usable region_list_ops r \<and> region_start region_list_ops r \<le> a \<and> a < region_end region_list_ops r)}"
  using frame_addresses_exact [OF example_map_ok] unfolding example_map_addresses
  by (simp add: region_list_ops_def)

text \<open>
  What the memory map offers, stated without the iterators of the code: for each usable
  region, in the order of the map, the multiples of 4 KiB in it, upwards.
\<close>

definition usable_starts :: "('m, 'r) memory_map_ops \<Rightarrow> 'm \<Rightarrow> nat list" where
  "usable_starts mops m = concat (map (\<lambda>r. filter (\<lambda>a. 4096 dvd a) [unat (region_start mops r)..<unat (region_end mops r)])
     (filter (region_usable mops) (map_iter mops m)))"

lemma multiples_upt:
  fixes a n :: nat
  assumes "0 < n" and "n dvd a"
  shows "filter (\<lambda>x. n dvd x) [a..<a + m * n] = map (\<lambda>k. a + k * n) [0..<m]"
proof (induction m)
  case (Suc m)
  let ?c = "a + m * n"
  have "\<not> n dvd x" if "?c < x" "x < ?c + n" for x
  proof
    assume "n dvd x"
    moreover have "n dvd ?c" using assms(2) by simp
    ultimately have "n dvd x - ?c" by simp
    with that show False by (auto dest: dvd_imp_le)
  qed
  then have "filter (\<lambda>x. n dvd x) [Suc ?c..<?c + n] = []" by (auto simp: filter_empty_conv)
  moreover have "[?c..<?c + n] = ?c # [Suc ?c..<?c + n]" using assms(1) by (simp add: upt_conv_Cons)
  ultimately have "filter (\<lambda>x. n dvd x) [?c..<?c + n] = [?c]" using assms(2) by simp
  with Suc show ?case using upt_add_eq_append [of a ?c n] by (simp add: ac_simps)
qed simp

lemma range_step_by_multiples:
  assumes "4096 dvd unat a" and "4096 dvd unat b" and "unat b \<le> 2 ^ 52"
  shows "map unat (range_step_by a b 4096) = filter (\<lambda>x. 4096 dvd x) [unat a..<unat b]"
proof (cases "unat a \<le> unat b")
  case True
  then have "4096 dvd unat b - unat a" using assms by simp
  then have "unat a + (unat b - unat a) div 4096 * 4096 = unat b" using True by simp
  with multiples_upt [of 4096 "unat a" "(unat b - unat a) div 4096"] assms show ?thesis by (simp add: range_step_by_eq)
qed (simp add: range_step_by_eq [OF assms])

lemma frame_addresses_starts:
  assumes "memory_map_ok mops m"
  shows "map unat (frame_addresses mops m) = usable_starts mops m"
proof -
  let ?rs = "filter (region_usable mops) (map_iter mops m)"
  have "map unat (range_step_by (region_start mops r) (region_end mops r) 4096) =
      filter (\<lambda>a. 4096 dvd a) [unat (region_start mops r)..<unat (region_end mops r)]" if "r \<in> set ?rs" for r
    using assms that by (intro range_step_by_multiples) (auto simp: memory_map_ok_def)
  then show ?thesis
    by (auto simp: frame_addresses_def usable_starts_def map_concat Let_def comp_def intro!: arg_cong [where f = concat])
qed

text \<open>
  C23. Calling \<open>allocate_frame\<close> repeatedly on a fresh allocator, on a memory map whose
  usable regions are page-aligned, disjoint and inside physical memory, never panics (up to
  the \<open>2^64\<close>-th call), and returns every usable frame exactly once and then \<open>None\<close>: the
  frames start, in this order, at the multiples of 4 KiB in the usable regions,
  region by region as the memory map has them and upwards in each, without repetition.
\<close>

theorem allocate_frame_sequence:
  assumes "phys_frames fops" and "memory_map_ok mops m" and "k < 2 ^ 64"
  shows "\<exists>fs s. take_frames (allocate_frame mops fops) k (boot_info_init m) = Ret (fs, s) \<and>
    map (map_option (\<lambda>f. unat (frame_start fops f))) fs =
      map Some (take k (usable_starts mops m)) @ replicate (k - length (usable_starts mops m)) None \<and>
    distinct (usable_starts mops m) \<and>
    set (usable_starts mops m) = {a. 4096 dvd a \<and> (\<exists>r\<in>set (map_iter mops m). region_usable mops r \<and>
      unat (region_start mops r) \<le> a \<and> a < unat (region_end mops r))}"
proof -
  let ?A = "frame_addresses mops m"
  have eq: "usable_starts mops m = map unat ?A" using frame_addresses_starts [OF assms(2)] by simp
  have "map (\<lambda>i. if i < length ?A then Some (?A ! i) else None) [0..<k] =
      map Some (take k ?A) @ replicate (k - length ?A) None"
    by (rule nth_equalityI) (auto simp: nth_append min_def)
  moreover have b: "memory_map (boot_info_init m) = m" "unat (next_frame (boot_info_init m)) = 0"
    by (simp_all add: boot_info_init_def)
  ultimately obtain fs s where fs: "take_frames (allocate_frame mops fops) k (boot_info_init m) = Ret (fs, s)"
    "map (map_option (frame_start fops)) fs = map Some (take k ?A) @ replicate (k - length ?A) None"
    using phys_frames.take_frames_eq [OF assms(1), of mops "boot_info_init m" k, unfolded b add_0] assms(2,3) by auto
  have "map (map_option (\<lambda>f. unat (frame_start fops f))) fs = map (map_option unat) (map (map_option (frame_start fops)) fs)"
    by (simp add: option.map_comp comp_def)
  also have "\<dots> = map Some (take k (map unat ?A)) @ replicate (k - length (map unat ?A)) None"
    unfolding fs(2) by (simp add: take_map)
  finally have frames: "map (map_option (\<lambda>f. unat (frame_start fops f))) fs =
    map Some (take k (map unat ?A)) @ replicate (k - length (map unat ?A)) None" .
  have "distinct (map unat ?A)" using frame_addresses_facts(1) [OF assms(2)] by (simp add: distinct_map inj_on_def word_unat_eq_iff)
  with fs(1) frames show ?thesis unfolding eq [symmetric] by (auto simp: usable_starts_def)
qed

theorem allocate_frame_sequence_witness:
  "\<exists>fs s. take_frames (allocate_frame region_list_ops word_frames) 5 (boot_info_init example_map) = Ret (fs, s) \<and>
    map (map_option (\<lambda>f. unat (frame_start word_frames f))) fs = [Some 0x1000, Some 0x2000, Some 0x100000, None, None]"
proof -
  have starts: "usable_starts region_list_ops example_map = [0x1000, 0x2000, 0x100000]"
    using frame_addresses_starts [OF example_map_ok] by (simp add: example_map_addresses)
  have nones: "replicate (5 - length [0x1000, 0x2000, 0x100000 :: nat]) None = [None, None :: nat option]"
    by (simp add: numeral_2_eq_2)
  have "(5 :: nat) < 2 ^ 64" by simp
  from allocate_frame_sequence [OF word_frames.phys_frames_axioms example_map_ok this] show ?thesis
    unfolding starts nones by (elim exE conjE) (intro exI conjI, assumption, simp)
qed

end
