(* ===== verification/Interrupts.thy ===== *)
theory Interrupts
  imports Executor Frame_Memory
begin

text \<open>
  The interrupt machinery: \<open>src/interrupts.rs\<close>, \<open>src/gdt.rs\<close> and \<open>init\<close> of
  \<open>src/lib.rs\<close>. The descriptor tables and the interrupt controllers are of the crates
  \<open>x86_64\<close> and \<open>pic8259\<close>; the operations the kernel calls on them are records, and
  locales state their documented behaviour. The processor is a record of the tables that
  are loaded and the interrupt flag.
\<close>

subsection \<open>Interrupt numbers and handlers\<close>

definition PIC_1_OFFSET :: u8 where
  "PIC_1_OFFSET = 32"

definition PIC_2_OFFSET :: u8 where
  "PIC_2_OFFSET = PIC_1_OFFSET + 8"

datatype interrupt_index = Timer | Keyboard

fun as_u8 :: "interrupt_index \<Rightarrow> u8" where
  "as_u8 Timer = PIC_1_OFFSET"
| "as_u8 Keyboard = PIC_1_OFFSET + 1"

definition as_usize :: "interrupt_index \<Rightarrow> usize" where
  "as_usize i = ucast (as_u8 i)"

datatype handler =
    breakpoint_handler
  | page_fault_handler
  | double_fault_handler
  | timer_interrupt_handler
  | keyboard_interrupt_handler

definition DOUBLE_FAULT_IST_INDEX :: u16 where
  "DOUBLE_FAULT_IST_INDEX = 0"

subsection \<open>The descriptor tables\<close>

text \<open>
  \<open>InterruptDescriptorTable\<close>: the entries the kernel sets, each with the handler and,
  for the double fault, the index of its stack.
\<close>

record ('h, 'idt) idt_ops =
  idt_new :: 'idt
  idt_set_breakpoint :: "'h \<Rightarrow> 'idt \<Rightarrow> 'idt"
  idt_set_page_fault :: "'h \<Rightarrow> 'idt \<Rightarrow> 'idt"
  idt_set_double_fault :: "'h \<Rightarrow> u16 \<Rightarrow> 'idt \<Rightarrow> 'idt"
  idt_set_index :: "usize \<Rightarrow> 'h \<Rightarrow> 'idt \<Rightarrow> 'idt outcome"

definition IDT :: "(handler, 'idt) idt_ops \<Rightarrow> 'idt outcome" where
  "IDT ops =
     (let idt = idt_new ops;
          idt = idt_set_breakpoint ops breakpoint_handler idt;
          idt = idt_set_page_fault ops page_fault_handler idt;
          idt = idt_set_double_fault ops double_fault_handler DOUBLE_FAULT_IST_INDEX idt
      in and_then (idt_set_index ops (as_usize Timer) timer_interrupt_handler idt) (\<lambda>idt.
         idt_set_index ops (as_usize Keyboard) keyboard_interrupt_handler idt))"

text \<open>
  \<open>TaskStateSegment\<close> with its interrupt stack table, and \<open>GlobalDescriptorTable\<close>.
  \<open>stack\<close> is the address of the static array \<open>STACK\<close>.
\<close>

record ('tss, 'v) tss_ops =
  tss_new :: 'tss
  tss_set_stack :: "usize \<Rightarrow> 'v \<Rightarrow> 'tss \<Rightarrow> 'tss outcome"

definition STACK_SIZE :: usize where
  "STACK_SIZE = 4096 * 5"

definition TSS :: "('tss, 'v) tss_ops \<Rightarrow> ('v \<Rightarrow> u64 \<Rightarrow> 'v outcome) \<Rightarrow> 'v \<Rightarrow> 'tss outcome" where
  "TSS ops virt_add stack =
     (let tss = tss_new ops; stack_start = stack
      in and_then (virt_add stack_start STACK_SIZE) (\<lambda>stack_end.
         tss_set_stack ops (ucast DOUBLE_FAULT_IST_INDEX) stack_end tss))"

record ('gdt, 'd, 'sel, 'tss) gdt_ops =
  gdt_new :: 'gdt
  add_entry :: "'gdt \<Rightarrow> 'd \<Rightarrow> 'sel \<times> 'gdt"
  kernel_code_segment :: 'd
  tss_segment :: "'tss \<Rightarrow> 'd"

record 'sel selectors =
  code_selector :: 'sel
  tss_selector :: 'sel

definition GDT :: "('gdt, 'd, 'sel, 'tss) gdt_ops \<Rightarrow> 'tss \<Rightarrow> 'gdt \<times> 'sel selectors" where
  "GDT ops tss =
     (let gdt = gdt_new ops;
          (code, gdt) = add_entry ops gdt (kernel_code_segment ops);
          (tssel, gdt) = add_entry ops gdt (tss_segment ops tss)
      in (gdt, \<lparr>code_selector = code, tss_selector = tssel\<rparr>))"

subsection \<open>Initialisation\<close>

record ('gdt, 'sel, 'idt, 'pics) cpu =
  loaded_gdt :: "'gdt option"
  code_segment :: "'sel option"
  task_register :: "'sel option"
  loaded_idt :: "'idt option"
  pics :: 'pics
  interrupt_flag :: bool

text \<open>
  The lazily initialised tables are computed at their first use. \<open>gdt_init\<close> is
  \<open>gdt::init\<close>; \<open>pics_initialize\<close> is \<open>ChainedPics::initialize\<close>.
\<close>

definition gdt_init ::
  "('gdt, 'd, 'sel, 'tss) gdt_ops \<Rightarrow> ('tss, 'v) tss_ops \<Rightarrow> ('v \<Rightarrow> u64 \<Rightarrow> 'v outcome) \<Rightarrow> 'v \<Rightarrow>
   ('gdt, 'sel, 'idt, 'pics) cpu \<Rightarrow> ('gdt, 'sel, 'idt, 'pics) cpu outcome" where
  "gdt_init gops tops virt_add stack c =
     and_then (TSS tops virt_add stack) (\<lambda>tss.
     let (gdt, sels) = GDT gops tss;
         c = c\<lparr>loaded_gdt := Some gdt\<rparr>;
         c = c\<lparr>code_segment := Some (code_selector sels)\<rparr>
     in Ret (c\<lparr>task_register := Some (tss_selector sels)\<rparr>))"

definition init_idt :: "(handler, 'idt) idt_ops \<Rightarrow> ('gdt, 'sel, 'idt, 'pics) cpu \<Rightarrow> ('gdt, 'sel, 'idt, 'pics) cpu outcome" where
  "init_idt iops c = and_then (IDT iops) (\<lambda>idt. Ret (c\<lparr>loaded_idt := Some idt\<rparr>))"

text \<open>
  The statements of \<open>init\<close> in their order, and the whole of it where no interrupt
  strikes in between (with interrupts, it is \<open>lib_init\<close> of \<open>Kernel_Machine\<close>).
\<close>

definition init_steps ::
  "('gdt, 'd, 'sel, 'tss) gdt_ops \<Rightarrow> ('tss, 'v) tss_ops \<Rightarrow> ('v \<Rightarrow> u64 \<Rightarrow> 'v outcome) \<Rightarrow> 'v \<Rightarrow>
   (handler, 'idt) idt_ops \<Rightarrow> ('pics \<Rightarrow> 'pics) \<Rightarrow> (('gdt, 'sel, 'idt, 'pics) cpu \<Rightarrow> ('gdt, 'sel, 'idt, 'pics) cpu outcome) list" where
  "init_steps gops tops virt_add stack iops pics_initialize =
     [gdt_init gops tops virt_add stack,
      init_idt iops,
      \<lambda>c. Ret (c\<lparr>pics := pics_initialize (pics c)\<rparr>),
      \<lambda>c. Ret (c\<lparr>interrupt_flag := True\<rparr>)]"

definition kernel_init ::
  "('gdt, 'd, 'sel, 'tss) gdt_ops \<Rightarrow> ('tss, 'v) tss_ops \<Rightarrow> ('v \<Rightarrow> u64 \<Rightarrow> 'v outcome) \<Rightarrow> 'v \<Rightarrow>
   (handler, 'idt) idt_ops \<Rightarrow> ('pics \<Rightarrow> 'pics) \<Rightarrow> ('gdt, 'sel, 'idt, 'pics) cpu \<Rightarrow> ('gdt, 'sel, 'idt, 'pics) cpu outcome" where
  "kernel_init gops tops virt_add stack iops pics_initialize =
     for_each (init_steps gops tops virt_add stack iops pics_initialize) (\<lambda>step. step)"

subsection \<open>Handlers\<close>

text \<open>
  The handlers that return, on the kernel's state and the interrupt controllers:
  \<open>notify\<close> is \<open>ChainedPics::notify_end_of_interrupt\<close>, \<open>frame\<close> the formatted stack
  frame, \<open>scancode\<close> the byte that port 0x60 delivers.
\<close>

definition breakpoint_run ::
  "('q, 'cell, 'aw, 'tq, 'c) prims \<Rightarrow> u8 list \<Rightarrow> ('cell, 'aw, 'tq, 'c) kernel \<Rightarrow> ('cell, 'aw, 'tq, 'c) kernel outcome" where
  "breakpoint_run P frame k =
     and_then (println (vga_ops P) (vga_writer k) [str_bytes ''EXCEPTION: BREAKPOINT'' @ [0x0A], frame]) (\<lambda>w.
     Ret (k\<lparr>vga_writer := w\<rparr>))"

definition timer_run ::
  "('q, 'cell, 'aw, 'tq, 'c) prims \<Rightarrow> (u8 \<Rightarrow> 'pics \<Rightarrow> 'pics) \<Rightarrow> ('cell, 'aw, 'tq, 'c) kernel \<Rightarrow> 'pics \<Rightarrow>
   (('cell, 'aw, 'tq, 'c) kernel \<times> 'pics) outcome" where
  "timer_run P notify k pc =
     and_then (kernel_print P (str_bytes ''.'') k) (\<lambda>k.
     Ret (k, notify (as_u8 Timer) pc))"

definition keyboard_run ::
  "('q, 'cell, 'aw, 'tq, 'c) prims \<Rightarrow> (u8 \<Rightarrow> 'pics \<Rightarrow> 'pics) \<Rightarrow> u8 \<Rightarrow> ('cell, 'aw, 'tq, 'c) kernel \<Rightarrow> 'pics \<Rightarrow>
   (('cell, 'aw, 'tq, 'c) kernel \<times> 'pics) outcome" where
  "keyboard_run P notify scancode k pc =
     and_then (add_scancode P scancode k) (\<lambda>k.
     Ret (k, notify (as_u8 Keyboard) pc))"

text \<open>
  At the points where tasks are interrupted, \<open>serve_irq\<close> is what these two handlers do
  with the shared state.
\<close>

lemma handlers_serve:
  "timer_run P notify k pc = and_then (serve_irq P TimerTick k) (\<lambda>k. Ret (k, notify (as_u8 Timer) pc))"
  "keyboard_run P notify c k pc = and_then (serve_irq P (KeyPressed c) k) (\<lambda>k. Ret (k, notify (as_u8 Keyboard) pc))"
  by (simp_all add: timer_run_def keyboard_run_def)

text \<open>
  The handlers that do not return: the page fault handler reports and halts for ever,
  the double fault handler panics.
\<close>

definition page_fault_report ::
  "('q, 'cell, 'aw, 'tq, 'c) prims \<Rightarrow> u8 list \<Rightarrow> u8 list \<Rightarrow> u8 list \<Rightarrow> ('cell, 'aw, 'tq, 'c) kernel \<Rightarrow>
   ('cell, 'aw, 'tq, 'c) kernel outcome" where
  "page_fault_report P cr2 error_code frame k =
     and_then (kernel_println P (str_bytes ''EXCEPTION: PAGE FAULT'') k) (\<lambda>k.
     and_then (kernel_println P (str_bytes ''Accessed Address: '' @ cr2) k) (\<lambda>k.
     and_then (kernel_println P (str_bytes ''Error Code: '' @ error_code) k) (\<lambda>k.
     kernel_println P frame k)))"

definition page_fault_run ::
  "('q, 'cell, 'aw, 'tq, 'c) prims \<Rightarrow> u8 list \<Rightarrow> u8 list \<Rightarrow> u8 list \<Rightarrow> ('cell, 'aw, 'tq, 'c) kernel \<Rightarrow> unit outcome" where
  "page_fault_run P cr2 error_code frame k =
     and_then (page_fault_report P cr2 error_code frame k) (\<lambda>k. Diverge)"

definition double_fault_run :: "unit outcome" where
  "double_fault_run = Panic (ExplicitPanic ''EXCEPTION: DOUBLE FAULT'')"

subsection \<open>Documented behaviour of the tables\<close>

text \<open>
  \<open>gate idt v\<close> is the handler for vector \<open>v\<close> with its stack index. The fields
  \<open>breakpoint\<close>, \<open>double_fault\<close> and \<open>page_fault\<close> are the vectors 3, 8 and 14;
  indexing is for the vectors from 32 on.
\<close>

locale idt_table =
  fixes ops :: "('h, 'idt) idt_ops" and gate :: "'idt \<Rightarrow> nat \<Rightarrow> ('h \<times> u16 option) option"
  assumes idt_new_law: "gate (idt_new ops) = Map.empty"
    and idt_breakpoint_law: "gate (idt_set_breakpoint ops h idt) = (gate idt)(3 \<mapsto> (h, None))"
    and idt_page_fault_law: "gate (idt_set_page_fault ops h idt) = (gate idt)(14 \<mapsto> (h, None))"
    and idt_double_fault_law: "gate (idt_set_double_fault ops h i idt) = (gate idt)(8 \<mapsto> (h, Some i))"
    and idt_index_law: "32 \<le> unat v \<Longrightarrow> unat v < 256 \<Longrightarrow>
      \<exists>idt'. idt_set_index ops v h idt = Ret idt' \<and> gate idt' = (gate idt)(unat v \<mapsto> (h, None))"

text \<open>The gates of the kernel.\<close>

abbreviation kernel_gates :: "nat \<Rightarrow> (handler \<times> u16 option) option" where
  "kernel_gates \<equiv> [3 \<mapsto> (breakpoint_handler, None), 14 \<mapsto> (page_fault_handler, None),
     8 \<mapsto> (double_fault_handler, Some DOUBLE_FAULT_IST_INDEX),
     32 \<mapsto> (timer_interrupt_handler, None), 33 \<mapsto> (keyboard_interrupt_handler, None)]"

lemma IDT_gates:
  assumes "idt_table ops gate"
  shows "\<exists>idt. IDT ops = Ret idt \<and> gate idt = kernel_gates"
proof -
  have v: "unat (as_usize Timer) = 32" "unat (as_usize Keyboard) = 33"
    by (simp_all add: as_usize_def PIC_1_OFFSET_def unsigned_ucast_eq)
  let ?i = "idt_set_double_fault ops double_fault_handler DOUBLE_FAULT_IST_INDEX
    (idt_set_page_fault ops page_fault_handler (idt_set_breakpoint ops breakpoint_handler (idt_new ops)))"
  obtain i1 where i1: "idt_set_index ops (as_usize Timer) timer_interrupt_handler ?i = Ret i1"
    "gate i1 = (gate ?i)(32 \<mapsto> (timer_interrupt_handler, None))"
    using idt_table.idt_index_law [OF assms, of "as_usize Timer" timer_interrupt_handler ?i] by (auto simp: v)
  obtain i2 where i2: "idt_set_index ops (as_usize Keyboard) keyboard_interrupt_handler i1 = Ret i2"
    "gate i2 = (gate i1)(33 \<mapsto> (keyboard_interrupt_handler, None))"
    using idt_table.idt_index_law [OF assms, of "as_usize Keyboard" keyboard_interrupt_handler i1] by (auto simp: v)
  show ?thesis
    using i1 i2 idt_table.idt_new_law [OF assms] idt_table.idt_breakpoint_law [OF assms]
      idt_table.idt_page_fault_law [OF assms] idt_table.idt_double_fault_law [OF assms]
    by (simp add: IDT_def Let_def)
qed

locale tss_table =
  fixes ops :: "('tss, 'v) tss_ops" and stack_table :: "'tss \<Rightarrow> nat \<Rightarrow> 'v"
  assumes tss_stack_law: "unat i < 7 \<Longrightarrow>
    \<exists>tss'. tss_set_stack ops i v tss = Ret tss' \<and> stack_table tss' = (stack_table tss)(unat i := v)"

locale gdt_table =
  fixes ops :: "('gdt, 'd, 'sel, 'tss) gdt_ops" and descriptor :: "'gdt \<Rightarrow> 'sel \<Rightarrow> 'd option"
    and entries :: "'gdt \<Rightarrow> nat"
  assumes gdt_new_law: "entries (gdt_new ops) = 0"
    and add_entry_law: "entries gdt < 2 \<Longrightarrow> add_entry ops gdt d = (sel, gdt') \<Longrightarrow>
      descriptor gdt' sel = Some d \<and> entries gdt' = Suc (entries gdt) \<and>
      (\<forall>s d'. descriptor gdt s = Some d' \<longrightarrow> descriptor gdt' s = Some d')"

text \<open>What \<open>gdt::init\<close> has set up, and \<open>init\<close> of the library.\<close>

lemma gdt_init_law:
  assumes tt: "tss_table tops stack_table" and gt: "gdt_table gops descriptor entries"
    and add: "virt_add stack STACK_SIZE = Ret stack_end"
  shows "\<exists>gdt tss cs ts. gdt_init gops tops virt_add stack c =
      Ret (c\<lparr>loaded_gdt := Some gdt, code_segment := Some cs, task_register := Some ts\<rparr>) \<and>
    descriptor gdt cs = Some (kernel_code_segment gops) \<and> descriptor gdt ts = Some (tss_segment gops tss) \<and>
    stack_table tss (unat DOUBLE_FAULT_IST_INDEX) = stack_end"
proof -
  obtain tss where tss: "TSS tops virt_add stack = Ret tss" "stack_table tss (unat DOUBLE_FAULT_IST_INDEX) = stack_end"
    using tss_table.tss_stack_law [OF tt, of "ucast DOUBLE_FAULT_IST_INDEX" stack_end "tss_new tops"] add
    by (auto simp: TSS_def DOUBLE_FAULT_IST_INDEX_def)
  obtain cs g1 where g1: "add_entry gops (gdt_new gops) (kernel_code_segment gops) = (cs, g1)" by fastforce
  obtain ts g2 where g2: "add_entry gops g1 (tss_segment gops tss) = (ts, g2)" by fastforce
  have e: "descriptor g1 cs = Some (kernel_code_segment gops)" "entries g1 = 1"
    using gdt_table.add_entry_law [OF gt _ g1] gdt_table.gdt_new_law [OF gt] by auto
  then have "descriptor g2 cs = Some (kernel_code_segment gops)" "descriptor g2 ts = Some (tss_segment gops tss)"
    using gdt_table.add_entry_law [OF gt _ g2] by auto
  moreover have "GDT gops tss = (g2, \<lparr>code_selector = cs, tss_selector = ts\<rparr>)" using g1 g2 by (simp add: GDT_def)
  ultimately show ?thesis using tss by (auto simp: gdt_init_def)
qed

lemma kernel_init_law:
  assumes it: "idt_table iops gate" and tt: "tss_table tops stack_table" and gt: "gdt_table gops descriptor entries"
    and add: "virt_add stack STACK_SIZE = Ret stack_end"
  shows "\<exists>c' idt gdt tss cs ts. kernel_init gops tops virt_add stack iops pics_initialize c = Ret c' \<and>
    interrupt_flag c' \<and> pics c' = pics_initialize (pics c) \<and>
    loaded_idt c' = Some idt \<and> gate idt = kernel_gates \<and>
    loaded_gdt c' = Some gdt \<and> code_segment c' = Some cs \<and> task_register c' = Some ts \<and>
    descriptor gdt cs = Some (kernel_code_segment gops) \<and> descriptor gdt ts = Some (tss_segment gops tss) \<and>
    stack_table tss (unat DOUBLE_FAULT_IST_INDEX) = stack_end"
  using IDT_gates [OF it] gdt_init_law [OF tt gt, of virt_add stack stack_end c] add
  by (fastforce simp: kernel_init_def init_steps_def init_idt_def)

subsection \<open>Instances\<close>

definition map_idt :: "('h, nat \<Rightarrow> ('h \<times> u16 option) option) idt_ops" where
  "map_idt = \<lparr>idt_new = Map.empty,
     idt_set_breakpoint = (\<lambda>h g. g(3 \<mapsto> (h, None))),
     idt_set_page_fault = (\<lambda>h g. g(14 \<mapsto> (h, None))),
     idt_set_double_fault = (\<lambda>h i g. g(8 \<mapsto> (h, Some i))),
     idt_set_index = (\<lambda>v h g. if 32 \<le> unat v \<and> unat v < 256 then Ret (g(unat v \<mapsto> (h, None)))
       else Panic (ExplicitPanic ''invalid index''))\<rparr>"

interpretation map_idt: idt_table map_idt id
  by unfold_locales (simp_all add: map_idt_def)

definition fun_tss :: "(nat \<Rightarrow> u64, u64) tss_ops" where
  "fun_tss = \<lparr>tss_new = (\<lambda>_. 0),
     tss_set_stack = (\<lambda>i v t. if unat i < 7 then Ret (t(unat i := v)) else Panic IndexOutOfBounds)\<rparr>"

interpretation fun_tss: tss_table fun_tss id
  by unfold_locales (simp add: fun_tss_def)

text \<open>A table of descriptors in a list; the selector is the position.\<close>

definition list_gdt :: "('tss option list, 'tss option, nat, 'tss) gdt_ops" where
  "list_gdt = \<lparr>gdt_new = [], add_entry = (\<lambda>g d. (length g, g @ [d])),
     kernel_code_segment = None, tss_segment = Some\<rparr>"

interpretation list_gdt: gdt_table list_gdt "\<lambda>g i. if i < length g then Some (g ! i) else None" length
  by unfold_locales (auto simp: list_gdt_def nth_append split: if_splits)

subsection \<open>Properties\<close>

text \<open>
  The interrupt descriptor table sends every vector to its handler and no other
  vector anywhere: breakpoint, page fault and, on its own stack, double fault; the timer
  and the keyboard at 32 and 33, where the interrupt controllers are told to deliver
  them, clear of the processor's exceptions.
\<close>

theorem idt_dispatch:
  assumes "idt_table ops gate"
  shows "\<exists>idt. IDT ops = Ret idt \<and> gate idt =
    [3 \<mapsto> (breakpoint_handler, None), 14 \<mapsto> (page_fault_handler, None),
     8 \<mapsto> (double_fault_handler, Some DOUBLE_FAULT_IST_INDEX),
     unat (as_u8 Timer) \<mapsto> (timer_interrupt_handler, None),
     unat (as_u8 Keyboard) \<mapsto> (keyboard_interrupt_handler, None)]"
  using IDT_gates [OF assms] by (simp add: PIC_1_OFFSET_def)

theorem idt_dispatch_witness:
  "\<exists>idt. IDT map_idt = Ret idt \<and> idt 8 = Some (double_fault_handler, Some 0) \<and> idt 13 = None"
  using idt_dispatch [OF map_idt.idt_table_axioms] by (auto simp: DOUBLE_FAULT_IST_INDEX_def PIC_1_OFFSET_def)

abbreviation word_add :: "u64 \<Rightarrow> u64 \<Rightarrow> u64 outcome" where
  "word_add \<equiv> \<lambda>v n. Ret (v + n)"

text \<open>
  C37. Once the stream of scancodes exists, and while the task queue has room for the
  wake-up that the handler may cause and the keyboard task is queued or asleep with its
  waker registered, the hardware interrupt handlers return, and each acknowledges its own
  interrupt: the timer handler prints a dot and
  leaves scancodes, wakers and tasks alone, the keyboard handler queues its scancode if
  there is room and keeps the wake-up of the task. (With a full task queue and a registered
  waker it panics.)
\<close>

theorem interrupt_handlers_acknowledge:
  assumes "kernel_prims P scon scap tcon tcap slot" and "stream_ready P scap tcap slot t k"
    and "wake_load tcon slot k \<le> 100" and "armed P scon tcon slot t k"
  shows "\<exists>w k'. timer_run P notify k pc = Ret (k\<lparr>vga_writer := w\<rparr>, notify 32 pc) \<and>
    print_args (vga_ops P) (vga_writer k) [[46]] = Ret w \<and>
    keyboard_run P notify c k pc = Ret (k', notify 33 pc) \<and> armed P scon tcon slot t k' \<and>
    scancodes P scon k' = (if length (scancodes P scon k) < 100 then scancodes P scon k @ [c] else scancodes P scon k)"
proof -
  have "writer_wf (vga_writer k)" using assms(2) by (simp add: stream_ready_def)
  then obtain w where w: "print_args (vga_ops P) (vga_writer k) [[46]] = Ret w"
    using kernel_prims.print_ready [OF assms(1)] by blast
  have dot: "str_bytes ''.'' = [46]" by (simp add: str_bytes_def of_char_def)
  from kernel_prims.add_scancode_law [OF assms(1-3), of c] obtain k' where
    k': "add_scancode P c k = Ret k'" "kernel_prims.calm P scon scap tcon tcap slot t k k'"
    "if length (scancodes P scon k) < 100 then scancodes P scon k' = scancodes P scon k @ [c] \<and> vga_writer k' = vga_writer k
     else scancodes P scon k' = scancodes P scon k \<and> print_args (vga_ops P) (vga_writer k) full_text = Ret (vga_writer k')" by blast
  have "armed P scon tcon slot t k'" using k'(2) assms(4) by (simp add: kernel_prims.calm_def [OF assms(1)])
  then show ?thesis
    using w k'(1,3) by (auto simp: timer_run_def keyboard_run_def kernel_print_def dot PIC_1_OFFSET_def)
qed

theorem interrupt_handlers_acknowledge_witness:
  "\<exists>w k'. timer_run list_prims (\<lambda>i pc. pc @ [i]) ((example_kernel [])\<lparr>keyboard_waker := Some (TaskWaker 7)\<rparr>) [] =
      Ret ((example_kernel [])\<lparr>keyboard_waker := Some (TaskWaker 7), vga_writer := w\<rparr>, [32]) \<and>
    keyboard_run list_prims (\<lambda>i pc. pc @ [i]) 30 ((example_kernel [])\<lparr>keyboard_waker := Some (TaskWaker 7)\<rparr>) [] = Ret (k', [33]) \<and>
    scancodes list_prims snd k' = [30]"
proof -
  let ?k = "(example_kernel [])\<lparr>keyboard_waker := Some (TaskWaker 7)\<rparr>"
  have "stream_ready list_prims fst fst id 7 ?k" using example_ready [of 7 "[]"] by (simp add: stream_ready_def)
  moreover have c: "scancodes list_prims snd ?k = []" "wake_load snd id ?k \<le> 100"
    by (simp_all add: scancodes_def wake_load_def example_kernel_def list_prims_def option_cell_def)
  moreover have "armed list_prims snd snd id 7 ?k" using c(1) by (simp add: armed_def)
  ultimately show ?thesis
    using interrupt_handlers_acknowledge [OF list_prims.kernel_prims_axioms, of 7 ?k "\<lambda>i pc. pc @ [i]" "[]" 30] by fastforce
qed

end
