(* ===== verification/Cpu_Exceptions.thy ===== *)
theory Cpu_Exceptions
  imports Interrupts Machine_Run
begin

text \<open>
  How the processor delivers an exception through the tables that \<open>gdt.rs\<close> and
  \<open>interrupts.rs\<close> load, and what this means for a stack overflow: the reason why the
  double fault handler has a stack of its own. The processor is the one of the
  architecture manual: an exception whose handler cannot be entered raises another one,
  certain pairs are a double fault, and a double fault that cannot be delivered resets
  the machine.
\<close>

datatype exception_class = Benign | Contributory | PageFault

definition exception_class :: "nat \<Rightarrow> exception_class" where
  "exception_class v = (if v = 14 then PageFault else if v \<in> {0, 10, 11, 12, 13} then Contributory else Benign)"

definition double_fault_pair :: "exception_class \<Rightarrow> exception_class \<Rightarrow> bool" where
  "double_fault_pair first second \<longleftrightarrow>
     first = Contributory \<and> second = Contributory \<or> first = PageFault \<and> second \<noteq> Benign"

text \<open>
  Entering the handler of a vector: a missing gate raises \<open>#NP\<close> (11), a stack on which
  the frame cannot be pushed a page fault (14). A gate with a stack index switches to
  that entry of the interrupt stack table.
\<close>

definition enter_handler ::
  "(nat \<Rightarrow> ('h \<times> u16 option) option) \<Rightarrow> (nat \<Rightarrow> 'v) \<Rightarrow> ('v \<Rightarrow> bool) \<Rightarrow> 'v \<Rightarrow> nat \<Rightarrow> nat + 'h \<times> 'v" where
  "enter_handler gates stacks usable sp v =
     (case gates v of
        None \<Rightarrow> Inl 11
      | Some (h, ist) \<Rightarrow>
          let sp' = (case ist of None \<Rightarrow> sp | Some i \<Rightarrow> stacks (unat i))
          in if usable sp' then Inr (h, sp') else Inl 14)"

lemma enter_handler_fault: "enter_handler gates stacks usable sp v = Inl f \<Longrightarrow> f = 11 \<or> f = 14"
  by (auto simp: enter_handler_def Let_def split: option.splits if_splits)

text \<open>Each exception that delivering another one raises has a lower rank.\<close>

definition exception_rank :: "nat \<Rightarrow> nat" where
  "exception_rank v = (if v = 8 then 0 else case exception_class v of PageFault \<Rightarrow> 1 | Contributory \<Rightarrow> 2 | Benign \<Rightarrow> 3)"

text \<open>The handler that runs in the end and its stack, or \<open>None\<close> for a triple fault.\<close>

function raise_exception ::
  "(nat \<Rightarrow> ('h \<times> u16 option) option) \<Rightarrow> (nat \<Rightarrow> 'v) \<Rightarrow> ('v \<Rightarrow> bool) \<Rightarrow> 'v \<Rightarrow> nat \<Rightarrow> ('h \<times> 'v) option" where
  "raise_exception gates stacks usable sp v =
     (case enter_handler gates stacks usable sp v of
        Inr r \<Rightarrow> Some r
      | Inl f \<Rightarrow>
          if v = 8 then None
          else if double_fault_pair (exception_class v) (exception_class f)
            then raise_exception gates stacks usable sp 8
          else raise_exception gates stacks usable sp f)"
  by pat_completeness auto

termination
proof (relation "measure (\<lambda>(gates, stacks, usable, sp, v). exception_rank v)", goal_cases)
  case (3 gates stacks usable sp v f)
  have "f = 11 \<or> f = 14" by (rule enter_handler_fault [OF 3(1)])
  with 3(2,3) show ?case by (auto simp: exception_rank_def exception_class_def double_fault_pair_def split: if_splits)
qed (auto simp: exception_rank_def exception_class_def split: exception_class.split)

declare raise_exception.simps [simp del]

text \<open>
  The interrupt stack table that the task register selects; before \<open>gdt::init\<close> there
  is none, and the addresses are null.
\<close>

definition interrupt_stacks ::
  "('gdt \<Rightarrow> 'sel \<Rightarrow> nat \<Rightarrow> u64) \<Rightarrow> ('gdt, 'sel, 'idt, 'pics) cpu \<Rightarrow> nat \<Rightarrow> u64" where
  "interrupt_stacks ist c =
     (case (loaded_gdt c, task_register c) of (Some gdt, Some ts) \<Rightarrow> ist gdt ts | _ \<Rightarrow> \<lambda>_. 0)"

subsection \<open>The stack overflow test\<close>

text \<open>
  \<open>stack_overflow\<close> of \<open>tests/stack_overflow.rs\<close> calls itself before it does anything
  else: each call pushes a return address. The result is the stack pointer at which the
  push faults.
\<close>

partial_function (option) stack_overflow :: "(u64 \<Rightarrow> bool) \<Rightarrow> u64 \<Rightarrow> u64 option" where
  "stack_overflow usable sp = (if usable sp then stack_overflow usable (sp - 8) else Some sp)"

lemma stack_overflow_faults:
  assumes "\<not> usable (sp - 8 * of_nat n)"
  shows "\<exists>sp'. stack_overflow usable sp = Some sp' \<and> \<not> usable sp'"
  using assms
proof (induction n arbitrary: sp)
  case 0
  then show ?case by (subst stack_overflow.simps) simp
next
  case (Suc n)
  then have "\<exists>sp'. stack_overflow usable (sp - 8) = Some sp' \<and> \<not> usable sp'"
    by (intro Suc.IH) (simp add: algebra_simps)
  then show ?case by (subst stack_overflow.simps) auto
qed

subsection \<open>Stack overflows in the kernel\<close>

text \<open>Without a stack of its own, the double fault handler could not be entered either.\<close>

lemma overflow_without_ist:
  assumes "\<not> usable sp" and "\<And>v h i. gates v = Some (h, i) \<Longrightarrow> i = None"
  shows "raise_exception gates stacks usable sp v = None"
proof -
  have "\<exists>f. enter_handler gates stacks usable sp v = Inl f" for v
    using assms by (fastforce simp: enter_handler_def Let_def split: option.splits)
  then show ?thesis
  proof (induction gates stacks usable sp v rule: raise_exception.induct)
    case (1 gates stacks usable sp v)
    obtain f where "enter_handler gates stacks usable sp v = Inl f" using 1(3) by blast
    with 1 show ?case by (subst raise_exception.simps) auto
  qed
qed

lemma page_fault_to_double_fault:
  assumes "gates 8 = Some (h, Some i)" and "usable (stacks (unat i))" and "\<not> usable sp"
    and "\<And>h j. gates 14 = Some (h, j) \<Longrightarrow> j = None"
  shows "raise_exception gates stacks usable sp 14 = Some (h, stacks (unat i))"
proof -
  have "enter_handler gates stacks usable sp 8 = Inr (h, stacks (unat i))"
    using assms(1,2) by (simp add: enter_handler_def)
  then have "raise_exception gates stacks usable sp 8 = Some (h, stacks (unat i))"
    by (subst raise_exception.simps) simp
  moreover obtain f where "enter_handler gates stacks usable sp 14 = Inl f" "f = 11 \<or> f = 14"
    using assms(3,4) by (cases "gates 14") (auto simp: enter_handler_def)
  ultimately show ?thesis
    by (subst raise_exception.simps) (auto simp: double_fault_pair_def exception_class_def)
qed

subsection \<open>Properties\<close>

text \<open>
  C9. A stack overflow does not reset the machine: with the tables that \<open>init\<close> loads, the
  endless recursion runs into the end of every bounded stack, the page fault there cannot
  be delivered on the same stack, and the processor enters the double fault handler at
  the end of the separate 20 KiB stack. Without the stack index there would be a triple
  fault (\<open>overflow_without_ist\<close>).
\<close>

theorem stack_overflow_handled:
  assumes it: "idt_table iops gate" and tt: "tss_table tops stack_table" and gt: "gdt_table gops descriptor entries"
    and add: "virt_add stack STACK_SIZE = Ret stack_end"
    and ist: "\<And>gdt sel tss. descriptor gdt sel = Some (tss_segment gops tss) \<Longrightarrow> ist gdt sel = stack_table tss"
    and stack: "usable stack_end" "\<not> usable (sp - 8 * of_nat n)"
  shows "\<exists>c' idt sp'. kernel_init gops tops virt_add stack iops pics_initialize c = Ret c' \<and> loaded_idt c' = Some idt \<and>
    stack_overflow usable sp = Some sp' \<and>
    raise_exception (gate idt) (interrupt_stacks ist c') usable sp' 14 = Some (double_fault_handler, stack_end)"
proof -
  from kernel_init_law [where virt_add = virt_add and stack = stack, OF it tt gt add, of pics_initialize c]
  obtain c' idt gdt tss ts where c': "kernel_init gops tops virt_add stack iops pics_initialize c = Ret c'"
    "loaded_idt c' = Some idt" "gate idt = kernel_gates" "loaded_gdt c' = Some gdt" "task_register c' = Some ts"
    "descriptor gdt ts = Some (tss_segment gops tss)" "stack_table tss (unat DOUBLE_FAULT_IST_INDEX) = stack_end" by blast
  obtain sp' where sp': "stack_overflow usable sp = Some sp'" "\<not> usable sp'"
    using stack_overflow_faults [of usable sp n] stack(2) by blast
  have st: "interrupt_stacks ist c' (unat DOUBLE_FAULT_IST_INDEX) = stack_end"
    using c'(4-7) ist by (simp add: interrupt_stacks_def)
  have "raise_exception (gate idt) (interrupt_stacks ist c') usable sp' 14 =
      Some (double_fault_handler, interrupt_stacks ist c' (unat DOUBLE_FAULT_IST_INDEX))"
    using sp'(2) stack(1) st c'(3) by (intro page_fault_to_double_fault) auto
  with c'(1,2) sp'(1) st show ?thesis by auto
qed

theorem stack_overflow_handled_witness:
  "\<exists>c' idt sp'. kernel_init list_gdt fun_tss word_add 0x1000 map_idt Suc
      \<lparr>loaded_gdt = None, code_segment = None, task_register = None, loaded_idt = None, pics = 0, interrupt_flag = False\<rparr> = Ret c' \<and>
    loaded_idt c' = Some idt \<and> stack_overflow (\<lambda>a. 0x6000 \<le> a) 0x9000 = Some sp' \<and>
    raise_exception idt (interrupt_stacks (\<lambda>g ts. the (g ! ts)) c') (\<lambda>a. 0x6000 \<le> a) sp' 14 =
      Some (double_fault_handler, 0x6000)"
proof -
  have "word_add 0x1000 STACK_SIZE = Ret (0x6000 :: u64)" by (simp add: STACK_SIZE_def)
  moreover have "the (gdt ! sel) = id tss"
    if "(if sel < length gdt then Some (gdt ! sel) else None) = Some (tss_segment list_gdt tss)" for gdt sel and tss :: "nat \<Rightarrow> u64"
    using that by (simp add: list_gdt_def split: if_splits)
  ultimately have "\<exists>c' idt sp'. kernel_init list_gdt fun_tss word_add 0x1000 map_idt Suc
      \<lparr>loaded_gdt = None, code_segment = None, task_register = None, loaded_idt = None, pics = 0, interrupt_flag = False\<rparr> = Ret c' \<and>
    loaded_idt c' = Some idt \<and> stack_overflow (\<lambda>a. 0x6000 \<le> a) 0x9000 = Some sp' \<and>
    raise_exception (id idt) (interrupt_stacks (\<lambda>g ts. the (g ! ts)) c') (\<lambda>a. 0x6000 \<le> a) sp' 14 =
      Some (double_fault_handler, 0x6000)"
    by (rule stack_overflow_handled [where n = "0x1000", OF map_idt.idt_table_axioms fun_tss.tss_table_axioms
          list_gdt.gdt_table_axioms]) simp_all
  then show ?thesis by simp
qed

end
