(* ===== verification/Kernel_Machine.thy ===== *)
theory Kernel_Machine
  imports Serial_Port Cpu_Exceptions
begin

text \<open>
  The machine on which the kernel's programs run: the serial line, the state that tasks
  and handlers share, the processor, the keyboard's data port, the heap, and a schedule
  of interrupts. \<open>pending\<close> is what arrives at each point at which running code can be
  interrupted; a handler is entered through the descriptor table that is loaded then.
  The locale \<open>platform\<close> collects what the programs rely on; its lemmas follow them
  through every schedule.
\<close>

subsection \<open>The machine\<close>

record ('sp, 'k, 'p, 'hp) machine =
  serial1 :: "'sp option"
  kern :: 'k
  processor :: 'p
  data_port :: u8
  pending :: "irq list list"
  heap :: 'hp

type_synonym ('a, 's) action = "'s \<Rightarrow> ('a, 's) run"

text \<open>
  What is around the kernel: the operations of the crates; how the processor reads a
  descriptor table, which stacks it may use and which one is in use; what writing a
  value to a port does (a status if it ends the virtual machine); and the texts of
  formatted values.
\<close>

record ('sp, 'q, 'cell, 'aw, 'tq, 'c, 'gdt, 'sel, 'idt, 'pics) devices =
  serial_dev :: "'sp serial_ops"
  shared :: "('q, 'cell, 'aw, 'tq, 'c) prims"
  notify_eoi :: "u8 \<Rightarrow> 'pics \<Rightarrow> 'pics"
  idt_gate :: "'idt \<Rightarrow> nat \<Rightarrow> (handler \<times> u16 option) option"
  ist_stack :: "'gdt \<Rightarrow> 'sel \<Rightarrow> nat \<Rightarrow> u64"
  stack_usable :: "u64 \<Rightarrow> bool"
  stack_pointer :: u64
  port_exit :: "u16 \<Rightarrow> u32 \<Rightarrow> u32 option"
  info_text :: "panic \<Rightarrow> u8 list"
  frame_text :: "u8 list"
  cr2_text :: "u8 list"
  error_code_text :: "u8 list"

subsection \<open>Interrupts\<close>

definition set_interrupts ::
  "bool \<Rightarrow> ('sp, 'k, ('gdt, 'sel, 'idt, 'pics) cpu, 'hp) machine \<Rightarrow> ('sp, 'k, ('gdt, 'sel, 'idt, 'pics) cpu, 'hp) machine" where
  "set_interrupts b s = s\<lparr>processor := (processor s)\<lparr>interrupt_flag := b\<rparr>\<rparr>"

definition without_interrupts ::
  "('a, ('sp, 'k, ('gdt, 'sel, 'idt, 'pics) cpu, 'hp) machine) action \<Rightarrow>
   ('a, ('sp, 'k, ('gdt, 'sel, 'idt, 'pics) cpu, 'hp) machine) action" where
  "without_interrupts f s =
     (let saved = interrupt_flag (processor s)
      in run_bind (f (set_interrupts False s)) (\<lambda>x s.
         Returned x (if saved then set_interrupts True s else s)))"

text \<open>
  \<open>hlt_loop\<close>: each halt ends with interrupts, which are served, until none is left. \<open>irq\<close> says
  what happens at a halt: \<open>irq_point\<close> below, or nothing inside a handler, which runs
  with interrupts off.
\<close>

primrec hlt_each ::
  "(unit, ('sp, 'k, 'p, 'hp) machine) action \<Rightarrow> irq list list \<Rightarrow> ('a, ('sp, 'k, 'p, 'hp) machine) action" where
  "hlt_each irq [] s = Looping s"
| "hlt_each irq (_ # rest) s = run_bind (irq s) (\<lambda>_. hlt_each irq rest)"

definition hlt_loop ::
  "(unit, ('sp, 'k, 'p, 'hp) machine) action \<Rightarrow> ('a, ('sp, 'k, 'p, 'hp) machine) action" where
  "hlt_loop irq s = hlt_each irq (pending s) s"

lemma hlt_loop_masked:
  assumes "irq s = Returned () s"
  shows "hlt_loop irq s = Looping s"
proof -
  have "hlt_each irq bs s = Looping s" for bs using assms by (induction bs) simp_all
  then show ?thesis by (simp add: hlt_loop_def)
qed

text \<open>The handlers of \<open>Interrupts\<close> on the machine.\<close>

definition on_kernel :: "('k \<Rightarrow> 'k outcome) \<Rightarrow> (unit, ('sp, 'k, 'p, 'hp) machine) action" where
  "on_kernel f = run_lift (\<lambda>s. and_then (f (kern s)) (\<lambda>k. Ret ((), s\<lparr>kern := k\<rparr>)))"

definition on_kernel_and_pics ::
  "('k \<Rightarrow> 'pics \<Rightarrow> ('k \<times> 'pics) outcome) \<Rightarrow> (unit, ('sp, 'k, ('gdt, 'sel, 'idt, 'pics) cpu, 'hp) machine) action" where
  "on_kernel_and_pics f =
     run_lift (\<lambda>s. and_then (f (kern s) (pics (processor s))) (\<lambda>(k, pc).
       Ret ((), s\<lparr>kern := k, processor := (processor s)\<lparr>pics := pc\<rparr>\<rparr>)))"

fun run_handler ::
  "('sp, 'q, 'cell, 'aw, 'tq, 'c, 'gdt, 'sel, 'idt, 'pics) devices \<Rightarrow> handler \<Rightarrow>
   (unit, ('sp, ('cell, 'aw, 'tq, 'c) kernel, ('gdt, 'sel, 'idt, 'pics) cpu, 'hp) machine) action" where
  "run_handler D breakpoint_handler s = on_kernel (breakpoint_run (shared D) (frame_text D)) s"
| "run_handler D page_fault_handler s =
     run_bind (on_kernel (page_fault_report (shared D) (cr2_text D) (error_code_text D) (frame_text D)) s) (\<lambda>_.
     hlt_loop (Returned ()))"
| "run_handler D double_fault_handler s = Panicked (ExplicitPanic ''EXCEPTION: DOUBLE FAULT'') s"
| "run_handler D timer_interrupt_handler s = on_kernel_and_pics (timer_run (shared D) (notify_eoi D)) s"
| "run_handler D keyboard_interrupt_handler s =
     on_kernel_and_pics (keyboard_run (shared D) (notify_eoi D) (data_port s)) s"

text \<open>
  Raising a vector: the handler runs with interrupts off until it returns. Without a
  table, or with a double fault that cannot be delivered, the machine resets.
\<close>

definition deliver ::
  "('sp, 'q, 'cell, 'aw, 'tq, 'c, 'gdt, 'sel, 'idt, 'pics) devices \<Rightarrow> nat \<Rightarrow>
   (unit, ('sp, ('cell, 'aw, 'tq, 'c) kernel, ('gdt, 'sel, 'idt, 'pics) cpu, 'hp) machine) action" where
  "deliver D v s =
     (case loaded_idt (processor s) of
        None \<Rightarrow> Reset s
      | Some idt \<Rightarrow>
          (case raise_exception (idt_gate D idt) (interrupt_stacks (ist_stack D) (processor s)) (stack_usable D) (stack_pointer D) v of
             None \<Rightarrow> Reset s
           | Some (h, _) \<Rightarrow> without_interrupts (run_handler D h) s))"

fun deliver_irq ::
  "('sp, 'q, 'cell, 'aw, 'tq, 'c, 'gdt, 'sel, 'idt, 'pics) devices \<Rightarrow> irq \<Rightarrow>
   (unit, ('sp, ('cell, 'aw, 'tq, 'c) kernel, ('gdt, 'sel, 'idt, 'pics) cpu, 'hp) machine) action" where
  "deliver_irq D TimerTick s = deliver D (unat (as_u8 Timer)) s"
| "deliver_irq D (KeyPressed c) s = deliver D (unat (as_u8 Keyboard)) (s\<lparr>data_port := c\<rparr>)"

definition irq_point ::
  "('sp, 'q, 'cell, 'aw, 'tq, 'c, 'gdt, 'sel, 'idt, 'pics) devices \<Rightarrow>
   (unit, ('sp, ('cell, 'aw, 'tq, 'c) kernel, ('gdt, 'sel, 'idt, 'pics) cpu, 'hp) machine) action" where
  "irq_point D s =
     (if interrupt_flag (processor s) then
        (case pending s of
           [] \<Rightarrow> Returned () s
         | irqs # rest \<Rightarrow> run_each irqs (deliver_irq D) (s\<lparr>pending := rest\<rparr>))
      else Returned () s)"

lemma irq_point_masked [simp]: "\<not> interrupt_flag (processor s) \<Longrightarrow> irq_point D s = Returned () s"
  by (simp add: irq_point_def)

text \<open>\<open>int3()\<close>\<close>

definition int3 ::
  "('sp, 'q, 'cell, 'aw, 'tq, 'c, 'gdt, 'sel, 'idt, 'pics) devices \<Rightarrow>
   (unit, ('sp, ('cell, 'aw, 'tq, 'c) kernel, ('gdt, 'sel, 'idt, 'pics) cpu, 'hp) machine) action" where
  "int3 D s = run_bind (irq_point D s) (\<lambda>_. deliver D 3)"

subsection \<open>Output\<close>

text \<open>
  \<open>print!\<close>, \<open>println!\<close>, \<open>serial_print!\<close> and \<open>serial_println!\<close>: interrupts may
  strike before, but not while the lock is held.
\<close>

definition print_out ::
  "('sp, 'q, 'cell, 'aw, 'tq, 'c, 'gdt, 'sel, 'idt, 'pics) devices \<Rightarrow> u8 list list \<Rightarrow>
   (unit, ('sp, ('cell, 'aw, 'tq, 'c) kernel, ('gdt, 'sel, 'idt, 'pics) cpu, 'hp) machine) action" where
  "print_out D args s =
     run_bind (irq_point D s) (\<lambda>_.
     without_interrupts (on_kernel (\<lambda>k.
       and_then (print_args (vga_ops (shared D)) (vga_writer k) args) (\<lambda>w. Ret (k\<lparr>vga_writer := w\<rparr>)))))"

definition println_out ::
  "('sp, 'q, 'cell, 'aw, 'tq, 'c, 'gdt, 'sel, 'idt, 'pics) devices \<Rightarrow> u8 list list \<Rightarrow>
   (unit, ('sp, ('cell, 'aw, 'tq, 'c) kernel, ('gdt, 'sel, 'idt, 'pics) cpu, 'hp) machine) action" where
  "println_out D args = print_out D (args @ [[0x0A]])"

definition serial_out ::
  "('sp, 'q, 'cell, 'aw, 'tq, 'c, 'gdt, 'sel, 'idt, 'pics) devices \<Rightarrow> u8 list list \<Rightarrow>
   (unit, ('sp, ('cell, 'aw, 'tq, 'c) kernel, ('gdt, 'sel, 'idt, 'pics) cpu, 'hp) machine) action" where
  "serial_out D args s =
     run_bind (irq_point D s) (\<lambda>_.
     without_interrupts (run_lift (\<lambda>s.
       and_then (serial_print_args (serial_dev D) (serial1 s) args) (\<lambda>sp. Ret ((), s\<lparr>serial1 := Some sp\<rparr>)))))"

definition serial_line_out ::
  "('sp, 'q, 'cell, 'aw, 'tq, 'c, 'gdt, 'sel, 'idt, 'pics) devices \<Rightarrow> u8 list list \<Rightarrow>
   (unit, ('sp, ('cell, 'aw, 'tq, 'c) kernel, ('gdt, 'sel, 'idt, 'pics) cpu, 'hp) machine) action" where
  "serial_line_out D args = serial_out D (args @ [[0x0A]])"

subsection \<open>Initialisation\<close>

text \<open>What \<open>init\<close> of the library is called with.\<close>

record ('gdt, 'd, 'sel, 'tss, 'v, 'idt, 'pics) init_ops =
  init_gdt :: "('gdt, 'd, 'sel, 'tss) gdt_ops"
  init_tss :: "('tss, 'v) tss_ops"
  init_virt_add :: "'v \<Rightarrow> u64 \<Rightarrow> 'v outcome"
  init_stack :: 'v
  init_idt_ops :: "(handler, 'idt) idt_ops"
  init_pics :: "'pics \<Rightarrow> 'pics"

text \<open>Interrupts may strike before each statement of \<open>init\<close>.\<close>

definition init_step ::
  "('sp, 'q, 'cell, 'aw, 'tq, 'c, 'gdt, 'sel, 'idt, 'pics) devices \<Rightarrow>
   (('gdt, 'sel, 'idt, 'pics) cpu \<Rightarrow> ('gdt, 'sel, 'idt, 'pics) cpu outcome) \<Rightarrow>
   (unit, ('sp, ('cell, 'aw, 'tq, 'c) kernel, ('gdt, 'sel, 'idt, 'pics) cpu, 'hp) machine) action" where
  "init_step D step s =
     run_bind (irq_point D s) (\<lambda>_.
     run_lift (\<lambda>s. and_then (step (processor s)) (\<lambda>c. Ret ((), s\<lparr>processor := c\<rparr>))))"

definition lib_init ::
  "('sp, 'q, 'cell, 'aw, 'tq, 'c, 'gdt, 'sel, 'idt, 'pics) devices \<Rightarrow> ('gdt, 'd, 'sel, 'tss, 'v, 'idt, 'pics) init_ops \<Rightarrow>
   (unit, ('sp, ('cell, 'aw, 'tq, 'c) kernel, ('gdt, 'sel, 'idt, 'pics) cpu, 'hp) machine) action" where
  "lib_init D N =
     run_each (init_steps (init_gdt N) (init_tss N) (init_virt_add N) (init_stack N) (init_idt_ops N) (init_pics N)) (init_step D)"

subsection \<open>Programs that return and print\<close>

text \<open>
  A machine on which output and interrupts work: the screen is well formed, no scancode
  stream exists yet, and whenever interrupts are on (or if \<open>b\<close>), the kernel's gates are
  loaded. \<open>J\<close> is a property of the heap.
\<close>

definition machine_ready ::
  "('sp, 'q, 'cell, 'aw, 'tq, 'c, 'gdt, 'sel, 'idt, 'pics) devices \<Rightarrow> bool \<Rightarrow> ('hp \<Rightarrow> bool) \<Rightarrow>
   ('sp, ('cell, 'aw, 'tq, 'c) kernel, ('gdt, 'sel, 'idt, 'pics) cpu, 'hp) machine \<Rightarrow> bool" where
  "machine_ready D b J s \<longleftrightarrow>
     writer_wf (vga_writer (kern s)) \<and> try_get (cell_ops (shared D)) (scancode_queue (kern s)) = None \<and>
     (b \<or> interrupt_flag (processor s) \<longrightarrow> (\<exists>idt. loaded_idt (processor s) = Some idt \<and> idt_gate D idt = kernel_gates)) \<and>
     J (heap s)"

text \<open>
  The screen after printing the texts in order, amid what the handlers of timer and
  keyboard print.
\<close>

definition irq_texts :: "u8 list list set" where
  "irq_texts = {tick_text, [str_bytes ''WARNING: scancode queue uninitialized'', [0x0A]]}"

definition displays :: "'c volatile_ops \<Rightarrow> u8 list list list \<Rightarrow> 'c writer \<Rightarrow> 'c writer \<Rightarrow> bool" where
  "displays = shown_amid irq_texts"

lemma displays_refl: "displays v [] w w"
  by (simp add: displays_def)

lemma displays_text: "print_args v w text = Ret w' \<Longrightarrow> displays v [text] w w'"
  unfolding displays_def by (rule shown_amid_texts) simp

lemma displays_irq:
  "print_args v w [str_bytes ''.''] = Ret w' \<Longrightarrow> displays v [] w w'"
  "print_args v w [str_bytes ''WARNING: scancode queue uninitialized'', [0x0A]] = Ret w' \<Longrightarrow> displays v [] w w'"
  unfolding displays_def by (auto intro: shown_amid_noise [of _ _ "[t]" for t] simp: irq_texts_def tick_text_def)

lemmas displays_trans = shown_amid_trans [of irq_texts, folded displays_def]

text \<open>The program returns from every such machine, with a heap that has the property \<open>J'\<close>, and has sent \<open>out\<close>.\<close>

definition sends ::
  "('sp \<Rightarrow> u8 list) \<Rightarrow> u8 list \<Rightarrow> ('sp, ('cell, 'aw, 'tq, 'c) kernel, ('gdt, 'sel, 'idt, 'pics) cpu, 'hp) machine \<Rightarrow>
   ('sp, ('cell, 'aw, 'tq, 'c) kernel, ('gdt, 'sel, 'idt, 'pics) cpu, 'hp) machine \<Rightarrow> bool" where
  "sends sent out s s' \<longleftrightarrow>
     interrupt_flag (processor s') = interrupt_flag (processor s) \<and> loaded_idt (processor s') = loaded_idt (processor s) \<and>
     keyboard_waker (kern s') = keyboard_waker (kern s) \<and> suffix (pending s') (pending s) \<and>
     line_log sent (serial1 s') = line_log sent (serial1 s) @ out"

definition completes ::
  "('sp, 'q, 'cell, 'aw, 'tq, 'c, 'gdt, 'sel, 'idt, 'pics) devices \<Rightarrow> ('sp \<Rightarrow> u8 list) \<Rightarrow> bool \<Rightarrow> ('hp \<Rightarrow> bool) \<Rightarrow> ('hp \<Rightarrow> bool) \<Rightarrow>
   (unit, ('sp, ('cell, 'aw, 'tq, 'c) kernel, ('gdt, 'sel, 'idt, 'pics) cpu, 'hp) machine) action \<Rightarrow> u8 list \<Rightarrow> bool" where
  "completes D sent b J J' f out \<longleftrightarrow>
     (\<forall>s. machine_ready D b J s \<longrightarrow> (\<exists>s'. f s = Returned () s' \<and> machine_ready D b J' s' \<and> sends sent out s s'))"

text \<open>Nothing was sent, and nothing shown but by the handlers of interrupts.\<close>

definition undisturbed ::
  "('sp, 'q, 'cell, 'aw, 'tq, 'c, 'gdt, 'sel, 'idt, 'pics) devices \<Rightarrow> ('sp \<Rightarrow> u8 list) \<Rightarrow>
   ('sp, ('cell, 'aw, 'tq, 'c) kernel, ('gdt, 'sel, 'idt, 'pics) cpu, 'hp) machine \<Rightarrow>
   ('sp, ('cell, 'aw, 'tq, 'c) kernel, ('gdt, 'sel, 'idt, 'pics) cpu, 'hp) machine \<Rightarrow> bool" where
  "undisturbed D sent s s' \<longleftrightarrow>
     keyboard_waker (kern s') = keyboard_waker (kern s) \<and> suffix (pending s') (pending s) \<and>
     line_log sent (serial1 s') = line_log sent (serial1 s) \<and>
     displays (vga_ops (shared D)) [] (vga_writer (kern s)) (vga_writer (kern s'))"

lemma undisturbed_trans: "undisturbed D sent s s' \<Longrightarrow> undisturbed D sent s' s'' \<Longrightarrow> undisturbed D sent s s''"
  using displays_trans [of "vga_ops (shared D)" "[]" _ _ "[]"] by (auto simp: undisturbed_def intro: suffix_order.trans)

lemma sends_refl [simp]: "sends sent [] s s"
  by (simp add: sends_def)

lemma sends_trans: "sends sent x s s' \<Longrightarrow> sends sent y s' s'' \<Longrightarrow> sends sent (x @ y) s s''"
  by (auto simp: sends_def intro: suffix_order.trans)

lemma completesI:
  "(\<And>s. machine_ready D b J s \<Longrightarrow> \<exists>s'. f s = Returned () s' \<and> machine_ready D b J' s' \<and> sends sent out s s') \<Longrightarrow>
   completes D sent b J J' f out"
  by (simp add: completes_def)

lemma completesD:
  "completes D sent b J J' f out \<Longrightarrow> machine_ready D b J s \<Longrightarrow>
   \<exists>s'. f s = Returned () s' \<and> machine_ready D b J' s' \<and> sends sent out s s'"
  by (simp add: completes_def)

lemma completes_bind:
  "completes D sent b J J' f x \<Longrightarrow> completes D sent b J' J'' g y \<Longrightarrow>
   completes D sent b J J'' (\<lambda>s. run_bind (f s) (\<lambda>_. g)) (x @ y)"
  unfolding completes_def by (metis run_bind.simps(1) sends_trans)

lemma completes_each:
  assumes "\<And>x. x \<in> set xs \<Longrightarrow> completes D sent b J J (f x) []"
  shows "completes D sent b J J (run_each xs f) []"
proof (rule completesI, goal_cases)
  case (1 s)
  have "\<exists>s''. f x s' = Returned () s'' \<and> machine_ready D b J s'' \<and> sends sent [] s s''"
    if "x \<in> set xs" "machine_ready D b J s' \<and> sends sent [] s s'" for x s'
    using completesD [OF assms [OF that(1)], of s'] that(2) sends_trans [of sent "[]" s s' "[]"] by auto
  with 1 show ?case
    using run_each_invariant [of "\<lambda>s'. machine_ready D b J s' \<and> sends sent [] s s'" s xs f] by simp
qed

lemma uninterrupted:
  assumes "machine_ready D b J s" and "f (set_interrupts False s) = Returned x s1" and "machine_ready D b J' s1"
    and "sends sent out (set_interrupts False s) s1"
  shows "\<exists>s2. without_interrupts f s = Returned x s2 \<and> machine_ready D b J' s2 \<and> sends sent out s s2 \<and> kern s2 = kern s1"
  using assms by (auto simp: without_interrupts_def machine_ready_def set_interrupts_def sends_def)

lemma masked_ready:
  assumes "machine_ready D b J s"
  shows "machine_ready D b J (set_interrupts False s)" and "\<not> interrupt_flag (processor (set_interrupts False s))"
    and "kern (set_interrupts False s) = kern s"
  using assms by (auto simp: machine_ready_def set_interrupts_def)

lemma completes_uninterrupted:
  assumes "\<And>s. machine_ready D b J s \<Longrightarrow> \<not> interrupt_flag (processor s) \<Longrightarrow>
    \<exists>s'. f s = Returned () s' \<and> machine_ready D b J' s' \<and> sends sent out s s'"
  shows "completes D sent b J J' (without_interrupts f) out"
proof (rule completesI, goal_cases)
  case (1 s)
  from assms [OF masked_ready(1,2) [OF 1]] obtain s' where "f (set_interrupts False s) = Returned () s'"
    "machine_ready D b J' s'" "sends sent out (set_interrupts False s) s'" by blast
  from uninterrupted [where f = f, OF 1 this] show ?case by blast
qed

lemma completes_without_interrupts:
  "completes D sent b J J' f out \<Longrightarrow> completes D sent b J J' (without_interrupts f) out"
  by (rule completes_uninterrupted) (rule completesD)

text \<open>
  The platform of the test programs: volatile cells, a serial line, a stack on which
  handlers can be entered, panic messages without control characters, and the device
  \<open>isa-debug-exit\<close> of the virtual machine at port 0xF4, which ends it with status
  \<open>2 * x + 1\<close> when \<open>x\<close> is written.
\<close>

locale platform =
  volatile_cell "vga_ops (shared D)" + serial_line "serial_dev D" sent
  for D :: "('sp, 'q, 'cell, 'aw, 'tq, 'c, 'gdt, 'sel, 'idt, 'pics) devices" and sent +
  assumes stack_law: "stack_usable D (stack_pointer D)"
    and info_law: "plain (info_text D p)"
    and exit_law: "port_exit D 0xF4 x = Some (2 * x + 1)"
begin

lemma screen_print:
  assumes "machine_ready D b J s"
  shows "\<exists>w. print_args (vga_ops (shared D)) (vga_writer (kern s)) args = Ret w \<and> writer_wf w"
  using print_args_wf [OF volatile_cell_axioms, of "vga_writer (kern s)" args] assms
  by (auto simp: machine_ready_def)

lemma handler_ready:
  assumes r: "machine_ready D b J s" and "h \<in> {breakpoint_handler, timer_interrupt_handler, keyboard_interrupt_handler}"
  shows "\<exists>s'. run_handler D h s = Returned () s' \<and> machine_ready D b J s' \<and> sends sent [] s s' \<and>
    (h \<noteq> breakpoint_handler \<longrightarrow> displays (vga_ops (shared D)) [] (vga_writer (kern s)) (vga_writer (kern s')))"
proof -
  have q: "try_get (cell_ops (shared D)) (scancode_queue (kern s)) = None" using r by (simp add: machine_ready_def)
  show ?thesis
    using assms screen_print [OF r, of "[str_bytes ''EXCEPTION: BREAKPOINT'' @ [0x0A], frame_text D, [0x0A]]"]
      screen_print [OF r, of "[str_bytes ''.'']"]
      screen_print [OF r, of "[str_bytes ''WARNING: scancode queue uninitialized'', [0x0A]]"]
    by (auto simp: on_kernel_def on_kernel_and_pics_def breakpoint_run_def timer_run_def keyboard_run_def
        kernel_print_def add_scancode_def q kernel_println_def println_def run_lift_def machine_ready_def sends_def
        intro: displays_irq)
qed

text \<open>With the kernel's gates loaded, a vector without a stack of its own reaches its handler.\<close>

lemma deliver_handler:
  assumes "kernel_gates v = Some (h, None)" and "loaded_idt (processor s) = Some idt" and "idt_gate D idt = kernel_gates"
  shows "deliver D v s = without_interrupts (run_handler D h) s"
proof -
  have "enter_handler (idt_gate D idt) stacks (stack_usable D) (stack_pointer D) v = Inr (h, stack_pointer D)" for stacks
    unfolding enter_handler_def assms(1,3) using stack_law by simp
  then show ?thesis using assms(2) by (simp add: deliver_def raise_exception.simps [of _ _ _ _ v])
qed

lemma deliver_ready:
  assumes "(v, h) \<in> {(3, breakpoint_handler), (32, timer_interrupt_handler), (33, keyboard_interrupt_handler)}"
    and "machine_ready D b J s" and "b \<or> interrupt_flag (processor s)"
  shows "\<exists>s'. deliver D v s = Returned () s' \<and> machine_ready D b J s' \<and> sends sent [] s s' \<and>
    (h \<noteq> breakpoint_handler \<longrightarrow> displays (vga_ops (shared D)) [] (vga_writer (kern s)) (vga_writer (kern s')))"
proof -
  obtain idt where i: "loaded_idt (processor s) = Some idt" "idt_gate D idt = kernel_gates"
    using assms(2,3) by (auto simp: machine_ready_def)
  have "kernel_gates v = Some (h, None)" using assms(1) by auto
  note d = deliver_handler [OF this i]
  obtain s1 where s1: "run_handler D h (set_interrupts False s) = Returned () s1" "machine_ready D b J s1"
    "sends sent [] (set_interrupts False s) s1"
    "h \<noteq> breakpoint_handler \<longrightarrow> displays (vga_ops (shared D)) [] (vga_writer (kern s)) (vga_writer (kern s1))"
    using handler_ready [OF masked_ready(1) [OF assms(2)], of h] assms(1) masked_ready(3) [OF assms(2)] by auto
  from uninterrupted [where f = "run_handler D h", OF assms(2) s1(1-3)] s1(4) d show ?thesis by auto
qed

lemma deliver_irq_ready:
  assumes "machine_ready D b J s" and "interrupt_flag (processor s)"
  shows "\<exists>s'. deliver_irq D i s = Returned () s' \<and> machine_ready D b J s' \<and> sends sent [] s s' \<and>
    displays (vga_ops (shared D)) [] (vga_writer (kern s)) (vga_writer (kern s'))"
proof (cases i)
  case TimerTick
  then show ?thesis
    using deliver_ready [of 32 timer_interrupt_handler b J s] assms by (simp add: PIC_1_OFFSET_def)
next
  case (KeyPressed c)
  have "machine_ready D b J (s\<lparr>data_port := c\<rparr>)" using assms(1) by (simp add: machine_ready_def)
  from deliver_ready [OF _ this, of 33 keyboard_interrupt_handler] assms(2) KeyPressed show ?thesis
    by (auto simp: PIC_1_OFFSET_def sends_def)
qed

lemma irq_point_ready:
  assumes "machine_ready D b J s"
  shows "\<exists>s'. irq_point D s = Returned () s' \<and> machine_ready D b J s' \<and> sends sent [] s s' \<and>
    displays (vga_ops (shared D)) [] (vga_writer (kern s)) (vga_writer (kern s'))"
proof (cases "interrupt_flag (processor s) \<and> pending s \<noteq> []")
  case True
  then obtain irqs rest where p: "pending s = irqs # rest" "interrupt_flag (processor s)" by (cases "pending s") auto
  let ?I = "\<lambda>s'. machine_ready D b J s' \<and> interrupt_flag (processor s') \<and> sends sent [] s s' \<and>
    displays (vga_ops (shared D)) [] (vga_writer (kern s)) (vga_writer (kern s'))"
  have "\<exists>s''. deliver_irq D i s' = Returned () s'' \<and> ?I s''" if I: "?I s'" for i s'
  proof -
    from deliver_irq_ready [of b J s' i] I obtain s'' where
      d: "deliver_irq D i s' = Returned () s''" "machine_ready D b J s''" "sends sent [] s' s''"
      "displays (vga_ops (shared D)) [] (vga_writer (kern s')) (vga_writer (kern s''))" by blast
    moreover have "interrupt_flag (processor s'')" using I d(3) by (simp add: sends_def)
    ultimately show ?thesis using I sends_trans [OF _ d(3)] displays_trans [OF _ d(4)] by fastforce
  qed
  moreover have "?I (s\<lparr>pending := rest\<rparr>)"
    using assms p displays_refl by (auto simp: machine_ready_def sends_def suffix_def)
  ultimately have "\<exists>s'. run_each irqs (deliver_irq D) (s\<lparr>pending := rest\<rparr>) = Returned () s' \<and> ?I s'"
    by (intro run_each_invariant) blast+
  with p show ?thesis by (auto simp: irq_point_def)
next
  case False
  with assms displays_refl show ?thesis by (auto simp: irq_point_def split: list.split)
qed

lemma irq_point_completes: "completes D sent b J J (irq_point D) []"
  using irq_point_ready by (intro completesI) blast

lemma print_out_completes: "completes D sent b J J (print_out D args) []"
proof -
  have "completes D sent b J J (on_kernel (\<lambda>k.
      and_then (print_args (vga_ops (shared D)) (vga_writer k) args) (\<lambda>w. Ret (k\<lparr>vga_writer := w\<rparr>)))) []"
  proof (rule completesI, goal_cases)
    case r: (1 s)
    then show ?case
      using screen_print [OF r, of args] by (auto simp: on_kernel_def run_lift_def machine_ready_def sends_def)
  qed
  from completes_bind [OF irq_point_completes completes_without_interrupts [OF this]] show ?thesis
    by (simp add: print_out_def [abs_def])
qed

lemma println_out_completes: "completes D sent b J J (println_out D args) []"
  by (simp add: println_out_def print_out_completes)

lemma serial_out_completes:
  assumes "plain (concat args)"
  shows "completes D sent b J J (serial_out D args) (concat args)"
proof -
  have "completes D sent b J J (run_lift (\<lambda>s.
       and_then (serial_print_args (serial_dev D) (serial1 s) args) (\<lambda>sp. Ret ((), s\<lparr>serial1 := Some sp\<rparr>)))) (concat args)"
  proof (rule completesI, goal_cases)
    case (1 s)
    with serial_print_law [of "serial1 s" args] assms show ?case
      by (auto simp: run_lift_def machine_ready_def sends_def)
  qed
  from completes_bind [OF irq_point_completes completes_without_interrupts [OF this]] show ?thesis
    by (simp add: serial_out_def [abs_def])
qed

lemma serial_line_out_completes:
  assumes "plain (concat args)"
  shows "completes D sent b J J (serial_line_out D args) (concat args @ [0x0A])"
  using serial_out_completes [of "args @ [[0x0A]]"] assms by (simp add: serial_line_out_def plain_def)

end

subsection \<open>Initialisation reaches such a machine\<close>

locale init_tables =
  idt_table "init_idt_ops N" gate + tss_table "init_tss N" stack_table + gdt_table "init_gdt N" descriptor entries
  for N :: "('gdt, 'd, 'sel, 'tss, 'v, 'idt, 'pics) init_ops" and gate stack_table descriptor entries +
  fixes stack_end
  assumes stack_end_law: "init_virt_add N (init_stack N) STACK_SIZE = Ret stack_end"
begin

text \<open>With interrupts off at the start, none is taken before all is done.\<close>

lemma lib_init_exact:
  assumes "\<not> interrupt_flag (processor s)"
  shows "\<exists>c' idt gdt tss cs ts. lib_init D N s = Returned () (s\<lparr>processor := c'\<rparr>) \<and>
    interrupt_flag c' \<and> pics c' = init_pics N (pics (processor s)) \<and>
    loaded_idt c' = Some idt \<and> gate idt = kernel_gates \<and>
    loaded_gdt c' = Some gdt \<and> code_segment c' = Some cs \<and> task_register c' = Some ts \<and>
    descriptor gdt cs = Some (kernel_code_segment (init_gdt N)) \<and> descriptor gdt ts = Some (tss_segment (init_gdt N) tss) \<and>
    stack_table tss (unat DOUBLE_FAULT_IST_INDEX) = stack_end"
proof -
  obtain gdt tss cs ts where g: "gdt_init (init_gdt N) (init_tss N) (init_virt_add N) (init_stack N) (processor s) =
      Ret ((processor s)\<lparr>loaded_gdt := Some gdt, code_segment := Some cs, task_register := Some ts\<rparr>)"
    "descriptor gdt cs = Some (kernel_code_segment (init_gdt N))" "descriptor gdt ts = Some (tss_segment (init_gdt N) tss)"
    "stack_table tss (unat DOUBLE_FAULT_IST_INDEX) = stack_end"
    using gdt_init_law [where virt_add = "init_virt_add N" and stack = "init_stack N",
        OF tss_table_axioms gdt_table_axioms stack_end_law, of "processor s"] by blast
  obtain idt where i: "IDT (init_idt_ops N) = Ret idt" "gate idt = kernel_gates" using IDT_gates [OF idt_table_axioms] by blast
  let ?c = "(processor s)\<lparr>loaded_gdt := Some gdt, code_segment := Some cs, task_register := Some ts,
    loaded_idt := Some idt, pics := init_pics N (pics (processor s)), interrupt_flag := True\<rparr>"
  have "lib_init D N s = Returned () (s\<lparr>processor := ?c\<rparr>)" using assms g(1) i(1)
    by (simp add: lib_init_def init_steps_def init_step_def init_idt_def run_lift_def)
  with g(2-4) i(2) show ?thesis by (intro exI [of _ ?c]) auto
qed

end

context platform
begin

text \<open>
  \<open>init\<close> on every machine on which interrupts work if they are on.
\<close>

lemma init_step_ready:
  assumes "machine_ready D b J s"
    and "\<And>s. machine_ready D b J s \<Longrightarrow> \<exists>c. step (processor s) = Ret c \<and> machine_ready D b' J (s\<lparr>processor := c\<rparr>) \<and> Q c"
  shows "\<exists>s'. init_step D step s = Returned () s' \<and> machine_ready D b' J s' \<and> Q (processor s') \<and>
    undisturbed D sent s s'"
proof -
  from irq_point_ready [OF assms(1)] obtain s1 where
    s1: "irq_point D s = Returned () s1" "machine_ready D b J s1" "sends sent [] s s1"
    "displays (vga_ops (shared D)) [] (vga_writer (kern s)) (vga_writer (kern s1))" by blast
  from assms(2) [OF s1(2)] obtain c where "step (processor s1) = Ret c" "machine_ready D b' J (s1\<lparr>processor := c\<rparr>)" "Q c" by blast
  with s1 show ?thesis by (simp add: init_step_def run_lift_def undisturbed_def sends_def)
qed

lemma lib_init_ready:
  assumes it: "init_tables N (idt_gate D) stack_table descriptor entries stack_end" and r: "machine_ready D False J s"
  shows "\<exists>s'. lib_init D N s = Returned () s' \<and> machine_ready D True J s' \<and> interrupt_flag (processor s') \<and>
    undisturbed D sent s s'"
proof -
  note t = init_tables.axioms [OF it]
  note gdt = gdt_init_law [where virt_add = "init_virt_add N" and stack = "init_stack N", OF t(2,3) init_tables.stack_end_law [OF it]] and idt = IDT_gates [OF t(1)]
  let ?gdt = "gdt_init (init_gdt N) (init_tss N) (init_virt_add N) (init_stack N)"
  from init_step_ready [of False J s ?gdt False "\<lambda>_. True", OF r] gdt obtain s1 where
    s1: "init_step D ?gdt s = Returned () s1" "machine_ready D False J s1" "undisturbed D sent s s1"
    by (fastforce simp: machine_ready_def)
  from init_step_ready [of False J s1 "init_idt (init_idt_ops N)" True "\<lambda>_. True", OF s1(2)] idt obtain s2 where
    s2: "init_step D (init_idt (init_idt_ops N)) s1 = Returned () s2" "machine_ready D True J s2" "undisturbed D sent s1 s2"
    by (fastforce simp: machine_ready_def init_idt_def)
  from init_step_ready [of True J s2 "\<lambda>c. Ret (c\<lparr>pics := init_pics N (pics c)\<rparr>)" True "\<lambda>_. True", OF s2(2)] obtain s3 where
    s3: "init_step D (\<lambda>c. Ret (c\<lparr>pics := init_pics N (pics c)\<rparr>)) s2 = Returned () s3" "machine_ready D True J s3"
    "undisturbed D sent s2 s3"
    by (fastforce simp: machine_ready_def)
  from init_step_ready [of True J s3 "\<lambda>c. Ret (c\<lparr>interrupt_flag := True\<rparr>)" True interrupt_flag, OF s3(2)] obtain s4 where
    "init_step D (\<lambda>c. Ret (c\<lparr>interrupt_flag := True\<rparr>)) s3 = Returned () s4" "machine_ready D True J s4"
    "interrupt_flag (processor s4)" "undisturbed D sent s3 s4"
    by (fastforce simp: machine_ready_def)
  with s1 s2 s3 show ?thesis
    by (auto simp: lib_init_def init_steps_def intro: undisturbed_trans)
qed

end

subsection \<open>An instance\<close>

text \<open>Devices that keep what they are told; \<open>gate\<close> reads the descriptor tables.\<close>

definition devices_with ::
  "('idt \<Rightarrow> nat \<Rightarrow> (handler \<times> u16 option) option) \<Rightarrow>
   (u8 list, nat \<times> u8 list, (nat \<times> u8 list) option, waker option, nat \<times> u64 list, u8 \<times> u8,
    (nat \<Rightarrow> u64) option list, nat, 'idt, u8 list) devices" where
  "devices_with gate = \<lparr>serial_dev = list_serial, shared = list_prims, notify_eoi = (\<lambda>i pc. pc @ [i]), idt_gate = gate,
     ist_stack = (\<lambda>g ts. the (g ! ts)), stack_usable = (\<lambda>sp. 0x1000 \<le> sp), stack_pointer = 0x9000,
     port_exit = (\<lambda>p x. if p = 0xF4 then Some (2 * x + 1) else None), info_text = (\<lambda>_. str_bytes ''panicked''),
     frame_text = [], cr2_text = [], error_code_text = []\<rparr>"

abbreviation list_devices where
  "list_devices \<equiv> devices_with id"

interpretation list_platform: platform "devices_with gate" id for gate
proof -
  have s: "str_bytes ''panicked'' = [0x70, 0x61, 0x6E, 0x69, 0x63, 0x6B, 0x65, 0x64]"
    by (simp add: str_bytes_def of_char_def)
  have "platform_axioms (devices_with gate)"
    by unfold_locales (simp_all add: devices_with_def plain_def s)
  moreover have "vga_ops (shared (devices_with gate)) = vga_cell" "serial_dev (devices_with gate) = list_serial"
    by (simp_all add: devices_with_def list_prims_def)
  ultimately show "platform (devices_with gate) id"
    using vga.volatile_cell_axioms list_serial.serial_line_axioms by (simp add: platform_def)
qed

definition example_init ::
  "((nat \<Rightarrow> u64) option list, (nat \<Rightarrow> u64) option, nat, nat \<Rightarrow> u64, u64,
    nat \<Rightarrow> (handler \<times> u16 option) option, u8 list) init_ops" where
  "example_init = \<lparr>init_gdt = list_gdt, init_tss = fun_tss, init_virt_add = word_add, init_stack = 0x1000,
     init_idt_ops = map_idt, init_pics = (\<lambda>_. [])\<rparr>"

interpretation example_init:
  init_tables example_init id id "\<lambda>g i. if i < length g then Some (g ! i) else None" length "0x6000"
  by (simp add: init_tables_def init_tables_axioms_def example_init_def STACK_SIZE_def
      map_idt.idt_table_axioms fun_tss.tss_table_axioms list_gdt.gdt_table_axioms)

definition example_machine ::
  "irq list list \<Rightarrow> 'hp \<Rightarrow>
   (u8 list, ((nat \<times> u8 list) option, waker option, nat \<times> u64 list, u8 \<times> u8) kernel,
    ((nat \<Rightarrow> u64) option list, nat, 'idt, u8 list) cpu, 'hp) machine" where
  "example_machine irqs h = \<lparr>serial1 = None,
     kern = (example_kernel [])\<lparr>scancode_queue := None\<rparr>,
     processor = \<lparr>loaded_gdt = None, code_segment = None, task_register = None, loaded_idt = None, pics = [], interrupt_flag = False\<rparr>,
     data_port = 0, pending = irqs, heap = h\<rparr>"

lemma example_machine_ready: "J h \<Longrightarrow> machine_ready (devices_with gate) False J (example_machine irqs h)"
  using example_writer_wf
  by (simp add: machine_ready_def example_machine_def devices_with_def list_prims_def option_cell_def example_kernel_def)

lemma example_machine_log [simp]: "line_log id (serial1 (example_machine irqs h)) = []"
  by (simp add: example_machine_def line_log_def)

subsection \<open>Properties\<close>

text \<open>
  C36. \<open>init\<close> enables interrupts last. Called with interrupts off, as the boot loader leaves
  them, it takes none before it is done, whatever is waiting at each of its statements:
  nothing of the machine changes but the processor and the interrupt controllers, and
  nothing resets. Then interrupts are on, the gates loaded are exactly those of the kernel,
  with the timer and the keyboard at 32 and 33, the controllers are initialised, and a
  double fault finds its stack: the task register selects the task state segment whose
  entry \<open>DOUBLE_FAULT_IST_INDEX\<close> is the end of the 20 KiB stack, the code segment the
  kernel's.
\<close>

theorem init_takes_no_interrupt:
  assumes "init_tables N (idt_gate D) stack_table descriptor entries stack_end" and "\<not> interrupt_flag (processor s)"
  shows "\<exists>c' idt gdt tss cs ts. lib_init D N s = Returned () (s\<lparr>processor := c'\<rparr>) \<and>
    interrupt_flag c' \<and> pics c' = init_pics N (pics (processor s)) \<and>
    loaded_idt c' = Some idt \<and> idt_gate D idt = kernel_gates \<and>
    loaded_gdt c' = Some gdt \<and> code_segment c' = Some cs \<and> task_register c' = Some ts \<and>
    descriptor gdt cs = Some (kernel_code_segment (init_gdt N)) \<and> descriptor gdt ts = Some (tss_segment (init_gdt N) tss) \<and>
    stack_table tss (unat DOUBLE_FAULT_IST_INDEX) = stack_end"
  using assms by (rule init_tables.lib_init_exact)

lemma example_tables:
  "init_tables example_init (idt_gate list_devices) id (\<lambda>g i. if i < length g then Some (g ! i) else None) length 0x6000"
  using example_init.init_tables_axioms by (simp add: devices_with_def id_def)

theorem init_takes_no_interrupt_witness:
  "\<exists>c'. lib_init list_devices example_init (example_machine [[TimerTick], [KeyPressed 30]] ()) =
      Returned () ((example_machine [[TimerTick], [KeyPressed 30]] ())\<lparr>processor := c'\<rparr>) \<and>
    interrupt_flag c' \<and> loaded_idt c' = Some kernel_gates"
proof -
  have "\<not> interrupt_flag (processor (example_machine [[TimerTick], [KeyPressed 30]] ()))" by (simp add: example_machine_def)
  from init_takes_no_interrupt [OF example_tables this] show ?thesis by (auto simp: devices_with_def)
qed

end
