(* ===== verification/Test_Runner.thy ===== *)
theory Test_Runner
  imports Kernel_Machine
begin

text \<open>
  The test framework of \<open>src/lib.rs\<close>: \<open>Testable\<close>, \<open>test_runner\<close>, \<open>exit_qemu\<close>,
  \<open>test_panic_handler\<close> and the entry point \<open>test_kernel_main\<close>, with the test functions
  of the library. The verdict that reaches the host, the exit status and the text on
  the serial line, is shown to be the right one for every schedule of interrupts.
\<close>

subsection \<open>Leaving the virtual machine\<close>

datatype qemu_exit_code = Success | Failed

fun exit_code_u32 :: "qemu_exit_code \<Rightarrow> u32" where
  "exit_code_u32 Success = 0x10"
| "exit_code_u32 Failed = 0x11"

definition exit_qemu :: "('sp, 'q, 'cell, 'aw, 'tq, 'c, 'gdt, 'sel, 'idt, 'pics) devices \<Rightarrow> qemu_exit_code \<Rightarrow> (unit, 's) action" where
  "exit_qemu D exit_code s =
     (case port_exit D 0xF4 (exit_code_u32 exit_code) of Some status \<Rightarrow> Exited status s | None \<Rightarrow> Returned () s)"

subsection \<open>The runner\<close>

text \<open>A test is its \<open>type_name\<close> with the function.\<close>

type_synonym 's test = "u8 list \<times> (unit, 's) action"

definition testable_run ::
  "('sp, 'q, 'cell, 'aw, 'tq, 'c, 'gdt, 'sel, 'idt, 'pics) devices \<Rightarrow>
   ('sp, ('cell, 'aw, 'tq, 'c) kernel, ('gdt, 'sel, 'idt, 'pics) cpu, 'hp) machine test \<Rightarrow>
   (unit, ('sp, ('cell, 'aw, 'tq, 'c) kernel, ('gdt, 'sel, 'idt, 'pics) cpu, 'hp) machine) action" where
  "testable_run D test s =
     run_bind (serial_out D [fst test, str_bytes ''...'' @ [0x09]] s) (\<lambda>_ s.
     run_bind (snd test s) (\<lambda>_.
     serial_line_out D [str_bytes ''[ok]'']))"

definition test_runner ::
  "('sp, 'q, 'cell, 'aw, 'tq, 'c, 'gdt, 'sel, 'idt, 'pics) devices \<Rightarrow>
   ('sp, ('cell, 'aw, 'tq, 'c) kernel, ('gdt, 'sel, 'idt, 'pics) cpu, 'hp) machine test list \<Rightarrow>
   (unit, ('sp, ('cell, 'aw, 'tq, 'c) kernel, ('gdt, 'sel, 'idt, 'pics) cpu, 'hp) machine) action" where
  "test_runner D tests s =
     run_bind (serial_line_out D [str_bytes ''Running '', decimal (length tests), str_bytes '' tests''] s) (\<lambda>_ s.
     run_bind (run_each tests (testable_run D) s) (\<lambda>_.
     exit_qemu D Success))"

definition test_panic_handler ::
  "('sp, 'q, 'cell, 'aw, 'tq, 'c, 'gdt, 'sel, 'idt, 'pics) devices \<Rightarrow> panic \<Rightarrow>
   ('a, ('sp, ('cell, 'aw, 'tq, 'c) kernel, ('gdt, 'sel, 'idt, 'pics) cpu, 'hp) machine) action" where
  "test_panic_handler D info s =
     run_bind (serial_line_out D [str_bytes ''[failed]'' @ [0x0A]] s) (\<lambda>_ s.
     run_bind (serial_line_out D [str_bytes ''Error: '', info_text D info, [0x0A]] s) (\<lambda>_ s.
     run_bind (exit_qemu D Failed s) (\<lambda>_.
     hlt_loop (irq_point D))))"

text \<open>\<open>test_kernel_main\<close> with the test functions the compiler collects, under the panic handler.\<close>

definition test_kernel_main ::
  "('sp, 'q, 'cell, 'aw, 'tq, 'c, 'gdt, 'sel, 'idt, 'pics) devices \<Rightarrow> ('gdt, 'd, 'sel, 'tss, 'v, 'idt, 'pics) init_ops \<Rightarrow>
   ('sp, ('cell, 'aw, 'tq, 'c) kernel, ('gdt, 'sel, 'idt, 'pics) cpu, 'hp) machine test list \<Rightarrow>
   (unit, ('sp, ('cell, 'aw, 'tq, 'c) kernel, ('gdt, 'sel, 'idt, 'pics) cpu, 'hp) machine) action" where
  "test_kernel_main D N tests s =
     with_panic_handler (test_panic_handler D)
       (run_bind (lib_init D N s) (\<lambda>_ s.
        run_bind (test_runner D tests s) (\<lambda>_. hlt_loop (irq_point D))))"

subsection \<open>The tests of the library\<close>

definition test_breakpoint_exception ::
  "('sp, 'q, 'cell, 'aw, 'tq, 'c, 'gdt, 'sel, 'idt, 'pics) devices \<Rightarrow>
   (unit, ('sp, ('cell, 'aw, 'tq, 'c) kernel, ('gdt, 'sel, 'idt, 'pics) cpu, 'hp) machine) action" where
  "test_breakpoint_exception D = int3 D"

definition test_println_simple ::
  "('sp, 'q, 'cell, 'aw, 'tq, 'c, 'gdt, 'sel, 'idt, 'pics) devices \<Rightarrow>
   (unit, ('sp, ('cell, 'aw, 'tq, 'c) kernel, ('gdt, 'sel, 'idt, 'pics) cpu, 'hp) machine) action" where
  "test_println_simple D = println_out D [str_bytes ''test_println_simple output'']"

definition test_println_many ::
  "('sp, 'q, 'cell, 'aw, 'tq, 'c, 'gdt, 'sel, 'idt, 'pics) devices \<Rightarrow>
   (unit, ('sp, ('cell, 'aw, 'tq, 'c) kernel, ('gdt, 'sel, 'idt, 'pics) cpu, 'hp) machine) action" where
  "test_println_many D = run_each [0..<200 :: nat] (\<lambda>_. println_out D [str_bytes ''test_println_many output''])"

text \<open>
  Interrupts are off and the writer is locked from before the output until every
  character has been compared.
\<close>

definition test_println_output ::
  "('sp, 'q, 'cell, 'aw, 'tq, 'c, 'gdt, 'sel, 'idt, 'pics) devices \<Rightarrow>
   (unit, ('sp, ('cell, 'aw, 'tq, 'c) kernel, ('gdt, 'sel, 'idt, 'pics) cpu, 'hp) machine) action" where
  "test_println_output D s =
     (let str = str_bytes ''Some test string that fits on a single line''
      in run_bind (irq_point D s) (\<lambda>_.
         without_interrupts (\<lambda>s.
           run_bind (irq_point D s) (\<lambda>_ s.
           run_bind (on_kernel (\<lambda>k.
             and_then (write_fmt (vga_ops (shared D)) (vga_writer k) [[0x0A], str, [0x0A]]) (\<lambda>(r, w).
             and_then (expect ''writeln failed'' r) (\<lambda>_. Ret (k\<lparr>vga_writer := w\<rparr>)))) s) (\<lambda>_.
           run_each (enumerate 0 str) (\<lambda>(i, c) s.
             run_bind (irq_point D s) (\<lambda>_.
             on_kernel (\<lambda>k.
               and_then (sub_usize BUFFER_HEIGHT 2) (\<lambda>row.
               and_then (chars_read (vga_ops (shared D)) (vga_writer k) (unat row) i) (\<lambda>screen_char.
               and_then (assert_that (ascii_character screen_char = c)) (\<lambda>_. Ret k))))))))))) "

definition lib_tests ::
  "('sp, 'q, 'cell, 'aw, 'tq, 'c, 'gdt, 'sel, 'idt, 'pics) devices \<Rightarrow>
   ('sp, ('cell, 'aw, 'tq, 'c) kernel, ('gdt, 'sel, 'idt, 'pics) cpu, 'hp) machine test list" where
  "lib_tests D =
     [(str_bytes ''tiny_os::vga_buffer::test_println_simple'', test_println_simple D),
      (str_bytes ''tiny_os::vga_buffer::test_println_many'', test_println_many D),
      (str_bytes ''tiny_os::vga_buffer::test_println_output'', test_println_output D),
      (str_bytes ''tiny_os::test_breakpoint_exception'', test_breakpoint_exception D)]"

subsection \<open>What the host sees\<close>

text \<open>
  The verdict of a test is what it sends on the serial line, with its panic if it has
  one. The runner reports the tests in order up to the first that fails.
\<close>

type_synonym verdict = "u8 list \<times> panic option"

fun report :: "(panic \<Rightarrow> u8 list) \<Rightarrow> (u8 list \<times> verdict) list \<Rightarrow> u8 list" where
  "report info [] = []"
| "report info ((name, out, None) # ts) =
     name @ str_bytes ''...'' @ [0x09] @ out @ str_bytes ''[ok]'' @ [0x0A] @ report info ts"
| "report info ((name, out, Some p) # ts) =
     name @ str_bytes ''...'' @ [0x09] @ out @ str_bytes ''[failed]'' @ [0x0A, 0x0A] @
     str_bytes ''Error: '' @ info p @ [0x0A, 0x0A]"

definition test_transcript :: "(panic \<Rightarrow> u8 list) \<Rightarrow> (u8 list \<times> verdict) list \<Rightarrow> u8 list" where
  "test_transcript info ts =
     str_bytes ''Running '' @ decimal (length ts) @ str_bytes '' tests'' @ [0x0A] @ report info ts"

text \<open>\<open>33\<close> is the \<open>test-success-exit-code\<close> of \<open>Cargo.toml\<close>.\<close>

definition test_status :: "(u8 list \<times> verdict) list \<Rightarrow> u32" where
  "test_status ts = (if \<forall>t\<in>set ts. snd (snd t) = None then 33 else 35)"

definition behaves ::
  "('sp, 'q, 'cell, 'aw, 'tq, 'c, 'gdt, 'sel, 'idt, 'pics) devices \<Rightarrow> ('sp \<Rightarrow> u8 list) \<Rightarrow> bool \<Rightarrow> ('hp \<Rightarrow> bool) \<Rightarrow> ('hp \<Rightarrow> bool) \<Rightarrow>
   (unit, ('sp, ('cell, 'aw, 'tq, 'c) kernel, ('gdt, 'sel, 'idt, 'pics) cpu, 'hp) machine) action \<Rightarrow> verdict \<Rightarrow> bool" where
  "behaves D sent b J J' f v \<longleftrightarrow>
     (case v of
        (out, None) \<Rightarrow> completes D sent b J J' f out
      | (out, Some p) \<Rightarrow>
          (\<forall>s. machine_ready D b J s \<longrightarrow> (\<exists>s'. f s = Panicked p s' \<and> machine_ready D b (\<lambda>_. True) s' \<and>
             line_log sent (serial1 s') = line_log sent (serial1 s) @ out)))"

lemma plain_append [simp]: "plain (xs @ ys) \<longleftrightarrow> plain xs \<and> plain ys"
  by (auto simp: plain_def)

lemma plain_simps [simp]: "plain []" "plain (x # xs) \<longleftrightarrow> x \<noteq> 8 \<and> x \<noteq> 0x7F \<and> plain xs"
  by (auto simp: plain_def)

lemma plain_decimal [simp]: "plain (decimal n)"
proof (induction n rule: decimal.induct)
  case (1 n)
  have "(0x30 + of_nat d :: u8) \<noteq> 8 \<and> (0x30 + of_nat d :: u8) \<noteq> 0x7F" if "d < 10" for d :: nat
  proof -
    have "d \<in> {0, 1, 2, 3, 4, 5, 6, 7, 8, 9}" using that by auto
    then show ?thesis by auto
  qed
  then have "(0x30 + of_nat (n mod 10) :: u8) \<noteq> 8 \<and> (0x30 + of_nat (n mod 10) :: u8) \<noteq> 0x7F" by simp
  with 1 show ?case by (subst decimal.simps) simp
qed

lemma plain_str_bytes: "plain (str_bytes s) \<longleftrightarrow> (\<forall>c\<in>set s. (of_char c :: u8) \<noteq> 8 \<and> (of_char c :: u8) \<noteq> 0x7F)"
  by (auto simp: plain_def str_bytes_def)

lemmas plain_text = plain_str_bytes of_char_def

context platform
begin

lemma exit_qemu_exits: "exit_qemu D c s = Exited (case c of Success \<Rightarrow> 33 | Failed \<Rightarrow> 35) s"
  using exit_law by (cases c) (simp_all add: exit_qemu_def)

lemma panic_handler_exits:
  assumes "machine_ready D b J s"
  shows "\<exists>s'. test_panic_handler D p s = Exited 35 s' \<and> line_log sent (serial1 s') =
    line_log sent (serial1 s) @ str_bytes ''[failed]'' @ [0x0A, 0x0A] @ str_bytes ''Error: '' @ info_text D p @ [0x0A, 0x0A]"
proof -
  have pl: "plain (concat [str_bytes ''[failed]'' @ [0x0A]])" "plain (concat [str_bytes ''Error: '', info_text D p, [0x0A]])"
    using info_law by (simp_all add: plain_text)
  from completesD [OF serial_line_out_completes [OF pl(1)] assms] obtain s1 where
    s1: "serial_line_out D [str_bytes ''[failed]'' @ [0x0A]] s = Returned () s1" "machine_ready D b J s1"
    "sends sent (concat [str_bytes ''[failed]'' @ [0x0A]] @ [0x0A]) s s1" by blast
  from completesD [OF serial_line_out_completes [OF pl(2)] s1(2)] s1(1,3) show ?thesis
    by (auto simp: test_panic_handler_def exit_qemu_exits sends_def)
qed

lemma testable_passes:
  assumes "plain (fst t)" and "completes D sent b J J' (snd t) out"
  shows "completes D sent b J J' (testable_run D t) (fst t @ str_bytes ''...'' @ [0x09] @ out @ str_bytes ''[ok]'' @ [0x0A])"
proof -
  have "plain (concat [fst t, str_bytes ''...'' @ [0x09]])" "plain (concat [str_bytes ''[ok]''])"
    using assms(1) by (simp_all add: plain_text)
  from completes_bind [OF serial_out_completes [OF this(1)] completes_bind [OF assms(2) serial_line_out_completes [OF this(2)]]]
  show ?thesis by (simp add: testable_run_def [abs_def])
qed

lemma testable_fails:
  assumes "plain (fst t)" and "behaves D sent b J J' (snd t) (out, Some p)" and "machine_ready D b J s"
  shows "\<exists>s'. testable_run D t s = Panicked p s' \<and> machine_ready D b (\<lambda>_. True) s' \<and>
    line_log sent (serial1 s') = line_log sent (serial1 s) @ fst t @ str_bytes ''...'' @ [0x09] @ out"
proof -
  have "plain (concat [fst t, str_bytes ''...'' @ [0x09]])" using assms(1) by (simp add: plain_text)
  from completesD [OF serial_out_completes [OF this] assms(3)] obtain s1 where
    s1: "serial_out D [fst t, str_bytes ''...'' @ [0x09]] s = Returned () s1" "machine_ready D b J s1"
    "sends sent (fst t @ str_bytes ''...'' @ [0x09]) s s1" by auto
  with assms(2) obtain s2 where "snd t s1 = Panicked p s2" "machine_ready D b (\<lambda>_. True) s2"
    "line_log sent (serial1 s2) = line_log sent (serial1 s1) @ out" by (auto simp: behaves_def)
  with s1 show ?thesis by (auto simp: testable_run_def sends_def)
qed

text \<open>The loop over the tests and the exit, under the panic handler.\<close>

lemma tests_verdict:
  assumes "\<forall>i<length tests. plain (fst (tests ! i)) \<and> behaves D sent b (J i) (J (Suc i)) (snd (tests ! i)) (V (tests ! i))"
    and "machine_ready D b (J 0) s"
  shows "\<exists>s'. with_panic_handler (test_panic_handler D)
      (run_bind (run_bind (run_each tests (testable_run D) s) (\<lambda>_. exit_qemu D Success)) k) =
      Exited (test_status (map (\<lambda>t. (fst t, V t)) tests)) s' \<and>
    line_log sent (serial1 s') = line_log sent (serial1 s) @ report (info_text D) (map (\<lambda>t. (fst t, V t)) tests)"
  using assms
proof (induction tests arbitrary: s J)
  case Nil
  then show ?case by (simp add: exit_qemu_exits test_status_def)
next
  case (Cons t tests)
  obtain out r where V: "V t = (out, r)" by fastforce
  from Cons.prems(1) have t: "plain (fst t)" "behaves D sent b (J 0) (J 1) (snd t) (out, r)" using V by fastforce+
  have ts: "\<forall>i<length tests. plain (fst (tests ! i)) \<and>
      behaves D sent b (J (Suc i)) (J (Suc (Suc i))) (snd (tests ! i)) (V (tests ! i))"
    using Cons.prems(1) by fastforce
  show ?case
  proof (cases r)
    case None
    with t have "completes D sent b (J 0) (J 1) (snd t) out" by (simp add: behaves_def)
    from completesD [OF testable_passes [OF t(1) this] Cons.prems(2)] obtain s1 where
      s1: "testable_run D t s = Returned () s1" "machine_ready D b (J 1) s1"
      "sends sent (fst t @ str_bytes ''...'' @ [0x09] @ out @ str_bytes ''[ok]'' @ [0x0A]) s s1" by blast
    with Cons.IH [where J = "\<lambda>i. J (Suc i)" and s = s1, OF ts] V None show ?thesis
      by (auto simp: sends_def test_status_def)
  next
    case (Some p)
    from testable_fails [OF t(1) t(2) [unfolded Some] Cons.prems(2)] obtain s1 where
      s1: "testable_run D t s = Panicked p s1" "machine_ready D b (\<lambda>_. True) s1"
      "line_log sent (serial1 s1) = line_log sent (serial1 s) @ fst t @ str_bytes ''...'' @ [0x09] @ out" by blast
    with panic_handler_exits [OF s1(2), of p] V Some show ?thesis by (auto simp: test_status_def)
  qed
qed

lemma test_runner_verdict_law:
  assumes "\<forall>i<length tests. plain (fst (tests ! i)) \<and> behaves D sent b (J i) (J (Suc i)) (snd (tests ! i)) (V (tests ! i))"
    and "machine_ready D b (J 0) s"
  shows "\<exists>s'. with_panic_handler (test_panic_handler D) (run_bind (test_runner D tests s) k) =
      Exited (test_status (map (\<lambda>t. (fst t, V t)) tests)) s' \<and>
    line_log sent (serial1 s') = line_log sent (serial1 s) @ test_transcript (info_text D) (map (\<lambda>t. (fst t, V t)) tests)"
proof -
  have "plain (concat [str_bytes ''Running '', decimal (length tests), str_bytes '' tests''])" by (simp add: plain_text)
  from completesD [OF serial_line_out_completes [OF this] assms(2)] obtain s1 where
    s1: "serial_line_out D [str_bytes ''Running '', decimal (length tests), str_bytes '' tests''] s = Returned () s1"
    "machine_ready D b (J 0) s1"
    "sends sent (concat [str_bytes ''Running '', decimal (length tests), str_bytes '' tests''] @ [0x0A]) s s1" by blast
  from tests_verdict [OF assms(1) s1(2), of k] s1(1,3) show ?thesis
    by (auto simp: test_runner_def sends_def test_transcript_def)
qed

text \<open>The tests of the library.\<close>

lemma println_many_completes: "completes D sent b J J (test_println_many D) []"
  unfolding test_println_many_def by (rule completes_each) (rule println_out_completes)

lemma breakpoint_completes: "completes D sent True J J (test_breakpoint_exception D) []"
proof -
  have "completes D sent True J J (deliver D 3) []"
    using deliver_ready [of 3 breakpoint_handler True J] by (intro completesI) auto
  from completes_bind [OF irq_point_completes this] show ?thesis
    by (simp add: test_breakpoint_exception_def int3_def [abs_def])
qed

lemma writeln_row:
  assumes w: "writer_wf w" and s: "0x0A \<notin> set s" "length s \<le> 80" "\<And>c. c \<in> set s \<Longrightarrow> vga_byte c = c"
  shows "\<exists>w'. write_fmt (vga_ops (shared D)) w [[0x0A], s, [0x0A]] = Ret (Some (), w') \<and> writer_wf w' \<and>
    (\<forall>i<length s. chars_read (vga_ops (shared D)) w' 23 i = Ret \<lparr>ascii_character = s ! i, char_color = writer_color w\<rparr>)"
proof -
  let ?v = "vga_ops (shared D)"
  from writeln_visible [OF volatile_cell_axioms w s(1,2)] obtain w' where
    w': "write_fmt ?v w [[0x0A], s, [0x0A]] = Ret (Some (), w')"
    "visible ?v w' = drop 2 (visible ?v w) @
      [map (\<lambda>b. \<lparr>ascii_character = vga_byte b, char_color = writer_color w\<rparr>) s @
         replicate (80 - length s) (blank (writer_color w)),
       replicate 80 (blank (writer_color w))]" by blast
  have wf: "writer_wf w'"
    using print_args_wf [OF volatile_cell_axioms w, of "[[0x0A], s, [0x0A]]"] w'(1)
    by (simp add: print_args_def del: write_fmt.simps)
  have "chars_read ?v w' 23 i = Ret (visible ?v w' ! 23 ! i)" if "i < 80" for i
    using wf that by (simp add: chars_read_def visible_def writer_wf_def)
  moreover have "visible ?v w' ! 23 ! i = \<lparr>ascii_character = s ! i, char_color = writer_color w\<rparr>" if "i < length s" for i
    using that s(3) visible_wf(1) [OF w] by (simp add: w'(2) nth_append)
  ultimately show ?thesis using w'(1) wf s(2) by auto
qed

lemma println_output_completes: "completes D sent b J J (test_println_output D) []"
proof -
  let ?s = "str_bytes ''Some test string that fits on a single line''"
  have str: "0x0A \<notin> set ?s" "length ?s \<le> 80" "\<And>c. c \<in> set ?s \<Longrightarrow> vga_byte c = c"
    by (auto simp: str_bytes_def of_char_def vga_byte_def)
  let ?check = "\<lambda>(i, c) s. run_bind (irq_point D s) (\<lambda>_.
       on_kernel (\<lambda>k.
         and_then (sub_usize BUFFER_HEIGHT 2) (\<lambda>row.
         and_then (chars_read (vga_ops (shared D)) (vga_writer k) (unat row) i) (\<lambda>screen_char.
         and_then (assert_that (ascii_character screen_char = c)) (\<lambda>_. Ret k)))))"
  have "completes D sent b J J (without_interrupts (\<lambda>s.
      run_bind (irq_point D s) (\<lambda>_ s.
      run_bind (on_kernel (\<lambda>k.
        and_then (write_fmt (vga_ops (shared D)) (vga_writer k) [[0x0A], ?s, [0x0A]]) (\<lambda>(r, w).
        and_then (expect ''writeln failed'' r) (\<lambda>_. Ret (k\<lparr>vga_writer := w\<rparr>)))) s) (\<lambda>_.
      run_each (enumerate 0 ?s) ?check)))) []"
  proof (rule completes_uninterrupted, goal_cases)
    case (1 s)
    then have "writer_wf (vga_writer (kern s))" by (simp add: machine_ready_def)
    from writeln_row [OF this str] obtain w' where
      w': "write_fmt (vga_ops (shared D)) (vga_writer (kern s)) [[0x0A], ?s, [0x0A]] = Ret (Some (), w')" "writer_wf w'"
      "\<And>i. i < length ?s \<Longrightarrow> chars_read (vga_ops (shared D)) w' 23 i = Ret \<lparr>ascii_character = ?s ! i, char_color = writer_color (vga_writer (kern s))\<rparr>"
      by blast
    let ?s' = "s\<lparr>kern := (kern s)\<lparr>vga_writer := w'\<rparr>\<rparr>"
    have "?check x ?s' = Returned () ?s'" if x: "x \<in> set (enumerate 0 ?s)" for x
    proof -
      obtain i where i: "x = (i, ?s ! i)" "i < length ?s" using x by (metis add.commute add_0 in_set_enumerate_eq prod.collapse le_add_diff_inverse)
      with 1(2) w'(3) [OF i(2)] show ?thesis by (simp add: on_kernel_def run_lift_def sub_usize_def BUFFER_HEIGHT_def)
    qed
    then have "\<exists>s''. run_each (enumerate 0 ?s) ?check ?s' = Returned () s'' \<and> s'' = ?s'"
      by (intro run_each_invariant) auto
    with 1 w'(1,2) show ?case
      by (auto simp: on_kernel_def run_lift_def machine_ready_def sends_def)
  qed
  from completes_bind [OF irq_point_completes this] show ?thesis
    by (simp add: test_println_output_def [abs_def] Let_def)
qed

lemma lib_test_completes:
  assumes "t \<in> set (lib_tests D)"
  shows "plain (fst t) \<and> completes D sent True J J (snd t) []"
  using assms println_out_completes println_many_completes println_output_completes breakpoint_completes
  by (auto simp: lib_tests_def test_println_simple_def plain_text)

end

subsection \<open>Properties\<close>

text \<open>
  C16. The verdict that reaches the host is right, for every schedule of interrupts: with
  tests that each pass or panic, \<open>test_runner\<close> under the panic handler ends the virtual
  machine, with status 33, the success code of \<open>Cargo.toml\<close>, exactly if all tests
  pass, and with 35 otherwise. The serial line carries the number of tests, the name of
  each test with \<open>[ok]\<close> in order and, for the first that panics, \<open>[failed]\<close> with
  the message; nothing that interrupt handlers print gets in between.
\<close>

theorem test_runner_verdict:
  assumes "platform D sent"
    and "\<forall>i<length tests. plain (fst (tests ! i)) \<and> behaves D sent b (J i) (J (Suc i)) (snd (tests ! i)) (V (tests ! i))"
    and "machine_ready D b (J 0) s"
  shows "\<exists>s'. with_panic_handler (test_panic_handler D) (run_bind (test_runner D tests s) (\<lambda>_. hlt_loop (irq_point D))) =
      Exited (test_status (map (\<lambda>t. (fst t, V t)) tests)) s' \<and>
    line_log sent (serial1 s') = line_log sent (serial1 s) @ test_transcript (info_text D) (map (\<lambda>t. (fst t, V t)) tests)"
  using assms by (rule platform.test_runner_verdict_law)

theorem test_runner_verdict_witness:
  "\<exists>s'. with_panic_handler (test_panic_handler list_devices) (run_bind (test_runner list_devices
      [(str_bytes ''a'', println_out list_devices [str_bytes ''A'']), (str_bytes ''b'', Panicked AssertionFailed)]
      (example_machine [[TimerTick]] ())) (\<lambda>_. hlt_loop (irq_point list_devices))) = Exited 35 s' \<and>
    line_log id (serial1 s') = test_transcript (info_text list_devices)
      [(str_bytes ''a'', [], None), (str_bytes ''b'', [], Some AssertionFailed)]"
proof -
  let ?V = "\<lambda>t. ([] :: u8 list, if fst t = str_bytes ''a'' then None else Some AssertionFailed)"
  have ab: "str_bytes ''b'' \<noteq> str_bytes ''a''" by (simp add: str_bytes_def of_char_def)
  have r: "machine_ready list_devices False (\<lambda>_. True) (example_machine [[TimerTick]] ())"
    by (rule example_machine_ready) (rule TrueI)
  let ?ts = "[(str_bytes ''a'', println_out list_devices [str_bytes ''A'']), (str_bytes ''b'', Panicked AssertionFailed)]"
  have "\<forall>i<length ?ts. plain (fst (?ts ! i)) \<and>
      behaves list_devices id False (\<lambda>_ :: unit. True) (\<lambda>_. True) (snd (?ts ! i)) (?V (?ts ! i))"
    using list_platform.println_out_completes ab by (simp add: behaves_def plain_text All_less_Suc)
  from test_runner_verdict [where J = "\<lambda>_ _. True", OF list_platform.platform_axioms this r] ab
  show ?thesis by (simp add: test_status_def id_def line_log_def example_machine_def)
qed

text \<open>
  C10. The tests of the library pass on the machine that \<open>init\<close> sets up, in whatever
  order they are collected and whenever timer and keyboard interrupts arrive:
  \<open>test_kernel_main\<close> ends with the success status and reports every test as
  \<open>[ok]\<close>. The breakpoint returns to the test; the 200 lines scroll without a panic;
  and no interrupt can print between the test line and the reading of its characters.
\<close>

theorem lib_tests_pass:
  assumes "platform D sent" and it: "init_tables N (idt_gate D) stack_table descriptor entries stack_end"
    and "machine_ready D False J s" and "set tests \<subseteq> set (lib_tests D)"
  shows "\<exists>s'. test_kernel_main D N tests s = Exited 33 s' \<and>
    line_log sent (serial1 s') = line_log sent (serial1 s) @ test_transcript (info_text D) (map (\<lambda>t. (fst t, [], None)) tests)"
proof -
  from platform.lib_init_ready [OF assms(1) it assms(3)] obtain s1 where
    s1: "lib_init D N s = Returned () s1" "machine_ready D True J s1" "line_log sent (serial1 s1) = line_log sent (serial1 s)"
    by (auto simp: undisturbed_def)
  have "\<forall>i<length tests. plain (fst (tests ! i)) \<and> behaves D sent True J J (snd (tests ! i)) ([], None)"
    using platform.lib_test_completes [OF assms(1) subsetD [OF assms(4) nth_mem]] by (simp add: behaves_def)
  from platform.test_runner_verdict_law [where J = "\<lambda>_. J", OF assms(1) this s1(2), of "\<lambda>_. hlt_loop (irq_point D)"] s1(1,3) show ?thesis
    by (auto simp: test_kernel_main_def test_status_def)
qed

theorem lib_tests_pass_witness:
  "\<exists>s'. test_kernel_main list_devices example_init (lib_tests list_devices)
      (example_machine [[TimerTick], [KeyPressed 30, TimerTick]] ()) = Exited 33 s'"
proof -
  have r: "machine_ready list_devices False (\<lambda>_. True) (example_machine [[TimerTick], [KeyPressed 30, TimerTick]] ())"
    by (rule example_machine_ready) (rule TrueI)
  from lib_tests_pass [OF list_platform.platform_axioms example_tables r order_refl] show ?thesis by (elim exE conjE) (rule exI)
qed

end
