(* ===== verification/Byte_Memory.thy ===== *)
theory Byte_Memory
  imports Prelude
begin

text \<open>
  The address space as the allocators use it: a byte per address, with the 64-bit loads
  and stores (little endian) through which list nodes are written into free memory, and
  extents of addresses. Disjointness of a collection of extents is stated by counting
  the owners of each address, which makes it independent of any order and additive over
  multiset union.
\<close>

type_synonym mem = "usize \<Rightarrow> u8"
type_synonym extent = "nat \<times> nat"

definition read_usize :: "mem \<Rightarrow> usize \<Rightarrow> usize" where
  "read_usize m a =
     horner_sum of_bool 2
       (concat (map (\<lambda>i. map (bit (m (a + of_nat i))) [0..<8]) [0..<8]))"

definition write_usize :: "mem \<Rightarrow> usize \<Rightarrow> usize \<Rightarrow> mem" where
  "write_usize m a v =
     (\<lambda>x. if x - a < 8 then ucast (drop_bit (8 * unat (x - a)) v) else m x)"

text \<open>An \<open>Option<&mut T>\<close> is one word, with \<open>None\<close> as the null pointer.\<close>

definition ptr_bits :: "usize option \<Rightarrow> usize" where
  "ptr_bits p = (case p of None \<Rightarrow> 0 | Some a \<Rightarrow> a)"

definition bits_ptr :: "usize \<Rightarrow> usize option" where
  "bits_ptr w = (if w = 0 then None else Some w)"

definition covers :: "nat \<Rightarrow> extent \<Rightarrow> bool" where
  "covers x e \<longleftrightarrow> fst e \<le> x \<and> x < fst e + snd e"

definition owners :: "extent multiset \<Rightarrow> nat \<Rightarrow> nat" where
  "owners E x = size (filter_mset (covers x) E)"

definition disjoint_extents :: "extent multiset \<Rightarrow> bool" where
  "disjoint_extents E \<longleftrightarrow> (\<forall>x. owners E x \<le> 1)"

text \<open>Two memories agree on every address that an extent of the collection covers.\<close>

definition same_on :: "extent multiset \<Rightarrow> mem \<Rightarrow> mem \<Rightarrow> bool" where
  "same_on E m m' \<longleftrightarrow> (\<forall>x. (\<exists>e\<in>#E. covers (unat x) e) \<longrightarrow> m x = m' x)"

subsection \<open>Loads and stores\<close>

lemma concat_blocks:
  "concat (map (\<lambda>i. map (\<lambda>n. f (w * i + n)) [0..<w]) [0..<k]) = map f [0..<w * k]"
proof (induction k)
  case 0
  then show ?case by simp
next
  case (Suc k)
  have "map (\<lambda>n. f (w * k + n)) [0..<w] = map f [w * k..<w * k + w]"
    by (rule nth_equalityI) auto
  moreover have "[0..<w * k + w] = [0..<w * k] @ [w * k..<w * k + w]"
    by (rule upt_add_eq_append) simp
  ultimately show ?case using Suc by (simp add: add.commute)
qed

lemma concat_bytes: "concat (map (\<lambda>i. map (\<lambda>n. f (8 * i + n)) [0..<8]) [0..<8]) = map f [0..<64]"
  using concat_blocks [of f 8 8] by simp

lemma write_usize_byte:
  assumes "i < 8"
  shows "write_usize m a v (a + of_nat i) = ucast (drop_bit (8 * i) v)"
proof -
  have "unat (of_nat i :: usize) = i" using assms by (simp add: unat_of_nat)
  moreover from this assms have "(of_nat i :: usize) < 8" by (simp add: word_less_nat_alt)
  ultimately show ?thesis by (simp add: write_usize_def)
qed

lemma read_write_same [simp]: "read_usize (write_usize m a v) a = v"
proof -
  have "map (bit (write_usize m a v (a + of_nat i))) [0..<8] = map (\<lambda>n. bit v (8 * i + n)) [0..<8]"
    if "i < 8" for i
    using that by (auto simp: write_usize_byte bit_simps)
  then have "concat (map (\<lambda>i. map (bit (write_usize m a v (a + of_nat i))) [0..<8]) [0..<8])
      = concat (map (\<lambda>i. map (\<lambda>n. bit v (8 * i + n)) [0..<8]) [0..<8])"
    by (intro arg_cong [where f = concat] map_cong) auto
  also have "\<dots> = map (bit v) [0..<64]" by (rule concat_bytes)
  finally show ?thesis
    by (simp add: read_usize_def horner_sum_bit_eq_take_bit take_bit_word_eq_self)
qed

lemma unat_offset:
  fixes a :: usize
  assumes "unat a + 8 \<le> 2 ^ 64" and "i < 8"
  shows "unat (a + of_nat i) = unat a + i"
proof -
  have "unat (of_nat i :: usize) = i" using assms by (simp add: unat_of_nat)
  with assms show ?thesis by (simp add: unat_add_exact)
qed

lemma read_usize_cong:
  assumes "unat a + 8 \<le> 2 ^ 64"
    and "\<And>x. covers (unat x) (unat a, 8) \<Longrightarrow> m x = m' x"
  shows "read_usize m a = read_usize m' a"
proof -
  have "m (a + of_nat i) = m' (a + of_nat i)" if "i < 8" for i
    using assms that by (intro assms(2)) (simp add: covers_def unat_offset)
  then show ?thesis
    unfolding read_usize_def
    by (intro arg_cong [where f = "horner_sum of_bool 2"] arg_cong [where f = concat] map_cong) auto
qed

lemma offset_less_iff:
  fixes a x :: usize
  assumes "unat a + 8 \<le> 2 ^ 64"
  shows "x - a < 8 \<longleftrightarrow> covers (unat x) (unat a, 8)"
proof (cases "a \<le> x")
  case True
  then show ?thesis
    by (auto simp: covers_def word_less_nat_alt word_le_nat_alt unat_sub)
next
  case False
  then have "unat x < unat a" by (simp add: word_le_nat_alt)
  then have "unat (x - a) = 2 ^ 64 + unat x - unat a"
    by (simp add: unat_sub_if')
  with \<open>unat x < unat a\<close> assms show ?thesis
    by (auto simp: covers_def word_less_nat_alt)
qed

lemma write_usize_other:
  assumes "unat a + 8 \<le> 2 ^ 64" and "\<not> covers (unat x) (unat a, 8)"
  shows "write_usize m a v x = m x"
  using assms by (simp add: write_usize_def offset_less_iff)

lemma read_write_other:
  assumes "unat a + 8 \<le> 2 ^ 64" and "unat b + 8 \<le> 2 ^ 64"
    and "unat a + 8 \<le> unat b \<or> unat b + 8 \<le> unat a"
  shows "read_usize (write_usize m a v) b = read_usize m b"
  using assms by (intro read_usize_cong write_usize_other) (auto simp: covers_def)

lemma bits_ptr_bits [simp]: "p \<noteq> Some 0 \<Longrightarrow> bits_ptr (ptr_bits p) = p"
  by (auto simp: bits_ptr_def ptr_bits_def split: option.splits)

lemma ptr_bits_0 [simp]: "ptr_bits (bits_ptr w) = w"
  by (simp add: bits_ptr_def ptr_bits_def)

lemma bits_ptr_nonnull [simp]: "bits_ptr w \<noteq> Some 0"
  by (simp add: bits_ptr_def)

subsection \<open>Owners of an address\<close>

lemma owners_empty [simp]: "owners {#} x = 0"
  by (simp add: owners_def)

lemma owners_add [simp]: "owners (add_mset e E) x = of_bool (covers x e) + owners E x"
  by (simp add: owners_def)

lemma owners_union [simp]: "owners (E + F) x = owners E x + owners F x"
  by (simp add: owners_def)

lemma disjoint_extentsD:
  assumes "disjoint_extents (add_mset e E)" and "f \<in># E" and "covers x e"
  shows "\<not> covers x f"
proof
  assume "covers x f"
  obtain F where "E = add_mset f F" using \<open>f \<in># E\<close> by (metis multi_member_split)
  then have "owners (add_mset e E) x \<ge> 2" using \<open>covers x e\<close> \<open>covers x f\<close> by simp
  moreover have "owners (add_mset e E) x \<le> 1" using assms(1) unfolding disjoint_extents_def by blast
  ultimately show False by simp
qed

lemma owners_zero: "(\<And>e. e \<in># E \<Longrightarrow> \<not> covers x e) \<Longrightarrow> owners E x = 0"
  by (auto simp: owners_def)

lemma disjoint_extents_add:
  assumes "disjoint_extents E" and "\<And>x f. covers x e \<Longrightarrow> f \<in># E \<Longrightarrow> \<not> covers x f"
  shows "disjoint_extents (add_mset e E)"
  unfolding disjoint_extents_def
proof
  fix x
  show "owners (add_mset e E) x \<le> 1"
  proof (cases "covers x e")
    case True
    then have "owners E x = 0" by (intro owners_zero assms(2))
    with True show ?thesis by simp
  next
    case False
    with assms(1) show ?thesis by (simp add: disjoint_extents_def)
  qed
qed

lemma disjoint_union_covers:
  assumes "disjoint_extents (E + F)" and "e \<in># E" and "f \<in># F" and "covers x e"
  shows "\<not> covers x f"
proof -
  obtain E' where "E = add_mset e E'" using assms(2) by (metis multi_member_split)
  with assms show ?thesis using disjoint_extentsD [of e "E' + F" f x] by simp
qed

text \<open>An extent may be replaced by extents that share it out.\<close>

lemma disjoint_replace:
  assumes "disjoint_extents (add_mset e E)" and "\<And>x. owners F x \<le> of_bool (covers x e)"
  shows "disjoint_extents (F + E)"
  unfolding disjoint_extents_def
proof
  fix x
  have "owners (F + E) x \<le> owners (add_mset e E) x" using assms(2) [of x] by simp
  also have "\<dots> \<le> 1" using assms(1) unfolding disjoint_extents_def by blast
  finally show "owners (F + E) x \<le> 1" .
qed

lemma owners_image_mono:
  assumes "\<And>b. b \<in># bs \<Longrightarrow> covers x (f b) \<Longrightarrow> covers x (g b)"
  shows "owners (image_mset f bs) x \<le> owners (image_mset g bs) x"
  using assms by (induction bs) (auto simp: of_bool_def)

lemma disjoint_image_mono:
  assumes "disjoint_extents (image_mset g bs)"
    and "\<And>b x. b \<in># bs \<Longrightarrow> covers x (f b) \<Longrightarrow> covers x (g b)"
  shows "disjoint_extents (image_mset f bs)"
  using assms owners_image_mono [of bs _ f g] unfolding disjoint_extents_def by (meson le_trans)

lemma disjoint_extents_empty [simp]: "disjoint_extents {#}"
  by (simp add: disjoint_extents_def)

lemma owners_mono: "E \<subseteq># F \<Longrightarrow> owners E x \<le> owners F x"
  unfolding owners_def by (intro size_mset_mono multiset_filter_mono)

lemma disjoint_extents_mono: "disjoint_extents F \<Longrightarrow> E \<subseteq># F \<Longrightarrow> disjoint_extents E"
  unfolding disjoint_extents_def by (meson le_trans owners_mono)

subsection \<open>Agreement of memories\<close>

lemma same_on_refl [simp]: "same_on E m m"
  by (simp add: same_on_def)

lemma same_on_trans: "same_on E m m' \<Longrightarrow> same_on E m' m'' \<Longrightarrow> same_on E m m''"
  unfolding same_on_def by metis

lemma same_on_mono: "same_on F m m' \<Longrightarrow> set_mset E \<subseteq> set_mset F \<Longrightarrow> same_on E m m'"
  unfolding same_on_def by blast

end
