(* ===== verification/Alloc_Layout.thy ===== *)
theory Alloc_Layout
  imports Byte_Memory
begin

text \<open>
  What the allocators use of \<open>core::alloc\<close>: the \<open>Layout\<close> type with its checked
  constructor, \<open>align_to\<close> and \<open>pad_to_align\<close>; the blocks that are live from the
  point of view of the allocator's client; and the interface \<open>GlobalAlloc\<close> as a
  locale, with what a client may conclude from it about any sequence of allocations,
  deallocations and stores.
\<close>

record layout =
  layout_size :: usize
  layout_align :: usize

definition isize_max :: nat where
  "isize_max = 2 ^ 63 - 1"

definition layout_wf :: "layout \<Rightarrow> bool" where
  "layout_wf l \<longleftrightarrow> is_power_of_two (layout_align l) \<and>
     unat (layout_size l) + (unat (layout_align l) - 1) \<le> isize_max"

definition from_size_align :: "usize \<Rightarrow> usize \<Rightarrow> layout option" where
  "from_size_align sz align =
     (let l = \<lparr>layout_size = sz, layout_align = align\<rparr>
      in if layout_wf l then Some l else None)"

definition align_to :: "layout \<Rightarrow> usize \<Rightarrow> layout option" where
  "align_to l align = from_size_align (layout_size l) (max (layout_align l) align)"

definition pad_to_align :: "layout \<Rightarrow> layout" where
  "pad_to_align l =
     l\<lparr>layout_size := (layout_size l + layout_align l - 1) AND NOT (layout_align l - 1)\<rparr>"

text \<open>
  \<open>GlobalAlloc::alloc\<close> requires of its caller that the layout has a non-zero size.
\<close>

definition valid_request :: "layout \<Rightarrow> bool" where
  "valid_request l \<longleftrightarrow> layout_wf l \<and> 0 < layout_size l"

subsection \<open>Live blocks\<close>

type_synonym block = "usize \<times> layout"

definition block_extent :: "block \<Rightarrow> extent" where
  "block_extent b = (unat (fst b), unat (layout_size (snd b)))"

abbreviation extents :: "block multiset \<Rightarrow> extent multiset" where
  "extents bs \<equiv> image_mset block_extent bs"

definition placed :: "nat \<Rightarrow> nat \<Rightarrow> block \<Rightarrow> bool" where
  "placed lo hi b \<longleftrightarrow> valid_request (snd b) \<and>
     unat (layout_align (snd b)) dvd unat (fst b) \<and>
     lo \<le> unat (fst b) \<and> unat (fst b) + unat (layout_size (snd b)) \<le> hi"

definition live_ok :: "nat \<Rightarrow> nat \<Rightarrow> block multiset \<Rightarrow> bool" where
  "live_ok lo hi bs \<longleftrightarrow> (\<forall>b\<in>#bs. placed lo hi b) \<and> disjoint_extents (extents bs)"

text \<open>
  A heap region that the allocators can be initialised with: it does not contain
  address 0, it lies in the lower half of the address space, it starts at a multiple of
  8 and it has room for one list node.
\<close>

definition heap_region_ok :: "usize \<Rightarrow> usize \<Rightarrow> bool" where
  "heap_region_ok start sz \<longleftrightarrow> 0 < start \<and> 8 dvd unat start \<and>
     16 \<le> unat sz \<and> unat start + unat sz \<le> isize_max"

subsection \<open>Facts on layouts\<close>

lemma layout_wf_align: "layout_wf l \<Longrightarrow> is_power_of_two (layout_align l)"
  by (simp add: layout_wf_def)

lemma layout_wf_bound:
  assumes "layout_wf l"
  shows "unat (layout_size l) + unat (layout_align l) \<le> 2 ^ 63"
  using assms power_of_two_pos [of "layout_align l"]
  by (auto simp: layout_wf_def isize_max_def)

lemma from_size_align_Some:
  "from_size_align s a = Some l \<longleftrightarrow>
     l = \<lparr>layout_size = s, layout_align = a\<rparr> \<and> layout_wf l"
  by (auto simp: from_size_align_def Let_def)

lemma pad_to_align_size:
  assumes "layout_wf l"
  shows "unat (layout_size (pad_to_align l)) = round_up (unat (layout_size l)) (unat (layout_align l))"
  using layout_wf_bound [OF assms] layout_wf_align [OF assms]
  by (simp add: pad_to_align_def unat_round_up_mask)

lemma pad_to_align_align [simp]: "layout_align (pad_to_align l) = layout_align l"
  by (simp add: pad_to_align_def)

subsection \<open>Facts on live blocks\<close>

lemma live_ok_empty [simp]: "live_ok lo hi {#}"
  by (simp add: live_ok_def)

lemma placed_mono: "placed lo hi b \<Longrightarrow> lo' \<le> lo \<Longrightarrow> hi \<le> hi' \<Longrightarrow> placed lo' hi' b"
  by (auto simp: placed_def)

lemma live_ok_mono: "live_ok lo hi bs \<Longrightarrow> lo' \<le> lo \<Longrightarrow> hi \<le> hi' \<Longrightarrow> live_ok lo' hi' bs"
  by (auto simp: live_ok_def intro: placed_mono)

lemma live_ok_remove: "live_ok lo hi bs \<Longrightarrow> live_ok lo hi (bs - {#b#})"
  unfolding live_ok_def
  by (meson disjoint_extents_mono diff_subset_eq_self image_mset_subseteq_mono in_diffD)

lemma live_ok_add:
  assumes "live_ok lo hi bs" and "placed lo hi b"
    and "\<And>x c. covers x (block_extent b) \<Longrightarrow> c \<in># bs \<Longrightarrow> \<not> covers x (block_extent c)"
  shows "live_ok lo hi (add_mset b bs)"
  using assms by (auto simp: live_ok_def intro!: disjoint_extents_add)

lemma covers_placed: "placed lo hi b \<Longrightarrow> covers x (block_extent b) \<Longrightarrow> lo \<le> x \<and> x < hi"
  by (auto simp: placed_def covers_def block_extent_def)

lemma size_le_total:
  assumes "\<forall>b\<in>#bs. 0 < f b"
  shows "size bs \<le> (\<Sum>b\<in>#bs. f b :: nat)"
  using assms by (induction bs) auto

end
