(* ===== verification/Global_Alloc.thy ===== *)
theory Global_Alloc
  imports Alloc_Layout
begin

text \<open>
  The interface \<open>GlobalAlloc\<close> as a locale, and a client of it: a program that
  allocates, frees blocks it holds and stores bytes into blocks it holds. Inside the
  locale it is shown once, for every allocator that keeps the contract, that no such
  program makes the allocator panic or diverge, that its live blocks never overlap, and
  that every byte it stored is still there until it overwrites it or frees the block.
\<close>

type_synonym 's alloc_fn = "'s \<Rightarrow> mem \<Rightarrow> layout \<Rightarrow> (usize \<times> 's \<times> mem) outcome"
type_synonym 's dealloc_fn = "'s \<Rightarrow> mem \<Rightarrow> usize \<Rightarrow> layout \<Rightarrow> ('s \<times> mem) outcome"

datatype heap_op = AllocOp layout | DeallocOp usize layout | StoreOp usize u8

record 's client =
  allocator :: 's
  memory :: mem
  live :: "block multiset"
  stored :: "usize \<rightharpoonup> u8"

definition held :: "block multiset \<Rightarrow> usize \<Rightarrow> bool" where
  "held bs x \<longleftrightarrow> (\<exists>e\<in>#extents bs. covers (unat x) e)"

text \<open>
  A step of the client. A request the client is not entitled to make (a layout outside
  \<open>req\<close>, a block it does not hold, a byte outside its blocks) is not made: the theorems
  about clients are about programs all of whose layouts are in \<open>req\<close>, and say nothing
  about what an allocator does with the others.
\<close>

fun client_step ::
  "(layout \<Rightarrow> bool) \<Rightarrow> 's alloc_fn \<Rightarrow> 's dealloc_fn \<Rightarrow> heap_op \<Rightarrow> 's client \<Rightarrow> 's client outcome" where
  "client_step req alloc dealloc (AllocOp l) c =
     (if req l then
        and_then (alloc (allocator c) (memory c) l) (\<lambda>(p, s, m).
          Ret (c\<lparr>allocator := s, memory := m,
                 live := (if p = 0 then live c else add_mset (p, l) (live c))\<rparr>))
      else Ret c)"
| "client_step req alloc dealloc (DeallocOp p l) c =
     (if (p, l) \<in># live c then
        and_then (dealloc (allocator c) (memory c) p l) (\<lambda>(s, m).
          Ret (c\<lparr>allocator := s, memory := m, live := live c - {#(p, l)#},
                 stored := (\<lambda>x. if covers (unat x) (block_extent (p, l)) then None
                                else stored c x)\<rparr>))
      else Ret c)"
| "client_step req alloc dealloc (StoreOp a v) c =
     (if held (live c) a then
        Ret (c\<lparr>memory := (memory c)(a := v), stored := (stored c)(a \<mapsto> v)\<rparr>)
      else Ret c)"

definition client_run ::
  "(layout \<Rightarrow> bool) \<Rightarrow> 's alloc_fn \<Rightarrow> 's dealloc_fn \<Rightarrow> heap_op list \<Rightarrow> 's client \<Rightarrow> 's client outcome" where
  "client_run req alloc dealloc ops c = for_each ops (client_step req alloc dealloc) c"

text \<open>What the client relies on: its blocks are sound and its stored bytes are intact.\<close>

definition client_ok :: "nat \<Rightarrow> nat \<Rightarrow> 's client \<Rightarrow> bool" where
  "client_ok lo hi c \<longleftrightarrow> live_ok lo hi (live c) \<and>
     (\<forall>x v. stored c x = Some v \<longrightarrow> held (live c) x \<and> memory c x = v)"

definition fresh_client :: "'s \<Rightarrow> mem \<Rightarrow> 's client" where
  "fresh_client s m = \<lparr>allocator = s, memory = m, live = {#}, stored = Map.empty\<rparr>"

lemma held_add [simp]:
  "held (add_mset b bs) x \<longleftrightarrow> covers (unat x) (block_extent b) \<or> held bs x"
  by (auto simp: held_def)

lemma held_remove:
  assumes "b \<in># bs" and "held bs x" and "\<not> covers (unat x) (block_extent b)"
  shows "held (bs - {#b#}) x"
  using assms by (metis held_add insert_DiffM)

lemma same_on_extents: "same_on (extents bs) m m' \<longleftrightarrow> (\<forall>x. held bs x \<longrightarrow> m' x = m x)"
  by (auto simp: same_on_def held_def)

text \<open>
  The contract, for the layouts \<open>req\<close> that the allocator accepts.
  \<open>inv lo hi s m bs\<close> relates an allocator state over the heap
  \<open>[lo, hi)\<close> and the memory to the blocks that are live.
\<close>

locale global_alloc =
  fixes req :: "layout \<Rightarrow> bool"
    and alloc :: "'s alloc_fn"
    and dealloc :: "'s dealloc_fn"
    and inv :: "nat \<Rightarrow> nat \<Rightarrow> 's \<Rightarrow> mem \<Rightarrow> block multiset \<Rightarrow> bool"
  assumes inv_live: "inv lo hi s m bs \<Longrightarrow> live_ok lo hi bs"
    and alloc_law: "inv lo hi s m bs \<Longrightarrow> req l \<Longrightarrow>
      \<exists>p s' m'. alloc s m l = Ret (p, s', m') \<and> same_on (extents bs) m m' \<and>
        inv lo hi s' m' (if p = 0 then bs else add_mset (p, l) bs)"
    and dealloc_law: "inv lo hi s m bs \<Longrightarrow> (p, l) \<in># bs \<Longrightarrow>
      \<exists>s' m'. dealloc s m p l = Ret (s', m') \<and> same_on (extents (bs - {#(p, l)#})) m m' \<and>
        inv lo hi s' m' (bs - {#(p, l)#})"
    and store_law: "inv lo hi s m bs \<Longrightarrow> (\<And>x. \<not> held bs x \<Longrightarrow> m' x = m x) \<Longrightarrow> inv lo hi s m' bs"
begin

definition client_inv :: "nat \<Rightarrow> nat \<Rightarrow> 's client \<Rightarrow> bool" where
  "client_inv lo hi c \<longleftrightarrow> inv lo hi (allocator c) (memory c) (live c) \<and>
     (\<forall>x v. stored c x = Some v \<longrightarrow> held (live c) x \<and> memory c x = v)"

lemma client_inv_ok: "client_inv lo hi c \<Longrightarrow> client_ok lo hi c"
  by (auto simp: client_inv_def client_ok_def dest: inv_live)

lemma client_step_alloc:
  assumes "client_inv lo hi c"
  shows "\<exists>c'. client_step req alloc dealloc (AllocOp l) c = Ret c' \<and> client_inv lo hi c'"
proof (cases "req l")
  case True
  have I: "inv lo hi (allocator c) (memory c) (live c)"
    using assms by (simp add: client_inv_def)
  obtain p s' m' where r: "alloc (allocator c) (memory c) l = Ret (p, s', m')"
    and same: "same_on (extents (live c)) (memory c) m'"
    and I': "inv lo hi s' m' (if p = 0 then live c else add_mset (p, l) (live c))"
    using alloc_law [OF I True] by blast
  let ?c = "c\<lparr>allocator := s', memory := m',
    live := (if p = 0 then live c else add_mset (p, l) (live c))\<rparr>"
  have "client_step req alloc dealloc (AllocOp l) c = Ret ?c"
    using True r by simp
  moreover have "client_inv lo hi ?c"
    using assms I' same by (auto simp add: client_inv_def same_on_extents)
  ultimately show ?thesis by blast
next
  case False
  with assms show ?thesis by simp
qed

lemma client_step_dealloc:
  assumes "client_inv lo hi c"
  shows "\<exists>c'. client_step req alloc dealloc (DeallocOp p l) c = Ret c' \<and> client_inv lo hi c'"
proof (cases "(p, l) \<in># live c")
  case True
  have I: "inv lo hi (allocator c) (memory c) (live c)"
    using assms by (simp add: client_inv_def)
  obtain s' m' where r: "dealloc (allocator c) (memory c) p l = Ret (s', m')"
    and same: "same_on (extents (live c - {#(p, l)#})) (memory c) m'"
    and I': "inv lo hi s' m' (live c - {#(p, l)#})"
    using dealloc_law [OF I True] by blast
  let ?c = "c\<lparr>allocator := s', memory := m', live := live c - {#(p, l)#},
    stored := (\<lambda>x. if covers (unat x) (block_extent (p, l)) then None else stored c x)\<rparr>"
  have "client_step req alloc dealloc (DeallocOp p l) c = Ret ?c"
    using True r by simp
  moreover have "client_inv lo hi ?c"
    using assms I' same held_remove [OF True] by (auto simp add: client_inv_def same_on_extents)
  ultimately show ?thesis by blast
next
  case False
  with assms show ?thesis by simp
qed

lemma client_step_inv:
  assumes "client_inv lo hi c"
  shows "\<exists>c'. client_step req alloc dealloc op c = Ret c' \<and> client_inv lo hi c'"
proof (cases op)
  case (StoreOp a v)
  have "inv lo hi (allocator c) ((memory c)(a := v)) (live c)" if "held (live c) a"
    using assms that by (auto simp: client_inv_def intro: store_law)
  with assms StoreOp show ?thesis by (simp add: client_inv_def)
qed (use assms client_step_alloc client_step_dealloc in auto)

lemma client_run_inv:
  assumes "client_inv lo hi c"
  shows "\<exists>c'. client_run req alloc dealloc ops c = Ret c' \<and> client_inv lo hi c'"
  unfolding client_run_def using assms
proof (induction ops arbitrary: c)
  case Nil
  then show ?case by simp
next
  case (Cons op ops)
  from client_step_inv [OF Cons.prems] obtain c'
    where "client_step req alloc dealloc op c = Ret c'" and "client_inv lo hi c'" by blast
  with Cons.IH [OF this(2)] show ?case by simp
qed

theorem client_run_ok:
  assumes "inv lo hi s m {#}"
  shows "\<exists>c. client_run req alloc dealloc ops (fresh_client s m) = Ret c \<and> client_ok lo hi c"
proof -
  have "client_inv lo hi (fresh_client s m)"
    using assms by (simp add: client_inv_def fresh_client_def)
  then show ?thesis using client_run_inv client_inv_ok by blast
qed

end

text \<open>
  Two further contracts. An allocator is roomy if it can say how much memory it has in
  one piece: \<open>room lo hi n s m bs\<close> holds when \<open>n\<close> contiguous bytes are free, a
  request that needs at most that succeeds, and takes no more than it needs. It reuses
  memory if a layout that was just freed can be allocated again, at no cost of room.
\<close>

locale roomy_alloc = global_alloc req alloc dealloc inv
  for req :: "layout \<Rightarrow> bool" and alloc :: "'s alloc_fn" and dealloc :: "'s dealloc_fn"
    and inv :: "nat \<Rightarrow> nat \<Rightarrow> 's \<Rightarrow> mem \<Rightarrow> block multiset \<Rightarrow> bool" +
  fixes need :: "layout \<Rightarrow> nat"
    and room :: "nat \<Rightarrow> nat \<Rightarrow> nat \<Rightarrow> 's \<Rightarrow> mem \<Rightarrow> block multiset \<Rightarrow> bool"
  assumes room_inv: "room lo hi n s m bs \<Longrightarrow> inv lo hi s m bs"
    and room_mono: "room lo hi n s m bs \<Longrightarrow> k \<le> n \<Longrightarrow> room lo hi k s m bs"
    and room_alloc: "room lo hi n s m bs \<Longrightarrow> req l \<Longrightarrow> need l \<le> n \<Longrightarrow>
      \<exists>p s' m'. alloc s m l = Ret (p, s', m') \<and> p \<noteq> 0 \<and> room lo hi (n - need l) s' m' (add_mset (p, l) bs)"
    and room_dealloc: "room lo hi n s m bs \<Longrightarrow> (p, l) \<in># bs \<Longrightarrow> dealloc s m p l = Ret (s', m') \<Longrightarrow>
      room lo hi n s' m' (bs - {#(p, l)#})"
    and room_store: "room lo hi n s m bs \<Longrightarrow> (\<And>x. \<not> held bs x \<Longrightarrow> m' x = m x) \<Longrightarrow> room lo hi n s m' bs"

locale reusing_alloc = roomy_alloc req alloc dealloc inv need room
  for req :: "layout \<Rightarrow> bool" and alloc :: "'s alloc_fn" and dealloc :: "'s dealloc_fn"
    and inv :: "nat \<Rightarrow> nat \<Rightarrow> 's \<Rightarrow> mem \<Rightarrow> block multiset \<Rightarrow> bool"
    and need :: "layout \<Rightarrow> nat" and room :: "nat \<Rightarrow> nat \<Rightarrow> nat \<Rightarrow> 's \<Rightarrow> mem \<Rightarrow> block multiset \<Rightarrow> bool" +
  assumes reuse_law: "room lo hi n s m bs \<Longrightarrow> req l \<Longrightarrow> (p, l) \<in># bs \<Longrightarrow> dealloc s m p l = Ret (s', m') \<Longrightarrow>
      \<exists>q s'' m''. alloc s' m' l = Ret (q, s'', m'') \<and> q \<noteq> 0 \<and>
        room lo hi n s'' m'' (add_mset (q, l) (bs - {#(p, l)#}))"

end
