(* ===== verification/Allocator.thy ===== *)
theory Allocator
  imports Global_Alloc
begin

text \<open>
  The parent module \<open>src/allocator.rs\<close>: the heap region, \<open>align_up\<close>, and the
  \<open>Dummy\<close> allocator. \<open>Locked\<close> is transparent here: every operation of an
  allocator runs under its lock from beginning to end, so the model is the operation on
  the wrapped value.
\<close>

definition HEAP_START :: usize where
  "HEAP_START = 0x444444440000"

definition HEAP_SIZE :: usize where
  "HEAP_SIZE = 100 * 1024"

definition align_up :: "usize \<Rightarrow> usize \<Rightarrow> usize outcome" where
  "align_up addr align =
     and_then (add_usize addr align) (\<lambda>s.
     and_then (sub_usize s 1) (\<lambda>s'.
     and_then (sub_usize align 1) (\<lambda>m.
     Ret (s' AND NOT m))))"

text \<open>
  The remainder form, from the comment in \<open>align_up\<close> that explains the bitmask. It is not
  compiled; here it is the reference to which \<open>align_up\<close> is compared.
\<close>

definition align_up_remainder :: "usize \<Rightarrow> usize \<Rightarrow> usize outcome" where
  "align_up_remainder addr align =
     (let remainder = addr mod align
      in if remainder = 0 then Ret addr
         else and_then (sub_usize addr remainder) (\<lambda>d. add_usize d align))"

text \<open>The \<open>Dummy\<close> allocator has no state.\<close>

definition dummy_alloc :: "unit alloc_fn" where
  "dummy_alloc s m l = Ret (0, s, m)"

definition dummy_dealloc :: "unit dealloc_fn" where
  "dummy_dealloc s m p l = Panic (ExplicitPanic ''dealloc should be never called'')"

lemma heap_region_ok_HEAP: "heap_region_ok HEAP_START HEAP_SIZE"
  by (simp add: heap_region_ok_def HEAP_START_def HEAP_SIZE_def isize_max_def)

subsection \<open>Alignment\<close>

lemma align_up_Ret:
  assumes "is_power_of_two align" and "unat addr + unat align < 2 ^ 64"
  shows "\<exists>r. align_up addr align = Ret r \<and> unat r = round_up (unat addr) (unat align)"
proof -
  have pos: "0 < unat align" using assms(1) by (rule power_of_two_pos)
  with assms(2) have "1 \<le> addr + align"
    by (simp add: word_le_nat_alt unat_add_exact)
  moreover from pos have "1 \<le> align" by (simp add: word_le_nat_alt)
  ultimately have "align_up addr align = Ret ((addr + align - 1) AND NOT (align - 1))"
    using assms(2) by (simp add: align_up_def add_usize_def sub_usize_def)
  with unat_round_up_mask [OF assms(1), of addr] assms(2) show ?thesis by simp
qed

lemma align_up_overflow:
  assumes "2 ^ 64 \<le> unat addr + unat align"
  shows "align_up addr align = Panic ArithmeticOverflow"
  using assms by (simp add: align_up_def add_usize_def)

lemma align_up_aligned:
  assumes "is_power_of_two align" and "unat addr + unat align < 2 ^ 64"
    and "unat align dvd unat addr"
  shows "align_up addr align = Ret addr"
proof -
  from align_up_Ret [OF assms(1,2)] obtain r
    where "align_up addr align = Ret r" and "unat r = round_up (unat addr) (unat align)" by blast
  with assms power_of_two_pos [of align] show ?thesis by (simp add: round_up_self word_unat_eq_iff)
qed

lemma align_up_dvd:
  assumes "is_power_of_two align" and "align_up addr align = Ret r"
  shows "unat align dvd unat r" and "unat addr \<le> unat r" and "unat r < unat addr + unat align"
proof -
  have "unat addr + unat align < 2 ^ 64"
    using assms(2) align_up_overflow [of addr align] by (cases "2 ^ 64 \<le> unat addr + unat align") auto
  with align_up_Ret [OF assms(1)] assms(2) have "unat r = round_up (unat addr) (unat align)" by fastforce
  then show "unat align dvd unat r" and "unat addr \<le> unat r" and "unat r < unat addr + unat align"
    using power_of_two_pos [OF assms(1)] by (auto simp: round_up_ge round_up_less)
qed

text \<open>
  C34. \<open>align_up\<close> returns the least multiple of the alignment that is not below the
  address, for every power-of-two alignment and every address whose sum with it does not
  overflow; in the remaining cases it panics.
\<close>

theorem align_up_least:
  assumes "is_power_of_two align"
  shows "align_up addr align =
    (if unat addr + unat align < 2 ^ 64
     then Ret (of_nat (LEAST x. unat align dvd x \<and> unat addr \<le> x))
     else Panic ArithmeticOverflow)"
proof (cases "unat addr + unat align < 2 ^ 64")
  case True
  from align_up_Ret [OF assms True] obtain r
    where r: "align_up addr align = Ret r" "unat r = round_up (unat addr) (unat align)" by blast
  have "(LEAST x. unat align dvd x \<and> unat addr \<le> x) = round_up (unat addr) (unat align)"
    using power_of_two_pos [OF assms]
    by (intro Least_equality) (auto simp: round_up_ge round_up_least)
  with r have "of_nat (LEAST x. unat align dvd x \<and> unat addr \<le> x) = r"
    by (metis of_nat_unat ucast_id)
  with r True show ?thesis by simp
next
  case False
  then show ?thesis by (simp add: align_up_overflow)
qed

theorem align_up_least_witness:
  "is_power_of_two 16 \<and> align_up 1001 16 = Ret 1008 \<and>
   (LEAST x. (16::nat) dvd x \<and> 1001 \<le> x) mod 2 ^ 64 = 1008"
proof -
  have p: "is_power_of_two 16" by simp
  have r: "align_up 1001 16 = Ret 1008"
    by (simp add: align_up_def add_usize_def sub_usize_def)
  with align_up_least [OF p, of 1001]
  have "(of_nat (LEAST x. (16::nat) dvd x \<and> 1001 \<le> x) :: usize) = 1008" by simp
  then have "unat (of_nat (LEAST x. (16::nat) dvd x \<and> 1001 \<le> x) :: usize) = 1008" by simp
  with p r show ?thesis by (simp add: unat_of_nat)
qed

lemma align_up_remainder_eq:
  assumes "is_power_of_two align" and "unat addr + unat align < 2 ^ 64"
  shows "align_up addr align = align_up_remainder addr align"
proof -
  from align_up_Ret [OF assms] obtain r
    where r: "align_up addr align = Ret r" "unat r = round_up (unat addr) (unat align)" by blast
  have pos: "0 < unat align" using assms(1) by (rule power_of_two_pos)
  show ?thesis
  proof (cases "unat align dvd unat addr")
    case True
    then have "addr mod align = 0"
      by (simp add: word_arith_nat_mod dvd_eq_mod_eq_0)
    then show ?thesis
      using align_up_aligned [OF assms True] by (simp add: align_up_remainder_def)
  next
    case False
    let ?k = "unat align" and ?n = "unat addr"
    have mod: "unat (addr mod align) = ?n mod ?k" by (simp add: unat_mod)
    with False have nz: "addr mod align \<noteq> 0" by (metis dvd_eq_mod_eq_0 unat_0)
    have le: "addr mod align \<le> addr" by (simp add: word_le_nat_alt mod)
    then have d: "unat (addr - addr mod align) = ?n - ?n mod ?k" by (simp add: unat_sub mod)
    then have s: "unat (addr - addr mod align) + ?k < 2 ^ 64" using assms(2) by simp
    have "round_up ?n ?k = ?n - ?n mod ?k + ?k"
      using pos False by (rule round_up_not_dvd)
    with r d s have "unat r = unat (addr - addr mod align + align)"
      by (simp add: unat_add_exact)
    then have "r = addr - addr mod align + align" by (simp add: word_unat_eq_iff)
    with r le nz s show ?thesis
      by (simp add: align_up_remainder_def Let_def sub_usize_def add_usize_def)
  qed
qed

lemma align_up_remainder_top:
  assumes "is_power_of_two align" and "2 ^ 64 \<le> unat addr + unat align"
  shows "align_up_remainder addr align = (if unat align dvd unat addr then Ret addr else Panic ArithmeticOverflow)"
proof -
  let ?k = "unat align" and ?n = "unat addr"
  have mod: "unat (addr mod align) = ?n mod ?k" by (simp add: unat_mod)
  have z: "addr mod align = 0 \<longleftrightarrow> ?k dvd ?n" by (metis mod dvd_eq_mod_eq_0 unat_0 unat_eq_0)
  have le: "addr mod align \<le> addr" by (simp add: word_le_nat_alt mod)
  have d: "unat (addr - addr mod align) = ?n - ?n mod ?k" using le by (simp add: unat_sub mod)
  obtain e where "?k = 2 ^ e" "e < 64" using assms(1) by (elim power_of_twoE) simp
  then have "?k dvd 2 ^ 64" by (metis le_imp_power_dvd less_imp_le)
  then obtain q where q: "2 ^ 64 = ?k * q" by (auto simp: dvd_def)
  have "?k * q - ?k \<le> ?n - ?n mod ?k"
  proof -
    have "?k * (q - 1) \<le> ?n" using assms(2) q by (simp add: diff_mult_distrib2)
    then have "q - 1 \<le> ?n div ?k" using power_of_two_pos [OF assms(1)] by (simp add: less_eq_div_iff_mult_less_eq mult.commute)
    then have "?k * (q - 1) \<le> ?k * (?n div ?k)" by simp
    then show ?thesis by (simp add: diff_mult_distrib2 minus_mod_eq_mult_div)
  qed
  then have "2 ^ 64 \<le> unat (addr - addr mod align) + ?k" unfolding d q by linarith
  with z le show ?thesis by (simp add: align_up_remainder_def sub_usize_def add_usize_def)
qed

text \<open>
  C35. For every power-of-two alignment and every address, the bitmask form of
  \<open>align_up\<close> does the same as the remainder form that the comment in it explains, a
  panic included, with one exception: an aligned address so high that its sum with the
  alignment overflows is returned by the remainder form, while the bitmask form panics.
\<close>

theorem align_up_equiv_remainder:
  assumes "is_power_of_two align"
  shows "if unat align dvd unat addr \<and> 2 ^ 64 \<le> unat addr + unat align
    then align_up addr align = Panic ArithmeticOverflow \<and> align_up_remainder addr align = Ret addr
    else align_up addr align = align_up_remainder addr align"
  using align_up_remainder_eq [OF assms, of addr] align_up_remainder_top [OF assms, of addr] align_up_overflow [of addr align]
  by (cases "unat addr + unat align < 2 ^ 64") auto

theorem align_up_equiv_remainder_witness:
  "align_up 1001 16 = align_up_remainder 1001 16 \<and> align_up_remainder 1001 16 = Ret 1008 \<and>
   align_up 0xFFFFFFFFFFFFFFF0 16 = Panic ArithmeticOverflow \<and> align_up_remainder 0xFFFFFFFFFFFFFFF0 16 = Ret 0xFFFFFFFFFFFFFFF0"
proof -
  have p: "is_power_of_two 16" by simp
  have "align_up_remainder 1001 16 = Ret 1008"
    by (simp add: align_up_remainder_def sub_usize_def add_usize_def word_arith_nat_mod)
  moreover have "\<not> unat (16 :: usize) dvd unat (1001 :: usize)"
    "unat (16 :: usize) dvd unat (0xFFFFFFFFFFFFFFF0 :: usize)" "2 ^ 64 \<le> unat (0xFFFFFFFFFFFFFFF0 :: usize) + unat (16 :: usize)"
    by simp_all
  ultimately show ?thesis
    using align_up_equiv_remainder [OF p, of 1001] align_up_equiv_remainder [OF p, of "0xFFFFFFFFFFFFFFF0"] by simp
qed

interpretation dummy: global_alloc "\<lambda>l. True" dummy_alloc dummy_dealloc "\<lambda>lo hi s m bs. bs = {#}"
  by unfold_locales (auto simp: live_ok_def dummy_alloc_def held_def)

end
