(* ===== verification/Linked_List_Allocator.thy ===== *)
theory Linked_List_Allocator
  imports Allocator
begin

text \<open>
  The allocator of \<open>src/allocator/linked_list.rs\<close>. The list nodes live in the free
  memory itself: a node is sixteen bytes at its region's start address, the size first
  and then the link, with \<open>None\<close> as the null pointer (the niche that Rust guarantees
  for \<open>Option<&mut T>\<close>; the order of the two fields is the compiler's choice and
  nothing below depends on it). Only the dummy head is a field of the allocator. The
  search loop follows the links through memory and is a partial function; that it ends
  on a well-formed list is proved.
\<close>

record list_node =
  node_size :: usize
  node_next :: "usize option"

record linked_list_allocator =
  head :: list_node

definition LIST_NODE_SIZE :: usize where
  "LIST_NODE_SIZE = 16"

definition LIST_NODE_ALIGN :: usize where
  "LIST_NODE_ALIGN = 8"

definition node_read :: "mem \<Rightarrow> usize \<Rightarrow> list_node" where
  "node_read m a = \<lparr>node_size = read_usize m a, node_next = bits_ptr (read_usize m (a + 8))\<rparr>"

definition node_write :: "mem \<Rightarrow> usize \<Rightarrow> list_node \<Rightarrow> mem" where
  "node_write m a n =
     write_usize (write_usize m a (node_size n)) (a + 8) (ptr_bits (node_next n))"

definition list_node_new :: "usize \<Rightarrow> list_node" where
  "list_node_new sz = \<lparr>node_size = sz, node_next = None\<rparr>"

text \<open>\<open>start_addr\<close> of a node is the address it is stored at.\<close>

definition end_addr :: "usize \<Rightarrow> list_node \<Rightarrow> usize outcome" where
  "end_addr start_addr n = add_usize start_addr (node_size n)"

definition ll_new :: linked_list_allocator where
  "ll_new = \<lparr>head = list_node_new 0\<rparr>"

definition add_free_region ::
  "linked_list_allocator \<Rightarrow> mem \<Rightarrow> usize \<Rightarrow> usize \<Rightarrow> (linked_list_allocator \<times> mem) outcome" where
  "add_free_region s m addr sz =
     and_then (align_up addr LIST_NODE_ALIGN) (\<lambda>a.
     and_then (assert_that (a = addr)) (\<lambda>_.
     and_then (assert_that (LIST_NODE_SIZE \<le> sz)) (\<lambda>_.
     let node = (list_node_new sz)\<lparr>node_next := node_next (head s)\<rparr>
     in Ret (s\<lparr>head := (head s)\<lparr>node_next := Some addr\<rparr>\<rparr>, node_write m addr node))))"

definition ll_init ::
  "linked_list_allocator \<Rightarrow> mem \<Rightarrow> usize \<Rightarrow> usize \<Rightarrow> (linked_list_allocator \<times> mem) outcome" where
  "ll_init s m start sz = add_free_region s m start sz"

text \<open>\<open>Ok\<close> of the source is \<open>Some\<close>, \<open>Err(())\<close> is \<open>None\<close>.\<close>

definition alloc_from_region :: "usize \<Rightarrow> list_node \<Rightarrow> usize \<Rightarrow> usize \<Rightarrow> usize option outcome" where
  "alloc_from_region region n sz align =
     and_then (align_up region align) (\<lambda>alloc_start.
     case checked_add alloc_start sz of
       None \<Rightarrow> Ret None
     | Some alloc_end \<Rightarrow>
         and_then (end_addr region n) (\<lambda>e.
         if alloc_end > e then Ret None
         else and_then (sub_usize e alloc_end) (\<lambda>excess_size.
              if excess_size > 0 \<and> excess_size < LIST_NODE_SIZE then Ret None
              else Ret (Some alloc_start))))"

text \<open>The loop variable \<open>current\<close>: the head of the allocator, or a node in memory.\<close>

datatype node_ref = HeadRef | NodeRef usize

fun next_of :: "linked_list_allocator \<Rightarrow> mem \<Rightarrow> node_ref \<Rightarrow> usize option" where
  "next_of s m HeadRef = node_next (head s)"
| "next_of s m (NodeRef a) = node_next (node_read m a)"

fun set_next ::
  "linked_list_allocator \<times> mem \<Rightarrow> node_ref \<Rightarrow> usize option \<Rightarrow> linked_list_allocator \<times> mem" where
  "set_next (s, m) HeadRef p = (s\<lparr>head := (head s)\<lparr>node_next := p\<rparr>\<rparr>, m)"
| "set_next (s, m) (NodeRef a) p = (s, node_write m a ((node_read m a)\<lparr>node_next := p\<rparr>))"

definition unlink ::
  "linked_list_allocator \<times> mem \<Rightarrow> node_ref \<Rightarrow> usize \<Rightarrow> linked_list_allocator \<times> mem" where
  "unlink sm current region =
     (let next_region = next_of (fst sm) (snd sm) (NodeRef region);
          sm1 = set_next sm (NodeRef region) None;
          sm2 = set_next sm1 current None
      in set_next sm2 current next_region)"

partial_function (option) find_region_from ::
  "linked_list_allocator \<Rightarrow> mem \<Rightarrow> node_ref \<Rightarrow> usize \<Rightarrow> usize \<Rightarrow>
   ((linked_list_allocator \<times> mem) \<times> (usize \<times> usize) option) outcome option" where
  "find_region_from s m current sz align =
     (case next_of s m current of
        None \<Rightarrow> Some (Ret ((s, m), None))
      | Some region \<Rightarrow>
          (case alloc_from_region region (node_read m region) sz align of
             Panic e \<Rightarrow> Some (Panic e)
           | Diverge \<Rightarrow> Some Diverge
           | Ret r \<Rightarrow>
               (case r of
                  Some alloc_start \<Rightarrow>
                    Some (Ret (unlink (s, m) current region, Some (region, alloc_start)))
                | None \<Rightarrow> find_region_from s m (NodeRef region) sz align)))"

definition find_region ::
  "linked_list_allocator \<Rightarrow> mem \<Rightarrow> usize \<Rightarrow> usize \<Rightarrow>
   ((linked_list_allocator \<times> mem) \<times> (usize \<times> usize) option) outcome" where
  "find_region s m sz align = loop_outcome (find_region_from s m HeadRef sz align)"

definition size_align :: "layout \<Rightarrow> (usize \<times> usize) outcome" where
  "size_align l =
     and_then (expect ''adjusting alignment failed'' (align_to l LIST_NODE_ALIGN)) (\<lambda>l1.
     let l2 = pad_to_align l1
     in Ret (max (layout_size l2) LIST_NODE_SIZE, layout_align l2))"

definition ll_alloc :: "linked_list_allocator alloc_fn" where
  "ll_alloc s m l =
     and_then (size_align l) (\<lambda>(sz, align).
     and_then (find_region s m sz align) (\<lambda>((s1, m1), r).
     case r of
       Some (region, alloc_start) \<Rightarrow>
         and_then (expect ''overflow'' (checked_add alloc_start sz)) (\<lambda>alloc_end.
         and_then (end_addr region (node_read m1 region)) (\<lambda>e.
         and_then (sub_usize e alloc_end) (\<lambda>excess_size.
         and_then (if excess_size > 0 then add_free_region s1 m1 alloc_end excess_size
                   else Ret (s1, m1)) (\<lambda>(s2, m2).
         Ret (alloc_start, s2, m2)))))
     | None \<Rightarrow> Ret (0, s1, m1)))"

definition ll_dealloc :: "linked_list_allocator dealloc_fn" where
  "ll_dealloc s m p l =
     and_then (size_align l) (\<lambda>(sz, _).
     add_free_region s m p sz)"

subsection \<open>Nodes in memory\<close>

definition apart :: "usize \<Rightarrow> usize \<Rightarrow> bool" where
  "apart a b \<longleftrightarrow> unat a + 16 \<le> unat b \<or> unat b + 16 \<le> unat a"

definition node_fits :: "usize \<Rightarrow> bool" where
  "node_fits a \<longleftrightarrow> 0 < a \<and> unat a + 16 \<le> 2 ^ 64"

abbreviation node_extent :: "usize \<Rightarrow> extent" where
  "node_extent a \<equiv> (unat a, 16)"

lemma node_fits_offset:
  assumes "node_fits a"
  shows "unat (a + 8) = unat a + 8" and "unat a + 8 \<le> 2 ^ 64" and "unat (a + 8) + 8 \<le> 2 ^ 64"
proof -
  show 1: "unat (a + 8) = unat a + 8"
    using assms by (subst unat_add_exact) (auto simp: node_fits_def)
  show "unat a + 8 \<le> 2 ^ 64" and "unat (a + 8) + 8 \<le> 2 ^ 64"
    using assms unfolding 1 by (auto simp: node_fits_def)
qed

lemma node_write_other:
  assumes "node_fits a" and "\<not> covers (unat x) (node_extent a)"
  shows "node_write m a n x = m x"
proof -
  note off = node_fits_offset [OF assms(1)]
  have "\<not> covers (unat x) (unat a, 8)" and "\<not> covers (unat x) (unat (a + 8), 8)"
    using assms(2) off(1) by (auto simp: covers_def)
  then show ?thesis using off by (simp add: node_write_def write_usize_other)
qed

lemma node_read_cong:
  assumes "node_fits a" and "\<And>x. covers (unat x) (node_extent a) \<Longrightarrow> m x = m' x"
  shows "node_read m a = node_read m' a"
proof -
  note off = node_fits_offset [OF assms(1)]
  have "read_usize m a = read_usize m' a"
    using off(2) by (rule read_usize_cong) (auto intro!: assms(2) simp: covers_def)
  moreover have "read_usize m (a + 8) = read_usize m' (a + 8)"
    using off(3) by (rule read_usize_cong) (auto intro!: assms(2) simp: covers_def off(1))
  ultimately show ?thesis by (simp add: node_read_def)
qed

lemma node_read_write_same [simp]:
  assumes "node_fits a" and "node_next n \<noteq> Some 0"
  shows "node_read (node_write m a n) a = n"
proof -
  note off = node_fits_offset [OF assms(1)]
  have "read_usize (node_write m a n) a = node_size n"
    using off by (simp add: node_write_def read_write_other)
  with assms(2) show ?thesis by (simp add: node_read_def node_write_def)
qed

lemma node_read_write_other [simp]:
  assumes "node_fits a" and "node_fits b" and "apart a b"
  shows "node_read (node_write m b n) a = node_read m a"
  using assms(1)
  by (rule node_read_cong) (use assms in \<open>auto simp: covers_def apart_def intro!: node_write_other\<close>)

lemma node_next_nonnull [simp]: "node_next (node_read m a) \<noteq> Some 0"
  by (simp add: node_read_def bits_ptr_def)

subsection \<open>The free list as a list of regions\<close>

type_synonym region = "usize \<times> usize"

text \<open>The nodes reachable from a link, with the sizes they record, are the given regions.\<close>

fun chain :: "mem \<Rightarrow> usize option \<Rightarrow> region list \<Rightarrow> bool" where
  "chain m p [] \<longleftrightarrow> p = None"
| "chain m p (r # rs) \<longleftrightarrow> p = Some (fst r) \<and> node_size (node_read m (fst r)) = snd r \<and>
     chain m (node_next (node_read m (fst r))) rs"

text \<open>
  The abstract search: a region serves a request if the aligned block fits and what is
  left behind it is nothing or room for a node; the first such region is taken out.
\<close>

definition region_fit :: "usize \<Rightarrow> usize \<Rightarrow> region \<Rightarrow> usize option" where
  "region_fit sz align r =
     (let p = round_up (unat (fst r)) (unat align); e = unat (fst r) + unat (snd r)
      in if p + unat sz \<le> e \<and> (p + unat sz = e \<or> p + unat sz + 16 \<le> e)
         then Some (of_nat p) else None)"

fun first_fit ::
  "usize \<Rightarrow> usize \<Rightarrow> region list \<Rightarrow> (region list \<times> region \<times> usize \<times> region list) option" where
  "first_fit sz align [] = None"
| "first_fit sz align (r # rs) =
     (case region_fit sz align r of
        Some p \<Rightarrow> Some ([], r, p, rs)
      | None \<Rightarrow> map_option (\<lambda>(pre, r', p, suf). (r # pre, r', p, suf)) (first_fit sz align rs))"

definition taken_out :: "usize \<Rightarrow> usize \<Rightarrow> region list \<Rightarrow> region list" where
  "taken_out sz align rs =
     (case first_fit sz align rs of None \<Rightarrow> rs | Some (pre, r, p, suf) \<Rightarrow> pre @ suf)"

fun ref_nodes :: "node_ref \<Rightarrow> usize list" where
  "ref_nodes HeadRef = []"
| "ref_nodes (NodeRef a) = [a]"

definition frame_nodes :: "usize list \<Rightarrow> mem \<Rightarrow> mem \<Rightarrow> bool" where
  "frame_nodes as m m' \<longleftrightarrow>
     (\<forall>x. (\<forall>a\<in>set as. \<not> covers (unat x) (node_extent a)) \<longrightarrow> m' x = m x)"

definition region_sane :: "region \<Rightarrow> bool" where
  "region_sane r \<longleftrightarrow> node_fits (fst r) \<and> unat (fst r) + unat (snd r) \<le> isize_max"

lemma chain_cong:
  assumes "\<forall>r\<in>set rs. node_fits (fst r)"
    and "\<And>x. (\<exists>r\<in>set rs. covers (unat x) (node_extent (fst r))) \<Longrightarrow> m' x = m x"
  shows "chain m' p rs = chain m p rs"
  using assms
proof (induction rs arbitrary: p)
  case Nil
  then show ?case by simp
next
  case (Cons r rs)
  have "node_read m' (fst r) = node_read m (fst r)"
    using Cons.prems by (intro node_read_cong) auto
  with Cons show ?case by auto
qed

lemma apart_covers: "apart c a \<Longrightarrow> covers x (node_extent c) \<Longrightarrow> \<not> covers x (node_extent a)"
  by (auto simp: apart_def covers_def)

lemma frame_node_read:
  assumes "frame_nodes as m m'" and "node_fits c" and "\<forall>a\<in>set as. apart c a"
  shows "node_read m' c = node_read m c"
  using assms(2)
proof (rule node_read_cong)
  fix x :: usize
  assume "covers (unat x) (node_extent c)"
  with assms(3) have "\<forall>a\<in>set as. \<not> covers (unat x) (node_extent a)"
    by (blast dest: apart_covers)
  with assms(1) show "m' x = m x" by (simp add: frame_nodes_def)
qed

lemma frame_nodes_chain:
  assumes "frame_nodes as m m'" and "\<forall>r\<in>set rs. node_fits (fst r)"
    and "\<forall>r\<in>set rs. \<forall>a\<in>set as. apart (fst r) a"
  shows "chain m' p rs = chain m p rs"
  using assms(2)
proof (rule chain_cong)
  fix x :: usize
  assume "\<exists>r\<in>set rs. covers (unat x) (node_extent (fst r))"
  with assms(3) have "\<forall>a\<in>set as. \<not> covers (unat x) (node_extent a)"
    by (blast dest: apart_covers)
  with assms(1) show "m' x = m x" by (simp add: frame_nodes_def)
qed

lemma frame_nodes_write: "node_fits a \<Longrightarrow> a \<in> set as \<Longrightarrow> frame_nodes as m (node_write m a n)"
  by (simp add: frame_nodes_def node_write_other)

lemma frame_nodes_trans:
  "frame_nodes as m m' \<Longrightarrow> frame_nodes as m' m'' \<Longrightarrow> frame_nodes as m m''"
  by (simp add: frame_nodes_def)

lemma frame_nodes_mono: "frame_nodes as m m' \<Longrightarrow> set as \<subseteq> set bs \<Longrightarrow> frame_nodes bs m m'"
  by (auto simp: frame_nodes_def)

lemma apart_commute: "apart a b \<longleftrightarrow> apart b a"
  by (auto simp: apart_def)

subsection \<open>The search loop\<close>

lemma alloc_from_region_eq:
  assumes "is_power_of_two align" and "unat align \<le> 2 ^ 63"
    and "unat a + unat (node_size n) \<le> isize_max"
  shows "alloc_from_region a n sz align = Ret (region_fit sz align (a, node_size n))"
proof -
  have bound: "unat a + unat align < 2 ^ 64" using assms by (simp add: isize_max_def)
  obtain p where p: "align_up a align = Ret p" "unat p = round_up (unat a) (unat align)"
    using align_up_Ret [OF assms(1) bound] by blast
  then have p': "of_nat (round_up (unat a) (unat align)) = p" by (metis of_nat_unat ucast_id)
  have e: "end_addr a n = Ret (a + node_size n)"
    "unat (a + node_size n) = unat a + unat (node_size n)"
    using assms(3) by (simp_all add: end_addr_def isize_max_def unat_add_exact)
  show ?thesis
  proof (cases "unat p + unat sz \<le> unat a + unat (node_size n)")
    case False
    then show ?thesis
      using p e by (cases "unat p + unat sz < 2 ^ 64")
        (auto simp: alloc_from_region_def region_fit_def Let_def checked_add_def
          word_less_nat_alt unat_add_exact)
  next
    case True
    then have sum: "unat p + unat sz < 2 ^ 64" using assms(3) by (simp add: isize_max_def)
    with True e have le: "p + sz \<le> a + node_size n" by (simp add: word_le_nat_alt unat_add_exact)
    then have d: "unat (a + node_size n - (p + sz)) = unat a + unat (node_size n) - (unat p + unat sz)"
      using sum e by (simp add: unat_sub unat_add_exact)
    have "alloc_from_region a n sz align =
        Ret (if 0 < a + node_size n - (p + sz) \<and> a + node_size n - (p + sz) < LIST_NODE_SIZE
             then None else Some p)"
      using p(1) e(1) sum le leD [OF le]
      by (simp add: alloc_from_region_def checked_add_def sub_usize_def)
    also have "\<dots> = Ret (region_fit sz align (a, node_size n))"
      using True p(2) p' d
      by (auto simp: region_fit_def Let_def word_less_nat_alt LIST_NODE_SIZE_def)
    finally show ?thesis .
  qed
qed

lemma unlink_HeadRef:
  assumes "node_fits a"
  shows "\<exists>s' m'. unlink (s, m) HeadRef a = (s', m') \<and>
    next_of s' m' HeadRef = node_next (node_read m a) \<and>
    node_size (node_read m' a) = node_size (node_read m a) \<and> frame_nodes [a] m m'"
  using assms by (simp add: unlink_def Let_def frame_nodes_write)

lemma unlink_NodeRef:
  assumes "node_fits a" and "node_fits c" and "apart c a"
  shows "\<exists>m'. unlink (s, m) (NodeRef c) a = (s, m') \<and>
    node_next (node_read m' c) = node_next (node_read m a) \<and>
    node_size (node_read m' c) = node_size (node_read m c) \<and>
    node_size (node_read m' a) = node_size (node_read m a) \<and> frame_nodes [c, a] m m'"
proof -
  have ac: "apart a c" using assms(3) by (simp add: apart_commute)
  let ?m1 = "node_write m a ((node_read m a)\<lparr>node_next := None\<rparr>)"
  let ?m2 = "node_write ?m1 c ((node_read ?m1 c)\<lparr>node_next := None\<rparr>)"
  let ?m3 = "node_write ?m2 c ((node_read ?m2 c)\<lparr>node_next := node_next (node_read m a)\<rparr>)"
  have "frame_nodes [c, a] m ?m1" and "frame_nodes [c, a] ?m1 ?m2" and "frame_nodes [c, a] ?m2 ?m3"
    using assms by (simp_all add: frame_nodes_write)
  then have "frame_nodes [c, a] m ?m3" by (meson frame_nodes_trans)
  moreover have "unlink (s, m) (NodeRef c) a = (s, ?m3)" by (simp add: unlink_def Let_def)
  ultimately show ?thesis using assms ac by simp
qed

lemma unlink_spec:
  assumes "node_fits a" and "\<forall>c\<in>set (ref_nodes current). node_fits c \<and> apart c a"
  shows "\<exists>s' m'. unlink (s, m) current a = (s', m') \<and>
    next_of s' m' current = node_next (node_read m a) \<and>
    node_size (node_read m' a) = node_size (node_read m a) \<and>
    frame_nodes (ref_nodes current @ [a]) m m' \<and> (current \<noteq> HeadRef \<longrightarrow> s' = s) \<and>
    (\<forall>c\<in>set (ref_nodes current). node_size (node_read m' c) = node_size (node_read m c))"
proof (cases current)
  case HeadRef
  with unlink_HeadRef [OF assms(1), of s m] show ?thesis by auto
next
  case (NodeRef c)
  with unlink_NodeRef [OF assms(1), of c s m] assms(2) show ?thesis by auto
qed

text \<open>
  The result of the loop from any position of the list: it returns, with the first
  fitting region of the rest of the list, that region is unlinked, and only the nodes
  from the position on have been written to.
\<close>

text \<open>
  The result of searching the regions \<open>rs\<close> that follow \<open>current\<close>: the first region
  that fits, taken out of the list, with only the nodes of the list changed.
\<close>

definition searched ::
  "usize \<Rightarrow> usize \<Rightarrow> linked_list_allocator \<Rightarrow> mem \<Rightarrow> node_ref \<Rightarrow> region list \<Rightarrow> linked_list_allocator \<Rightarrow> mem \<Rightarrow> bool" where
  "searched sz align s m current rs s' m' \<longleftrightarrow>
     find_region_from s m current sz align =
       Some (Ret ((s', m'), map_option (\<lambda>(pre, r, p, suf). (fst r, p)) (first_fit sz align rs))) \<and>
     chain m' (next_of s' m' current) (taken_out sz align rs) \<and>
     frame_nodes (ref_nodes current @ map fst rs) m m' \<and>
     (current \<noteq> HeadRef \<or> first_fit sz align rs = None \<longrightarrow> s' = s) \<and>
     (\<forall>c\<in>set (ref_nodes current). node_size (node_read m' c) = node_size (node_read m c)) \<and>
     (\<forall>pre r p suf. first_fit sz align rs = Some (pre, r, p, suf) \<longrightarrow>
        node_size (node_read m' (fst r)) = snd r) \<and>
     (first_fit sz align rs = None \<longrightarrow> m' = m)"

lemma search_region:
  assumes "chain m (next_of s m current) (r # rs)" and "region_sane r"
    and "is_power_of_two align" and "unat align \<le> 2 ^ 63"
  shows "next_of s m current = Some (fst r)" and "node_size (node_read m (fst r)) = snd r"
    and "chain m (node_next (node_read m (fst r))) rs"
    and "alloc_from_region (fst r) (node_read m (fst r)) sz align = Ret (region_fit sz align r)"
  using assms alloc_from_region_eq [OF assms(3,4), of "fst r" "node_read m (fst r)" sz]
  by (simp_all add: region_sane_def)

lemma search_hit:
  assumes "chain m (next_of s m current) (r # rs)" and "\<forall>q\<in>set (r # rs). region_sane q"
    and "sorted_wrt apart (ref_nodes current @ map fst (r # rs))"
    and "\<forall>c\<in>set (ref_nodes current). node_fits c"
    and "is_power_of_two align" and "unat align \<le> 2 ^ 63" and "region_fit sz align r = Some p"
  shows "\<exists>s' m'. searched sz align s m current (r # rs) s' m'"
proof -
  have fit: "node_fits (fst r)" "region_sane r" and rest: "\<forall>q\<in>set rs. node_fits (fst q)"
    using assms(2) by (simp_all add: region_sane_def)
  note f = search_region [OF assms(1) fit(2) assms(5,6)]
  have step: "find_region_from s m current sz align = Some (Ret (unlink (s, m) current (fst r), Some (fst r, p)))"
    by (subst find_region_from.simps) (simp add: f assms(7))
  have sur: "\<forall>q\<in>set rs. \<forall>c\<in>set (ref_nodes current @ [fst r]). apart (fst q) c"
    using assms(3) by (auto simp: sorted_wrt_append apart_commute)
  obtain s' m' where u: "unlink (s, m) current (fst r) = (s', m')"
    "next_of s' m' current = node_next (node_read m (fst r))"
    "node_size (node_read m' (fst r)) = node_size (node_read m (fst r))"
    "frame_nodes (ref_nodes current @ [fst r]) m m'" "current \<noteq> HeadRef \<longrightarrow> s' = s"
    "\<forall>c\<in>set (ref_nodes current). node_size (node_read m' c) = node_size (node_read m c)"
    using unlink_spec [OF fit(1), of current s m] assms(3,4) by (auto simp: sorted_wrt_append)
  have "chain m' (next_of s' m' current) rs"
    using frame_nodes_chain [OF u(4) rest sur] f(3) u(2) by simp
  moreover have "frame_nodes (ref_nodes current @ map fst (r # rs)) m m'"
    using u(4) by (rule frame_nodes_mono) auto
  ultimately show ?thesis using u f(2) step assms(7) by (auto simp: searched_def taken_out_def)
qed

lemma search_miss:
  assumes "chain m (next_of s m current) (r # rs)" and "region_sane r"
    and "sorted_wrt apart (ref_nodes current @ map fst (r # rs))"
    and "\<forall>c\<in>set (ref_nodes current). node_fits c"
    and "is_power_of_two align" and "unat align \<le> 2 ^ 63" and None: "region_fit sz align r = None"
    and ih: "searched sz align s m (NodeRef (fst r)) rs s' m'"
  shows "searched sz align s m current (r # rs) s' m'"
proof -
  note f = search_region [OF assms(1,2,5,6)]
  have step: "find_region_from s m current sz align = find_region_from s m (NodeRef (fst r)) sz align"
    by (subst find_region_from.simps) (simp add: f None)
  have fr: "frame_nodes (map fst (r # rs)) m m'" and s: "s' = s" using ih by (simp_all add: searched_def)
  have "\<forall>c\<in>set (ref_nodes current). \<forall>b\<in>set (map fst (r # rs)). apart c b"
    using assms(3) by (auto simp: sorted_wrt_append)
  then have same: "\<forall>c\<in>set (ref_nodes current). node_read m' c = node_read m c"
    using assms(4) by (blast intro: frame_node_read [OF fr])
  then have "next_of s m' current = Some (fst r)" using f(1) by (cases current) auto
  moreover have "taken_out sz align (r # rs) = r # taken_out sz align rs"
    using None by (auto simp: taken_out_def split: option.splits)
  ultimately have "chain m' (next_of s' m' current) (taken_out sz align (r # rs))"
    using ih s f(2) by (simp add: searched_def)
  moreover have "frame_nodes (ref_nodes current @ map fst (r # rs)) m m'"
    using fr by (rule frame_nodes_mono) auto
  ultimately show ?thesis
    using step ih same None by (cases "first_fit sz align rs") (auto simp: searched_def)
qed

lemma find_region_from_chain:
  assumes "chain m (next_of s m current) rs"
    and "\<forall>r\<in>set rs. region_sane r"
    and "sorted_wrt apart (ref_nodes current @ map fst rs)"
    and "\<forall>c\<in>set (ref_nodes current). node_fits c"
    and "is_power_of_two align" and "unat align \<le> 2 ^ 63"
  shows "\<exists>s' m'. searched sz align s m current rs s' m'"
  using assms
proof (induction rs arbitrary: current)
  case Nil
  then show ?case
    by (subst searched_def, subst find_region_from.simps) (simp add: taken_out_def frame_nodes_def)
next
  case (Cons r rs)
  show ?case
  proof (cases "region_fit sz align r")
    case (Some p)
    with Cons.prems show ?thesis by (rule search_hit)
  next
    case None
    have "\<exists>s' m'. searched sz align s m (NodeRef (fst r)) rs s' m'"
      using Cons.prems by (intro Cons.IH) (auto simp: sorted_wrt_append region_sane_def)
    then show ?thesis using search_miss [OF Cons.prems(1) _ Cons.prems(3-6) None] Cons.prems(2) by auto
  qed
qed

subsection \<open>Pushing a region\<close>

lemma chain_start_nonnull:
  assumes "chain m p rs" and "\<forall>r\<in>set rs. node_fits (fst r)"
  shows "p \<noteq> Some 0"
  using assms by (cases rs) (auto simp: node_fits_def)

lemma add_free_region_chain:
  assumes "chain m (node_next (head s)) rs" and "\<forall>r\<in>set rs. node_fits (fst r)"
    and "8 dvd unat addr" and "16 \<le> unat sz" and "node_fits addr"
    and "\<forall>r\<in>set rs. apart (fst r) addr"
  shows "\<exists>s' m'. add_free_region s m addr sz = Ret (s', m') \<and>
    chain m' (node_next (head s')) ((addr, sz) # rs) \<and> frame_nodes [addr] m m'"
proof -
  let ?n = "\<lparr>node_size = sz, node_next = node_next (head s)\<rparr>"
  let ?m = "node_write m addr ?n"
  have "align_up addr LIST_NODE_ALIGN = Ret addr"
    using assms(3,5) by (intro align_up_aligned) (simp_all add: LIST_NODE_ALIGN_def node_fits_def)
  moreover have "LIST_NODE_SIZE \<le> sz" using assms(4) by (simp add: LIST_NODE_SIZE_def word_le_nat_alt)
  ultimately have "add_free_region s m addr sz = Ret (s\<lparr>head := (head s)\<lparr>node_next := Some addr\<rparr>\<rparr>, ?m)"
    by (simp add: add_free_region_def Let_def list_node_new_def)
  moreover have fr: "frame_nodes [addr] m ?m" using assms(5) by (simp add: frame_nodes_write)
  moreover have "node_read ?m addr = ?n"
    using assms(5) chain_start_nonnull [OF assms(1,2)] by simp
  moreover have "chain ?m (node_next (head s)) rs"
    using frame_nodes_chain [OF fr assms(2)] assms(1,6) by simp
  ultimately show ?thesis by simp
qed

subsection \<open>Layout adjustment\<close>

text \<open>
  The sizes and alignments the allocator works with. A request is accepted if its size
  can still be rounded up after the alignment has been raised to that of a node.
\<close>

definition padded_align :: "layout \<Rightarrow> usize" where
  "padded_align l = max (layout_align l) LIST_NODE_ALIGN"

definition padded_size :: "layout \<Rightarrow> usize" where
  "padded_size l =
     max (of_nat (round_up (unat (layout_size l)) (unat (padded_align l)))) LIST_NODE_SIZE"

definition ll_request :: "layout \<Rightarrow> bool" where
  "ll_request l \<longleftrightarrow> valid_request l \<and> unat (layout_size l) + 7 \<le> isize_max"

lemma padded_align_pow2: "layout_wf l \<Longrightarrow> is_power_of_two (padded_align l)"
  by (simp add: padded_align_def LIST_NODE_ALIGN_def layout_wf_align max_def)

lemma padded_align_dvd:
  assumes "layout_wf l"
  shows "unat (layout_align l) dvd unat (padded_align l)" and "8 dvd unat (padded_align l)"
proof -
  have "layout_align l \<le> padded_align l" and "8 \<le> padded_align l"
    by (simp_all add: padded_align_def LIST_NODE_ALIGN_def)
  then have "unat (layout_align l) \<le> unat (padded_align l)" and "unat (8 :: usize) \<le> unat (padded_align l)"
    unfolding word_le_nat_alt .
  then show "unat (layout_align l) dvd unat (padded_align l)" and "8 dvd unat (padded_align l)"
    using dvd_power_of_two [OF layout_wf_align [OF assms] padded_align_pow2 [OF assms]]
      dvd_power_of_two [of 8, OF _ padded_align_pow2 [OF assms]] by auto
qed

lemma ll_request_padded_wf:
  assumes "ll_request l"
  shows "layout_wf \<lparr>layout_size = layout_size l, layout_align = padded_align l\<rparr>"
  using assms padded_align_pow2 [of l]
  by (auto simp: ll_request_def valid_request_def layout_wf_def padded_align_def LIST_NODE_ALIGN_def
      max_def)

lemma unat_padded_size:
  assumes "ll_request l"
  shows "unat (padded_size l) = max (round_up (unat (layout_size l)) (unat (padded_align l))) 16"
proof -
  let ?r = "round_up (unat (layout_size l)) (unat (padded_align l))"
  have wf: "layout_wf \<lparr>layout_size = layout_size l, layout_align = padded_align l\<rparr>"
    using assms by (rule ll_request_padded_wf)
  have "0 < unat (padded_align l)"
    using layout_wf_align [OF wf] by (simp add: power_of_two_pos)
  then have "?r < 2 ^ 64"
    using layout_wf_bound [OF wf] round_up_less [of "unat (padded_align l)" "unat (layout_size l)"] by simp
  then have "unat (of_nat ?r :: usize) = ?r" by (simp add: unat_of_nat)
  then show ?thesis by (simp add: padded_size_def LIST_NODE_SIZE_def max_def word_le_nat_alt)
qed

lemma size_align_eq:
  assumes "ll_request l"
  shows "size_align l = Ret (padded_size l, padded_align l)"
proof -
  let ?l = "\<lparr>layout_size = layout_size l, layout_align = padded_align l\<rparr>"
  have wf: "layout_wf ?l" using assms by (rule ll_request_padded_wf)
  then have to: "align_to l LIST_NODE_ALIGN = Some ?l"
    by (simp add: align_to_def from_size_align_Some flip: padded_align_def)
  have "of_nat (unat (layout_size (pad_to_align ?l))) = layout_size (pad_to_align ?l)"
    by (metis of_nat_unat ucast_id)
  then have "layout_size (pad_to_align ?l) =
      of_nat (round_up (unat (layout_size l)) (unat (padded_align l)))"
    using pad_to_align_size [OF wf] by simp
  with to show ?thesis by (simp add: size_align_def Let_def padded_size_def)
qed

lemma padded_size_facts:
  assumes "ll_request l"
  shows "16 \<le> unat (padded_size l)" and "unat (layout_size l) \<le> unat (padded_size l)"
    and "8 dvd unat (padded_size l)"
proof -
  have wf: "layout_wf l" using assms by (simp add: ll_request_def valid_request_def)
  note u = unat_padded_size [OF assms]
  show "16 \<le> unat (padded_size l)" by (simp add: u)
  show "unat (layout_size l) \<le> unat (padded_size l)"
    using round_up_ge [OF power_of_two_pos [OF padded_align_pow2 [OF wf]]]
    by (simp add: u le_max_iff_disj)
  have "8 dvd round_up (unat (layout_size l)) (unat (padded_align l))"
    using padded_align_dvd(2) [OF wf] dvd_round_up by (rule dvd_trans)
  then show "8 dvd unat (padded_size l)" by (simp add: u max_def)
qed

subsection \<open>The invariant\<close>

definition region_extent :: "region \<Rightarrow> extent" where
  "region_extent r = (unat (fst r), unat (snd r))"

definition padded_extent :: "block \<Rightarrow> extent" where
  "padded_extent b = (unat (fst b), unat (padded_size (snd b)))"

definition region_ok :: "nat \<Rightarrow> nat \<Rightarrow> region \<Rightarrow> bool" where
  "region_ok lo hi r \<longleftrightarrow> 8 dvd unat (fst r) \<and> 16 \<le> unat (snd r) \<and>
     lo \<le> unat (fst r) \<and> unat (fst r) + unat (snd r) \<le> hi"

definition ll_block_ok :: "nat \<Rightarrow> nat \<Rightarrow> block \<Rightarrow> bool" where
  "ll_block_ok lo hi b \<longleftrightarrow> ll_request (snd b) \<and>
     unat (padded_align (snd b)) dvd unat (fst b) \<and>
     lo \<le> unat (fst b) \<and> unat (fst b) + unat (padded_size (snd b)) \<le> hi"

abbreviation ll_extents :: "region list \<Rightarrow> block multiset \<Rightarrow> extent multiset" where
  "ll_extents rs bs \<equiv> image_mset region_extent (mset rs) + image_mset padded_extent bs"

definition ll_rep ::
  "nat \<Rightarrow> nat \<Rightarrow> linked_list_allocator \<Rightarrow> mem \<Rightarrow> block multiset \<Rightarrow> region list \<Rightarrow> bool" where
  "ll_rep lo hi s m bs rs \<longleftrightarrow>
     0 < lo \<and> hi \<le> isize_max \<and> chain m (node_next (head s)) rs \<and>
     (\<forall>r\<in>set rs. region_ok lo hi r) \<and> (\<forall>b\<in>#bs. ll_block_ok lo hi b) \<and>
     disjoint_extents (ll_extents rs bs)"

definition ll_inv :: "nat \<Rightarrow> nat \<Rightarrow> linked_list_allocator \<Rightarrow> mem \<Rightarrow> block multiset \<Rightarrow> bool" where
  "ll_inv lo hi s m bs \<longleftrightarrow> (\<exists>rs. ll_rep lo hi s m bs rs)"

lemma region_ok_sane:
  assumes "region_ok lo hi r" and "0 < lo" and "hi \<le> isize_max"
  shows "region_sane r" and "node_fits (fst r)"
  using assms by (auto simp: region_ok_def region_sane_def node_fits_def isize_max_def word_less_nat_alt)

lemma overlap_point:
  assumes "0 < s" and "0 < t" and "\<not> (a + s \<le> b \<or> b + t \<le> (a::nat))"
  shows "covers (max a b) (a, s)" and "covers (max a b) (b, t)"
  using assms by (auto simp: covers_def max_def)

lemma extents_apart:
  assumes "disjoint_extents (add_mset (unat a, s) E)" and "(unat b, t) \<in># E" and "16 \<le> s" and "16 \<le> t"
  shows "apart a b"
proof (rule ccontr)
  assume "\<not> apart a b"
  then have "\<not> (unat a + s \<le> unat b \<or> unat b + t \<le> unat a)"
    using assms(3,4) by (auto simp: apart_def)
  from overlap_point [OF _ _ this] assms(3,4)
  have "covers (max (unat a) (unat b)) (unat a, s)" "covers (max (unat a) (unat b)) (unat b, t)" by auto
  with disjoint_extentsD [OF assms(1,2)] show False by blast
qed

lemma regions_apart:
  assumes "disjoint_extents (image_mset region_extent (mset rs) + X)" and "\<forall>r\<in>set rs. 16 \<le> unat (snd r)"
  shows "sorted_wrt apart (map fst rs)"
  using assms
proof (induction rs arbitrary: X)
  case Nil
  then show ?case by simp
next
  case (Cons r rs)
  have d: "disjoint_extents (add_mset (unat (fst r), unat (snd r)) (image_mset region_extent (mset rs) + X))"
    using Cons.prems(1) by (simp add: region_extent_def [of r])
  have "apart (fst r) (fst q)" if "q \<in> set rs" for q
    using that Cons.prems(2) by (intro extents_apart [OF d]) (auto simp: region_extent_def image_iff)
  moreover have "sorted_wrt apart (map fst rs)"
    using Cons.IH [of "add_mset (region_extent r) X"] Cons.prems by simp
  ultimately show ?case by auto
qed

lemma frame_nodes_same_on:
  assumes "frame_nodes as m m'" and "\<And>a x e. a \<in> set as \<Longrightarrow> covers x (node_extent a) \<Longrightarrow> e \<in># E \<Longrightarrow> \<not> covers x e"
  shows "same_on E m m'"
  using assms unfolding same_on_def frame_nodes_def by metis

lemma covers_node_region: "16 \<le> unat (snd r) \<Longrightarrow> covers x (node_extent (fst r)) \<Longrightarrow> covers x (region_extent r)"
  by (auto simp: covers_def region_extent_def)

subsection \<open>Allocation\<close>

text \<open>
  What the rest of a region behind an allocated block contributes to the free list, and
  the allocator on lists of regions.
\<close>

definition excess_region :: "region \<Rightarrow> usize \<Rightarrow> usize \<Rightarrow> region list" where
  "excess_region r p sz =
     (let excess = fst r + snd r - (p + sz) in if excess > 0 then [(p + sz, excess)] else [])"

definition ll_spec_alloc :: "layout \<Rightarrow> region list \<Rightarrow> usize \<times> region list" where
  "ll_spec_alloc l rs =
     (case first_fit (padded_size l) (padded_align l) rs of
        None \<Rightarrow> (0, rs)
      | Some (pre, r, p, suf) \<Rightarrow> (p, excess_region r p (padded_size l) @ pre @ suf))"

lemma first_fit_Some:
  "first_fit sz align rs = Some (pre, r, p, suf) \<Longrightarrow> rs = pre @ r # suf \<and> region_fit sz align r = Some p"
  by (induction rs arbitrary: pre) (auto split: option.splits)

lemma region_fit_facts:
  assumes "region_fit sz align r = Some p" and "region_sane r" and "0 < unat align"
  shows "unat p = round_up (unat (fst r)) (unat align)"
    and "unat (fst r) \<le> unat p" and "unat align dvd unat p"
    and "unat (p + sz) = unat p + unat sz"
    and "unat p + unat sz \<le> unat (fst r) + unat (snd r)"
    and "unat (fst r + snd r) = unat (fst r) + unat (snd r)"
    and "unat (fst r + snd r - (p + sz)) = unat (fst r) + unat (snd r) - (unat p + unat sz)"
    and "unat p + unat sz = unat (fst r) + unat (snd r) \<or>
         unat p + unat sz + 16 \<le> unat (fst r) + unat (snd r)"
proof -
  let ?q = "round_up (unat (fst r)) (unat align)"
  have fit: "?q + unat sz \<le> unat (fst r) + unat (snd r)" "p = of_nat ?q"
    "?q + unat sz = unat (fst r) + unat (snd r) \<or> ?q + unat sz + 16 \<le> unat (fst r) + unat (snd r)"
    using assms(1) by (auto simp: region_fit_def Let_def split: if_splits)
  have small: "unat (fst r) + unat (snd r) < 2 ^ 64"
    using assms(2) by (simp add: region_sane_def isize_max_def)
  then show p: "unat p = ?q" using fit by (simp add: unat_of_nat)
  then show "unat (fst r) \<le> unat p" and "unat align dvd unat p"
    using round_up_ge [OF assms(3)] by simp_all
  show ps: "unat (p + sz) = unat p + unat sz" and e: "unat (fst r + snd r) = unat (fst r) + unat (snd r)"
    using fit(1) p small by (simp_all add: unat_add_exact)
  show le: "unat p + unat sz \<le> unat (fst r) + unat (snd r)" using fit(1) p by simp
  show "unat (fst r + snd r - (p + sz)) = unat (fst r) + unat (snd r) - (unat p + unat sz)"
    using le ps e by (simp add: unat_sub word_le_nat_alt)
  show "unat p + unat sz = unat (fst r) + unat (snd r) \<or>
      unat p + unat sz + 16 \<le> unat (fst r) + unat (snd r)" using fit(3) p by simp
qed

lemma find_region_rep:
  assumes "ll_rep lo hi s m bs rs" and "ll_request l"
  defines "ff \<equiv> first_fit (padded_size l) (padded_align l) rs"
  shows "\<exists>s' m'. find_region s m (padded_size l) (padded_align l) =
      Ret ((s', m'), map_option (\<lambda>(pre, r, p, suf). (fst r, p)) ff) \<and>
    chain m' (node_next (head s')) (taken_out (padded_size l) (padded_align l) rs) \<and>
    frame_nodes (map fst rs) m m' \<and>
    (\<forall>pre r p suf. ff = Some (pre, r, p, suf) \<longrightarrow> node_size (node_read m' (fst r)) = snd r) \<and>
    (ff = None \<longrightarrow> s' = s \<and> m' = m)"
proof -
  have wf: "layout_wf l" using assms(2) by (simp add: ll_request_def valid_request_def)
  have "unat (padded_align l) \<le> 2 ^ 63"
    using layout_wf_bound [OF ll_request_padded_wf [OF assms(2)]] by simp
  moreover have "\<forall>r\<in>set rs. region_sane r"
    using assms(1) by (auto simp: ll_rep_def intro: region_ok_sane)
  moreover have "sorted_wrt apart (map fst rs)"
    using assms(1) by (auto simp: ll_rep_def region_ok_def intro!: regions_apart)
  moreover have "chain m (next_of s m HeadRef) rs" using assms(1) by (simp add: ll_rep_def)
  ultimately obtain s' m' where "searched (padded_size l) (padded_align l) s m HeadRef rs s' m'"
    using find_region_from_chain [of m s HeadRef rs "padded_align l" "padded_size l"]
      padded_align_pow2 [OF wf] by auto
  then show ?thesis
    unfolding ff_def find_region_def by (intro exI [of _ s'] exI [of _ m']) (simp add: searched_def)
qed

text \<open>A taken region splits into the block and the excess region.\<close>

lemma split_region_disjoint:
  assumes "disjoint_extents (ll_extents (pre @ r # suf) bs)" and "region_sane r"
    and "region_fit (padded_size l) align r = Some p" and "0 < unat align"
  shows "disjoint_extents
    (ll_extents (excess_region r p (padded_size l) @ pre @ suf) (add_mset (p, l) bs))"
proof -
  note f = region_fit_facts [OF assms(3,2,4)]
  let ?F = "add_mset (padded_extent (p, l))
    (image_mset region_extent (mset (excess_region r p (padded_size l))))"
  have "owners ?F x \<le> of_bool (covers x (region_extent r))" for x
  proof (cases "fst r + snd r - (p + padded_size l) > 0")
    case True
    have "\<not> (covers x (padded_extent (p, l)) \<and> covers x (region_extent (p + padded_size l, fst r + snd r - (p + padded_size l))))"
      using f(4) by (simp add: covers_def region_extent_def padded_extent_def)
    moreover have "covers x (padded_extent (p, l)) \<Longrightarrow> covers x (region_extent r)"
      using f(2,5) by (simp add: covers_def region_extent_def padded_extent_def)
    moreover have "covers x (region_extent (p + padded_size l, fst r + snd r - (p + padded_size l)))
        \<Longrightarrow> covers x (region_extent r)"
      using f(2,4,5,7) by (simp add: covers_def region_extent_def)
    ultimately show ?thesis using True by (simp add: excess_region_def Let_def)
  next
    case False
    have "covers x (padded_extent (p, l)) \<Longrightarrow> covers x (region_extent r)"
      using f(2,5) by (simp add: covers_def region_extent_def padded_extent_def)
    with False show ?thesis by (simp add: excess_region_def Let_def)
  qed
  moreover have "disjoint_extents (add_mset (region_extent r) (ll_extents (pre @ suf) bs))"
    using assms(1) by simp
  ultimately have "disjoint_extents (?F + ll_extents (pre @ suf) bs)"
    by (rule disjoint_replace [rotated])
  then show ?thesis by (simp add: ac_simps)
qed

lemma excess_region_ok:
  assumes "region_ok lo hi r" and "region_sane r" and "0 < unat align" and "8 dvd unat align"
    and "8 dvd unat sz" and "region_fit sz align r = Some p"
  shows "\<forall>q\<in>set (excess_region r p sz). region_ok lo hi q"
proof -
  note f = region_fit_facts [OF assms(6,2,3)]
  have "8 dvd unat (p + sz)"
    using dvd_trans [OF assms(4) f(3)] assms(5) by (simp add: f(4))
  then show ?thesis
    using f(2,4,5,7,8) assms(1)
    by (auto simp: excess_region_def Let_def region_ok_def word_less_nat_alt)
qed

lemma ll_rep_region:
  assumes "ll_rep lo hi s m bs rs" and "r \<in> set rs"
  shows "region_ok lo hi r" and "region_sane r" and "node_fits (fst r)"
  using assms region_ok_sane [of lo hi r] by (auto simp: ll_rep_def)

lemma frame_regions_same_on:
  assumes "disjoint_extents (ll_extents rs bs)" and "\<forall>r\<in>set rs. region_ok lo hi r"
    and "frame_nodes as m m'" and "set as \<subseteq> fst ` set rs"
  shows "same_on (image_mset padded_extent bs) m m'"
  using assms(3)
proof (rule frame_nodes_same_on)
  fix a x e
  assume "a \<in> set as" and a: "covers x (node_extent a)" and e: "e \<in># image_mset padded_extent bs"
  then obtain r where r: "r \<in> set rs" "a = fst r" using assms(4) by auto
  with assms(2) a have "region_extent r \<in># image_mset region_extent (mset rs)" "covers x (region_extent r)"
    using covers_node_region by (auto simp: region_ok_def)
  with e show "\<not> covers x e" using disjoint_union_covers [OF assms(1)] by blast
qed

text \<open>Storing the excess of a split region back into the free list.\<close>

lemma push_excess:
  assumes "chain m (node_next (head s)) rest" and "\<forall>r\<in>set (ex @ rest). region_ok lo hi r"
    and "0 < lo" and "hi \<le> isize_max" and "disjoint_extents (ll_extents (ex @ rest) bs)"
    and "ex = excess_region r p sz" and "fst r + snd r - (p + sz) = excess"
  shows "\<exists>s' m'. (if excess > 0 then add_free_region s m (p + sz) excess else Ret (s, m)) = Ret (s', m') \<and>
    chain m' (node_next (head s')) (ex @ rest) \<and> frame_nodes (map fst ex) m m'"
proof (cases "excess > 0")
  case True
  with assms(6,7) have ex: "ex = [(p + sz, excess)]" by (simp add: excess_region_def Let_def)
  have fits: "\<forall>q\<in>set (ex @ rest). node_fits (fst q)"
    using assms(2-4) region_ok_sane(2) by blast
  have "sorted_wrt apart (map fst (ex @ rest))"
    using assms(2,5) by (intro regions_apart) (auto simp: region_ok_def)
  then have "\<forall>q\<in>set rest. apart (fst q) (p + sz)" using ex by (auto simp: apart_commute)
  moreover have "8 dvd unat (p + sz)" "16 \<le> unat excess"
    using assms(2) ex by (simp_all add: region_ok_def)
  ultimately show ?thesis
    using add_free_region_chain [OF assms(1), of "p + sz" excess] True fits ex by simp
next
  case False
  with assms(1,6,7) show ?thesis by (simp add: excess_region_def Let_def frame_nodes_def)
qed

lemma ll_alloc_fit:
  assumes rep: "ll_rep lo hi s m bs rs" and req: "ll_request l"
    and ff: "first_fit (padded_size l) (padded_align l) rs = Some (pre, r, p, suf)"
  shows "\<exists>s' m'. ll_alloc s m l = Ret (p, s', m') \<and> p \<noteq> 0 \<and>
    ll_rep lo hi s' m' (add_mset (p, l) bs) (excess_region r p (padded_size l) @ pre @ suf) \<and>
    same_on (image_mset padded_extent bs) m m'"
proof -
  let ?sz = "padded_size l" and ?al = "padded_align l"
  let ?ex = "excess_region r p ?sz" and ?left = "fst r + snd r - (p + ?sz)"
  have wf: "layout_wf l" using req by (simp add: ll_request_def valid_request_def)
  have pos: "0 < unat ?al" using padded_align_pow2 [OF wf] by (rule power_of_two_pos)
  obtain s1 m1 where fr: "find_region s m ?sz ?al = Ret ((s1, m1), Some (fst r, p))"
    and ch: "chain m1 (node_next (head s1)) (pre @ suf)"
    and frm: "frame_nodes (map fst rs) m m1" and nsz: "node_size (node_read m1 (fst r)) = snd r"
    using find_region_rep [OF rep req] ff by (auto simp: taken_out_def)
  have rs: "rs = pre @ r # suf" and fit: "region_fit ?sz ?al r = Some p"
    using first_fit_Some [OF ff] by blast+
  note reg = ll_rep_region [OF rep, of r, unfolded rs, simplified]
  note f = region_fit_facts [OF fit reg(2) pos]
  have lo: "0 < lo" "hi \<le> isize_max" "lo \<le> unat (fst r)" "unat (fst r) + unat (snd r) \<le> hi"
    using rep reg(1) by (auto simp: ll_rep_def region_ok_def)
  have dis: "disjoint_extents (ll_extents (?ex @ pre @ suf) (add_mset (p, l) bs))"
    using split_region_disjoint [OF _ reg(2) fit pos, of pre suf bs] rep rs by (simp add: ll_rep_def)
  have ok: "\<forall>q\<in>set (?ex @ pre @ suf). region_ok lo hi q"
    using excess_region_ok [OF reg(1,2) pos padded_align_dvd(2) [OF wf] padded_size_facts(3) [OF req] fit]
      rep rs by (auto simp: ll_rep_def)
  obtain s2 m2 where push: "(if ?left > 0 then add_free_region s1 m1 (p + ?sz) ?left
      else Ret (s1, m1)) = Ret (s2, m2)"
    and ch2: "chain m2 (node_next (head s2)) (?ex @ pre @ suf)"
    and frm2: "frame_nodes (map fst ?ex) m1 m2"
    using push_excess [OF ch ok lo(1,2) dis refl refl] by blast
  have "ll_alloc s m l = Ret (p, s2, m2)"
    using fr push f(4-6) nsz lo
    by (simp add: ll_alloc_def size_align_eq [OF req] checked_add_def end_addr_def add_usize_def
        sub_usize_def isize_max_def word_le_nat_alt)
  moreover have "p \<noteq> 0" using f(2) lo by auto
  moreover have "ll_rep lo hi s2 m2 (add_mset (p, l) bs) (?ex @ pre @ suf)"
    using rep ch2 ok dis req f(2,3,5) lo by (auto simp: ll_rep_def ll_block_ok_def)
  moreover have "same_on (image_mset padded_extent bs) m m1"
    using rep by (intro frame_regions_same_on [OF _ _ frm]) (auto simp: ll_rep_def)
  moreover have "same_on (image_mset padded_extent (add_mset (p, l) bs)) m1 m2"
    by (rule frame_regions_same_on [OF dis ok frm2]) auto
  then have "same_on (image_mset padded_extent bs) m1 m2" by (rule same_on_mono) auto
  ultimately show ?thesis by (blast intro: same_on_trans)
qed

lemma ll_alloc_none:
  assumes "ll_rep lo hi s m bs rs" and "ll_request l"
    and "first_fit (padded_size l) (padded_align l) rs = None"
  shows "ll_alloc s m l = Ret (0, s, m)"
  using find_region_rep [OF assms(1,2)] assms(3)
  by (auto simp: ll_alloc_def size_align_eq [OF assms(2)])

lemma ll_dealloc_rep:
  assumes rep: "ll_rep lo hi s m bs rs" and b: "(p, l) \<in># bs"
  shows "\<exists>s' m'. ll_dealloc s m p l = Ret (s', m') \<and>
    ll_rep lo hi s' m' (bs - {#(p, l)#}) ((p, padded_size l) # rs) \<and>
    same_on (image_mset padded_extent (bs - {#(p, l)#})) m m'"
proof -
  obtain cs where cs: "bs = add_mset (p, l) cs" using b by (metis multi_member_split)
  have blk: "ll_block_ok lo hi (p, l)" and lo: "0 < lo" "hi \<le> isize_max"
    using rep cs by (auto simp: ll_rep_def)
  then have req: "ll_request l" by (simp add: ll_block_ok_def)
  then have wf: "layout_wf l" by (simp add: ll_request_def valid_request_def)
  have "8 dvd unat p"
    using blk padded_align_dvd(2) [OF wf] by (auto simp: ll_block_ok_def intro: dvd_trans)
  then have reg: "region_ok lo hi (p, padded_size l)"
    using blk padded_size_facts(1) [OF req] by (simp add: region_ok_def ll_block_ok_def)
  have dis: "disjoint_extents (ll_extents ((p, padded_size l) # rs) cs)"
    using rep cs by (simp add: ll_rep_def region_extent_def [of "(p, padded_size l)"]
        padded_extent_def [of "(p, l)"])
  have ok: "\<forall>r\<in>set ((p, padded_size l) # rs). region_ok lo hi r"
    using rep reg by (auto simp: ll_rep_def)
  then have "sorted_wrt apart (map fst ((p, padded_size l) # rs))"
    using dis by (intro regions_apart) (auto simp: region_ok_def)
  then have "\<forall>r\<in>set rs. apart (fst r) p" by (auto simp: apart_commute)
  moreover have "node_fits p" "\<forall>r\<in>set rs. node_fits (fst r)"
    using ok lo region_ok_sane(2) by force+
  ultimately obtain s' m' where add: "add_free_region s m p (padded_size l) = Ret (s', m')"
    "chain m' (node_next (head s')) ((p, padded_size l) # rs)" "frame_nodes [p] m m'"
    using add_free_region_chain [of m s rs p "padded_size l"] rep reg
    by (auto simp: ll_rep_def region_ok_def)
  have "same_on (image_mset padded_extent cs) m m'"
    by (rule frame_regions_same_on [OF dis ok add(3)]) simp
  moreover have "ll_rep lo hi s' m' cs ((p, padded_size l) # rs)"
    using rep cs add(2) ok dis by (simp add: ll_rep_def)
  ultimately show ?thesis
    using add(1) cs by (simp add: ll_dealloc_def size_align_eq [OF req])
qed

subsection \<open>The contract\<close>

lemma covers_padded:
  assumes "ll_block_ok lo hi b" and "covers x (block_extent b)"
  shows "covers x (padded_extent b)"
  using assms padded_size_facts(2) [of "snd b"]
  by (auto simp: ll_block_ok_def covers_def block_extent_def padded_extent_def)

lemma same_on_padded:
  assumes "\<forall>b\<in>#bs. ll_block_ok lo hi b" and "same_on (image_mset padded_extent bs) m m'"
  shows "same_on (extents bs) m m'"
  using assms covers_padded unfolding same_on_def by fastforce

lemma ll_rep_live:
  assumes "ll_rep lo hi s m bs rs"
  shows "live_ok lo hi bs"
proof -
  have ok: "\<forall>b\<in>#bs. ll_block_ok lo hi b" using assms by (simp add: ll_rep_def)
  have "disjoint_extents (image_mset padded_extent bs)"
    using assms unfolding ll_rep_def by (meson disjoint_extents_mono mset_subset_eq_add_right)
  then have "disjoint_extents (extents bs)"
    by (rule disjoint_image_mono) (use ok covers_padded in blast)
  moreover have "placed lo hi b" if "b \<in># bs" for b
  proof -
    have b: "ll_block_ok lo hi b" using ok that by blast
    then have req: "ll_request (snd b)" and wf: "layout_wf (snd b)"
      by (auto simp: ll_block_ok_def ll_request_def valid_request_def)
    show ?thesis
      using b padded_size_facts(2) [OF req] padded_align_dvd(1) [OF wf]
      by (auto simp: placed_def ll_block_ok_def ll_request_def intro: dvd_trans)
  qed
  ultimately show ?thesis by (simp add: live_ok_def)
qed

lemma ll_rep_node_not_held:
  assumes "ll_rep lo hi s m bs rs" and "r \<in> set rs" and "covers (unat x) (node_extent (fst r))"
  shows "\<not> held bs x"
proof
  assume "held bs x"
  then obtain b where b: "b \<in># bs" "covers (unat x) (block_extent b)" by (auto simp: held_def)
  moreover have "ll_block_ok lo hi b" using assms(1) b(1) by (simp add: ll_rep_def)
  ultimately have pad: "covers (unat x) (padded_extent b)" using covers_padded by blast
  have c: "covers (unat x) (region_extent r)"
    using ll_rep_region(1) [OF assms(1,2)] assms(3) covers_node_region unfolding region_ok_def by blast
  have dis: "disjoint_extents (ll_extents rs bs)" using assms(1) by (simp add: ll_rep_def)
  have "region_extent r \<in># image_mset region_extent (mset rs)"
    and "padded_extent b \<in># image_mset padded_extent bs" using assms(2) b(1) by simp_all
  then show False using disjoint_union_covers [OF dis _ _ c] pad by blast
qed

lemma ll_rep_store:
  assumes "ll_rep lo hi s m bs rs" and "\<And>x. \<not> held bs x \<Longrightarrow> m' x = m x"
  shows "ll_rep lo hi s m' bs rs"
proof -
  have "chain m' (node_next (head s)) rs = chain m (node_next (head s)) rs"
    using ll_rep_region(3) [OF assms(1)] ll_rep_node_not_held [OF assms(1)]
    by (intro chain_cong) (auto intro!: assms(2))
  with assms(1) show ?thesis by (simp add: ll_rep_def)
qed

interpretation linked_list: global_alloc ll_request ll_alloc ll_dealloc ll_inv
proof unfold_locales
  fix lo hi s m bs
  assume "ll_inv lo hi s m bs"
  then show "live_ok lo hi bs" unfolding ll_inv_def using ll_rep_live by blast
next
  fix lo hi s m bs l
  assume "ll_inv lo hi s m bs" and req: "ll_request l"
  then obtain rs where rep: "ll_rep lo hi s m bs rs" by (auto simp: ll_inv_def)
  show "\<exists>p s' m'. ll_alloc s m l = Ret (p, s', m') \<and> same_on (extents bs) m m' \<and>
      ll_inv lo hi s' m' (if p = 0 then bs else add_mset (p, l) bs)"
  proof (cases "first_fit (padded_size l) (padded_align l) rs")
    case None
    then show ?thesis
      using ll_alloc_none [OF rep req] rep by (auto simp: ll_inv_def)
  next
    case (Some t)
    then obtain pre r p suf where "first_fit (padded_size l) (padded_align l) rs = Some (pre, r, p, suf)"
      by (cases t) auto
    from ll_alloc_fit [OF rep req this] obtain s' m' where
      r: "ll_alloc s m l = Ret (p, s', m')" "p \<noteq> 0" "ll_inv lo hi s' m' (add_mset (p, l) bs)"
      "same_on (image_mset padded_extent bs) m m'" unfolding ll_inv_def by blast
    moreover have "same_on (extents bs) m m'"
      using rep r(4) same_on_padded unfolding ll_rep_def by blast
    ultimately show ?thesis by simp
  qed
next
  fix lo hi s m bs p l
  assume "ll_inv lo hi s m bs" and b: "(p, l) \<in># bs"
  then obtain rs where "ll_rep lo hi s m bs rs" by (auto simp: ll_inv_def)
  from ll_dealloc_rep [OF this b] obtain s' m' where r: "ll_dealloc s m p l = Ret (s', m')"
    "ll_rep lo hi s' m' (bs - {#(p, l)#}) ((p, padded_size l) # rs)"
    "same_on (image_mset padded_extent (bs - {#(p, l)#})) m m'" by blast
  then have "same_on (extents (bs - {#(p, l)#})) m m'"
    using same_on_padded unfolding ll_rep_def by blast
  with r show "\<exists>s' m'. ll_dealloc s m p l = Ret (s', m') \<and>
      same_on (extents (bs - {#(p, l)#})) m m' \<and> ll_inv lo hi s' m' (bs - {#(p, l)#})"
    unfolding ll_inv_def by blast
next
  fix lo hi s m bs m'
  assume "ll_inv lo hi s m bs" and "\<And>x. \<not> held bs x \<Longrightarrow> m' x = m x"
  then show "ll_inv lo hi s m' bs" unfolding ll_inv_def using ll_rep_store by blast
qed

lemma ll_init_rep:
  assumes "heap_region_ok start sz"
  shows "\<exists>s m'. ll_init ll_new m start sz = Ret (s, m') \<and>
    ll_rep (unat start) (unat start + unat sz) s m' {#} [(start, sz)]"
proof -
  have fits: "node_fits start"
    using assms by (simp add: heap_region_ok_def node_fits_def isize_max_def)
  obtain s m' where "add_free_region ll_new m start sz = Ret (s, m')"
    "chain m' (node_next (head s)) [(start, sz)]"
    using add_free_region_chain [of m ll_new "[]" start sz] assms fits
    by (auto simp: heap_region_ok_def ll_new_def list_node_new_def)
  with assms show ?thesis
    by (auto simp: ll_init_def ll_rep_def heap_region_ok_def region_ok_def word_less_nat_alt
        disjoint_extents_def)
qed

subsection \<open>Room and reuse\<close>

text \<open>
  The room is the largest region of the free list; a freed block is at the head of the
  list, where first fit finds it again.
\<close>

definition ll_need :: "layout \<Rightarrow> nat" where
  "ll_need l = unat (padded_size l) + unat (padded_align l) + 16"

definition ll_room :: "nat \<Rightarrow> nat \<Rightarrow> nat \<Rightarrow> linked_list_allocator \<Rightarrow> mem \<Rightarrow> block multiset \<Rightarrow> bool" where
  "ll_room lo hi n s m bs \<longleftrightarrow> (\<exists>rs. ll_rep lo hi s m bs rs \<and> (\<exists>r\<in>set rs. n \<le> unat (snd r)))"

lemma region_fit_roomy:
  assumes "ll_need l \<le> unat (snd r)" and "0 < unat (padded_align l)"
  shows "region_fit (padded_size l) (padded_align l) r \<noteq> None"
  using assms round_up_less [OF assms(2), of "unat (fst r)"] by (simp add: region_fit_def ll_need_def Let_def)

lemma first_fit_None: "first_fit sz al rs = None \<longleftrightarrow> (\<forall>r\<in>set rs. region_fit sz al r = None)"
  by (induction rs) (auto split: option.splits)

text \<open>What first fit leaves of a list with a large region.\<close>

lemma first_fit_leaves:
  assumes ff: "first_fit (padded_size l) (padded_align l) rs = Some (pre, r, p, suf)"
    and sane: "\<forall>r\<in>set rs. region_sane r" and pos: "0 < unat (padded_align l)"
    and big: "b \<in> set rs" "n \<le> unat (snd b)" "ll_need l \<le> n"
  shows "\<exists>c\<in>set (excess_region r p (padded_size l) @ pre @ suf). n - ll_need l \<le> unat (snd c)"
proof (cases "b = r")
  case True
  have rs: "rs = pre @ r # suf" and fit: "region_fit (padded_size l) (padded_align l) r = Some p"
    using first_fit_Some [OF ff] by auto
  note f = region_fit_facts [OF fit _ pos] round_up_less [OF pos, of "unat (fst r)"]
  have "region_sane r" using sane rs by simp
  with f True big(2,3) have left: "n - ll_need l < unat (fst r + snd r - (p + padded_size l))"
    by (simp add: ll_need_def)
  then have "0 < unat (fst r + snd r - (p + padded_size l))" by linarith
  then have "0 < fst r + snd r - (p + padded_size l)" unfolding word_less_nat_alt by (simp only: unat_0)
  with left show ?thesis by (simp add: excess_region_def Let_def)
next
  case False
  with first_fit_Some [OF ff] big show ?thesis by (intro bexI [of _ b]) auto
qed

lemma ll_room_alloc:
  assumes "ll_room lo hi n s m bs" and req: "ll_request l" and n: "ll_need l \<le> n"
  shows "\<exists>p s' m'. ll_alloc s m l = Ret (p, s', m') \<and> p \<noteq> 0 \<and> ll_room lo hi (n - ll_need l) s' m' (add_mset (p, l) bs)"
proof -
  obtain rs b where rep: "ll_rep lo hi s m bs rs" and b: "b \<in> set rs" "n \<le> unat (snd b)"
    using assms(1) by (auto simp: ll_room_def)
  have pos: "0 < unat (padded_align l)"
    using req by (simp add: ll_request_def valid_request_def padded_align_pow2 power_of_two_pos)
  have "first_fit (padded_size l) (padded_align l) rs \<noteq> None"
    using region_fit_roomy [OF _ pos, of b] b n unfolding first_fit_None by force
  then obtain pre r p suf where ff: "first_fit (padded_size l) (padded_align l) rs = Some (pre, r, p, suf)" by auto
  have sane: "\<forall>r\<in>set rs. region_sane r" using ll_rep_region(2) [OF rep] by blast
  from ll_alloc_fit [OF rep req ff] first_fit_leaves [OF ff sane pos b n] show ?thesis
    unfolding ll_room_def by blast
qed

lemma ll_room_dealloc:
  assumes "ll_room lo hi n s m bs" and b: "(p, l) \<in># bs" and "ll_dealloc s m p l = Ret (s', m')"
  shows "ll_room lo hi n s' m' (bs - {#(p, l)#})"
proof -
  obtain rs r where "ll_rep lo hi s m bs rs" "r \<in> set rs" "n \<le> unat (snd r)"
    using assms(1) by (auto simp: ll_room_def)
  with ll_dealloc_rep [OF this(1) b] assms(3) show ?thesis
    unfolding ll_room_def by (auto intro!: exI [of _ "(p, padded_size l) # rs"])
qed

lemma ll_reuse_rep:
  assumes rep: "ll_rep lo hi s m bs rs" and b: "(p, l) \<in># bs"
  shows "\<exists>s1 m1 s2 m2. ll_dealloc s m p l = Ret (s1, m1) \<and>
    ll_alloc s1 m1 l = Ret (p, s2, m2) \<and> ll_rep lo hi s2 m2 bs rs \<and> p \<noteq> 0"
proof -
  have blk: "ll_block_ok lo hi (p, l)" "hi \<le> isize_max" using rep b by (auto simp: ll_rep_def)
  then have req: "ll_request l" by (simp add: ll_block_ok_def)
  then have "0 < unat (padded_align l)"
    by (simp add: ll_request_def valid_request_def padded_align_pow2 power_of_two_pos)
  with blk have "region_fit (padded_size l) (padded_align l) (p, padded_size l) = Some p"
    by (simp add: region_fit_def ll_block_ok_def round_up_self)
  then have ff: "first_fit (padded_size l) (padded_align l) ((p, padded_size l) # rs)
      = Some ([], (p, padded_size l), p, rs)" by simp
  from ll_dealloc_rep [OF rep b] obtain s1 m1 where d: "ll_dealloc s m p l = Ret (s1, m1)"
    "ll_rep lo hi s1 m1 (bs - {#(p, l)#}) ((p, padded_size l) # rs)" by blast
  from ll_alloc_fit [OF d(2) req ff] b d(1) show ?thesis by (auto simp: excess_region_def)
qed

interpretation linked_list: reusing_alloc ll_request ll_alloc ll_dealloc ll_inv ll_need ll_room
proof unfold_locales
  show "\<exists>q s'' m''. ll_alloc s' m' l = Ret (q, s'', m'') \<and> q \<noteq> 0 \<and> ll_room lo hi n s'' m'' (add_mset (q, l) (bs - {#(p, l)#}))"
    if "ll_room lo hi n s m bs" "(p, l) \<in># bs" "ll_dealloc s m p l = Ret (s', m')" for lo hi n s m bs p l s' m'
    using that ll_reuse_rep [OF _ that(2)] unfolding ll_room_def by (fastforce simp: insert_DiffM)
  show "ll_room lo hi n s m' bs" if "ll_room lo hi n s m bs" "\<And>x. \<not> held bs x \<Longrightarrow> m' x = m x" for lo hi n s m bs m'
    using that ll_rep_store unfolding ll_room_def by blast
qed (use ll_room_alloc ll_room_dealloc in \<open>auto simp: ll_room_def ll_inv_def intro: order_trans\<close>)

subsection \<open>Properties\<close>

abbreviation example_layout :: layout where
  "example_layout \<equiv> \<lparr>layout_size = 60, layout_align = 64\<rparr>"

lemma ll_request_example: "ll_request example_layout"
  by (simp add: ll_request_def valid_request_def layout_wf_def isize_max_def)

lemma padded_example: "padded_size example_layout = 64" "padded_align example_layout = 64"
proof -
  show al: "padded_align example_layout = 64" by (simp add: padded_align_def LIST_NODE_ALIGN_def)
  show "padded_size example_layout = 64"
    by (simp add: padded_size_def al round_up_def LIST_NODE_SIZE_def)
qed

text \<open>
  C5. The linked-list allocator serves any sequence of client operations without
  panicking or looping, from every heap region it is initialised with, as long as the
  layouts requested are valid, of non-zero size and of at most \<open>isize::MAX - 7\<close> bytes
  (\<open>ll_request\<close>; a larger one is not requested, as it can make \<open>alloc\<close>
  panic, which is shown below); live blocks are
  aligned, inside the heap and disjoint, and stored bytes are intact, although the free
  list is kept in the same memory.
\<close>

theorem ll_client_safe:
  assumes "heap_region_ok start sz"
  shows "\<exists>s m' c. ll_init ll_new m start sz = Ret (s, m') \<and>
    client_run ll_request ll_alloc ll_dealloc ops (fresh_client s m') = Ret c \<and>
    client_ok (unat start) (unat start + unat sz) c"
  using ll_init_rep [OF assms, of m] linked_list.client_run_ok unfolding ll_inv_def by blast

theorem ll_client_safe_witness:
  "\<exists>s m c. ll_init ll_new (\<lambda>_. 0) HEAP_START HEAP_SIZE = Ret (s, m) \<and>
    client_run ll_request ll_alloc ll_dealloc
      [AllocOp example_layout, StoreOp HEAP_START 42, AllocOp example_layout,
       DeallocOp HEAP_START example_layout, AllocOp example_layout]
      (fresh_client s m) = Ret c \<and>
    client_ok (unat HEAP_START) (unat HEAP_START + unat HEAP_SIZE) c"
  by (rule ll_client_safe) (rule heap_region_ok_HEAP)

text \<open>
  C11. \<open>alloc\<close> on the nodes in memory implements first fit on the list of free
  regions: it returns the address that the abstract search returns, null if there is
  none, and leaves a free list that represents the abstract result.
\<close>

theorem ll_alloc_refines_first_fit:
  assumes "ll_rep lo hi s m bs rs" and "ll_request l" and "ll_spec_alloc l rs = (p, rs')"
  shows "\<exists>s' m'. ll_alloc s m l = Ret (p, s', m') \<and>
    ll_rep lo hi s' m' (if p = 0 then bs else add_mset (p, l) bs) rs'"
proof (cases "first_fit (padded_size l) (padded_align l) rs")
  case None
  with assms show ?thesis using ll_alloc_none by (auto simp: ll_spec_alloc_def)
next
  case (Some t)
  then obtain pre r q suf where ff: "first_fit (padded_size l) (padded_align l) rs = Some (pre, r, q, suf)"
    by (cases t) auto
  with assms(3) have "p = q \<and> rs' = excess_region r q (padded_size l) @ pre @ suf"
    by (auto simp: ll_spec_alloc_def)
  with ll_alloc_fit [OF assms(1,2) ff] show ?thesis by auto
qed

lemma ll_spec_alloc_example:
  "ll_spec_alloc example_layout [(0x1010, 0x1000)] = (0x1040, [(0x1080, 0xF90)])"
  by (simp add: ll_spec_alloc_def padded_example region_fit_def round_up_def excess_region_def)

lemma ll_example_rep:
  obtains s m where "ll_init ll_new (\<lambda>_. 0) 0x1010 0x1000 = Ret (s, m)"
    and "ll_rep 0x1010 0x2010 s m {#} [(0x1010, 0x1000)]"
proof -
  have "heap_region_ok 0x1010 0x1000" by (simp add: heap_region_ok_def isize_max_def)
  from ll_init_rep [OF this, of "\<lambda>_. 0"] that show thesis by auto
qed

theorem ll_alloc_refines_first_fit_witness:
  "\<exists>s m s' m'. ll_init ll_new (\<lambda>_. 0) 0x1010 0x1000 = Ret (s, m) \<and>
     ll_alloc s m example_layout = Ret (0x1040, s', m') \<and>
     ll_rep 0x1010 0x2010 s' m' {#(0x1040, example_layout)#} [(0x1080, 0xF90)]"
proof -
  obtain s m where i: "ll_init ll_new (\<lambda>_. 0) 0x1010 0x1000 = Ret (s, m)"
    and r: "ll_rep 0x1010 0x2010 s m {#} [(0x1010, 0x1000)]" by (rule ll_example_rep)
  from ll_alloc_refines_first_fit [OF r ll_request_example ll_spec_alloc_example] i
  show ?thesis by auto
qed

text \<open>
  C24. The search loop ends on every well-formed free list, whatever the request: it
  returns, without a panic, the first region that fits and the aligned start address
  inside it.
\<close>

theorem find_region_terminates:
  assumes "ll_rep lo hi s m bs rs" and "ll_request l"
  shows "\<exists>sm. find_region_from s m HeadRef (padded_size l) (padded_align l) =
    Some (Ret (sm, map_option (\<lambda>(pre, r, p, suf). (fst r, p))
      (first_fit (padded_size l) (padded_align l) rs)))"
proof -
  have "find_region s m (padded_size l) (padded_align l) = Ret (sm, x) \<Longrightarrow>
      find_region_from s m HeadRef (padded_size l) (padded_align l) = Some (Ret (sm, x))" for sm x
    unfolding find_region_def
    by (cases "find_region_from s m HeadRef (padded_size l) (padded_align l)") auto
  with find_region_rep [OF assms] show ?thesis by blast
qed

theorem find_region_terminates_witness:
  "\<exists>s m sm. ll_init ll_new (\<lambda>_. 0) 0x1010 0x1000 = Ret (s, m) \<and>
     find_region_from s m HeadRef 64 64 = Some (Ret (sm, Some (0x1010, 0x1040)))"
proof -
  obtain s m where i: "ll_init ll_new (\<lambda>_. 0) 0x1010 0x1000 = Ret (s, m)"
    and r: "ll_rep 0x1010 0x2010 s m {#} [(0x1010, 0x1000)]" by (rule ll_example_rep)
  from find_region_terminates [OF r ll_request_example] i show ?thesis
    by (auto simp: padded_example region_fit_def round_up_def)
qed

text \<open>
  A freed block is reused at once: freeing a block and allocating with the same
  layout returns the same address, so a loop of allocations and frees never exhausts
  the heap.
\<close>

theorem ll_dealloc_alloc_reuse:
  assumes "ll_inv lo hi s m bs" and "(p, l) \<in># bs"
  shows "\<exists>s1 m1 s2 m2. ll_dealloc s m p l = Ret (s1, m1) \<and>
    ll_alloc s1 m1 l = Ret (p, s2, m2) \<and> ll_inv lo hi s2 m2 bs"
  using assms ll_reuse_rep unfolding ll_inv_def by blast

theorem ll_dealloc_alloc_reuse_witness:
  "\<exists>s m s1 m1 s2 m2. ll_inv 0x1010 0x2010 s m {#(0x1040, example_layout)#} \<and>
     ll_dealloc s m 0x1040 example_layout = Ret (s1, m1) \<and>
     ll_alloc s1 m1 example_layout = Ret (0x1040, s2, m2)"
proof -
  obtain s m where r: "ll_rep 0x1010 0x2010 s m {#} [(0x1010, 0x1000)]" by (rule ll_example_rep)
  have "first_fit (padded_size example_layout) (padded_align example_layout) [(0x1010, 0x1000)]
      = Some ([], (0x1010, 0x1000), 0x1040, [])"
    by (simp add: padded_example region_fit_def round_up_def)
  from ll_alloc_fit [OF r ll_request_example this] obtain s' m'
    where "ll_inv 0x1010 0x2010 s' m' {#(0x1040, example_layout)#}" unfolding ll_inv_def by blast
  with ll_dealloc_alloc_reuse [OF this] show ?thesis by fastforce
qed

definition free_bytes :: "region list \<Rightarrow> nat" where
  "free_bytes rs = (\<Sum>r\<leftarrow>rs. unat (snd r))"

text \<open>
  C38. Accounting of the free bytes: an allocation takes the padded size of the request
  and, on top of it, the gap between the start of the region it uses and the aligned
  start of the block. The gap is in no region of the new list and freeing the block
  does not bring it back.
\<close>

theorem ll_alignment_gap_is_lost:
  assumes "ll_rep lo hi s m bs rs" and "ll_request l"
    and "first_fit (padded_size l) (padded_align l) rs = Some (pre, r, p, suf)"
  shows "\<exists>s1 m1 s2 m2 rs2. ll_alloc s m l = Ret (p, s1, m1) \<and> ll_dealloc s1 m1 p l = Ret (s2, m2) \<and>
    ll_rep lo hi s2 m2 bs rs2 \<and> free_bytes rs2 + (unat p - unat (fst r)) = free_bytes rs"
proof -
  have rs: "rs = pre @ r # suf" and fit: "region_fit (padded_size l) (padded_align l) r = Some p"
    using first_fit_Some [OF assms(3)] by blast+
  have pos: "0 < unat (padded_align l)"
    using assms(2) by (simp add: ll_request_def valid_request_def padded_align_pow2 power_of_two_pos)
  have "region_sane r" using ll_rep_region(2) [OF assms(1)] rs by simp
  note f = region_fit_facts [OF fit this pos]
  let ?rs1 = "excess_region r p (padded_size l) @ pre @ suf"
  obtain s1 m1 where a: "ll_alloc s m l = Ret (p, s1, m1)" "ll_rep lo hi s1 m1 (add_mset (p, l) bs) ?rs1"
    using ll_alloc_fit [OF assms] by blast
  obtain s2 m2 where d: "ll_dealloc s1 m1 p l = Ret (s2, m2)"
    "ll_rep lo hi s2 m2 bs ((p, padded_size l) # ?rs1)"
    using ll_dealloc_rep [OF a(2), of p l] by auto
  have "free_bytes (excess_region r p (padded_size l)) + unat (padded_size l) + (unat p - unat (fst r))
      = unat (snd r)"
    using f(2,5,7) by (auto simp: excess_region_def Let_def free_bytes_def word_less_nat_alt)
  then have "free_bytes ((p, padded_size l) # ?rs1) + (unat p - unat (fst r)) = free_bytes rs"
    using rs by (simp add: free_bytes_def)
  with a d show ?thesis by blast
qed

theorem ll_alignment_gap_is_lost_witness:
  "\<exists>s m s1 m1 s2 m2 rs2. ll_init ll_new (\<lambda>_. 0) 0x1010 0x1000 = Ret (s, m) \<and>
     ll_alloc s m example_layout = Ret (0x1040, s1, m1) \<and>
     ll_dealloc s1 m1 0x1040 example_layout = Ret (s2, m2) \<and>
     ll_rep 0x1010 0x2010 s2 m2 {#} rs2 \<and> free_bytes rs2 = 0x1000 - 0x30"
proof -
  obtain s m where i: "ll_init ll_new (\<lambda>_. 0) 0x1010 0x1000 = Ret (s, m)"
    and r: "ll_rep 0x1010 0x2010 s m {#} [(0x1010, 0x1000)]" by (rule ll_example_rep)
  have "first_fit (padded_size example_layout) (padded_align example_layout) [(0x1010, 0x1000)]
      = Some ([], (0x1010, 0x1000), 0x1040, [])"
    by (simp add: padded_example region_fit_def round_up_def)
  from ll_alignment_gap_is_lost [OF r ll_request_example this] obtain s1 m1 s2 m2 rs2 where
    "ll_alloc s m example_layout = Ret (0x1040, s1, m1)"
    "ll_dealloc s1 m1 0x1040 example_layout = Ret (s2, m2)"
    "ll_rep 0x1010 0x2010 s2 m2 {#} rs2" "free_bytes rs2 = 0x1000 - 0x30"
    by (auto simp: free_bytes_def)
  with i show ?thesis by blast
qed

text \<open>
  C39. A well-formed layout of more than \<open>isize::MAX - 7\<close> bytes whose alignment is
  below that of a node makes \<open>alloc\<close> panic where \<open>GlobalAlloc\<close> asks for a null
  pointer.
\<close>

theorem ll_alloc_oversized_panics:
  assumes "layout_wf l" and "layout_align l < 8" and "isize_max < unat (layout_size l) + 7"
  shows "ll_alloc s m l = Panic (ExpectFailed ''adjusting alignment failed'')"
proof -
  have "align_to l LIST_NODE_ALIGN = None"
    using assms by (simp add: align_to_def from_size_align_def layout_wf_def LIST_NODE_ALIGN_def Let_def)
  then show ?thesis by (simp add: ll_alloc_def size_align_def)
qed

theorem ll_alloc_oversized_panics_witness:
  "layout_wf \<lparr>layout_size = 2 ^ 63 - 1, layout_align = 1\<rparr> \<and>
   ll_alloc ll_new (\<lambda>_. 0) \<lparr>layout_size = 2 ^ 63 - 1, layout_align = 1\<rparr>
     = Panic (ExpectFailed ''adjusting alignment failed'')"
proof -
  have "is_power_of_two 1" using power_of_two_exp [of 0] by simp
  then have "layout_wf \<lparr>layout_size = 2 ^ 63 - 1, layout_align = 1\<rparr>"
    by (simp add: layout_wf_def isize_max_def)
  with ll_alloc_oversized_panics [OF this, of ll_new "\<lambda>_. 0"] show ?thesis
    by (simp add: isize_max_def)
qed

end
