(* ===== verification/Fixed_Size_Block.thy ===== *)
theory Fixed_Size_Block
  imports Linked_List_Allocator
begin

text \<open>
  The kernel's global allocator, \<open>src/allocator/fixed_size_block.rs\<close>. The free lists
  of the nine block sizes are chains of one-word nodes inside the free blocks. The
  fallback, \<open>linked_list_allocator::Heap\<close>, is a crate: its operations are a record
  that the definitions take as an argument, and what the allocator relies on is the
  locale \<open>fallback_heap\<close>. The repository's own \<open>LinkedListAllocator\<close> keeps that
  contract, which gives an instance.
\<close>

definition BLOCK_SIZES :: "usize list" where
  "BLOCK_SIZES = [8, 16, 32, 64, 128, 256, 512, 1024, 2048]"

record 'h heap_ops =
  heap_empty :: 'h
  heap_init :: "'h \<Rightarrow> mem \<Rightarrow> usize \<Rightarrow> usize \<Rightarrow> ('h \<times> mem) outcome"
  allocate_first_fit :: "'h \<Rightarrow> mem \<Rightarrow> layout \<Rightarrow> (usize option \<times> 'h \<times> mem) outcome"
  deallocate :: "'h dealloc_fn"

record 'h fixed_size_block_allocator =
  list_heads :: "usize option list"
  fallback_allocator :: 'h

fun position :: "('a \<Rightarrow> bool) \<Rightarrow> 'a list \<Rightarrow> nat option" where
  "position P [] = None"
| "position P (x # xs) = (if P x then Some 0 else map_option Suc (position P xs))"

definition list_index :: "layout \<Rightarrow> nat option" where
  "list_index l =
     (let required_block_size = max (layout_size l) (layout_align l)
      in position (\<lambda>s. s \<ge> required_block_size) BLOCK_SIZES)"

text \<open>A node of a block list is the link alone.\<close>

definition BLOCK_NODE_SIZE :: usize where
  "BLOCK_NODE_SIZE = 8"

definition BLOCK_NODE_ALIGN :: usize where
  "BLOCK_NODE_ALIGN = 8"

definition block_next :: "mem \<Rightarrow> usize \<Rightarrow> usize option" where
  "block_next m a = bits_ptr (read_usize m a)"

definition block_node_write :: "mem \<Rightarrow> usize \<Rightarrow> usize option \<Rightarrow> mem" where
  "block_node_write m a p = write_usize m a (ptr_bits p)"

definition fsb_new :: "'h heap_ops \<Rightarrow> 'h fixed_size_block_allocator" where
  "fsb_new ops = \<lparr>list_heads = replicate (length BLOCK_SIZES) None, fallback_allocator = heap_empty ops\<rparr>"

definition fsb_init ::
  "'h heap_ops \<Rightarrow> 'h fixed_size_block_allocator \<Rightarrow> mem \<Rightarrow> usize \<Rightarrow> usize \<Rightarrow>
   ('h fixed_size_block_allocator \<times> mem) outcome" where
  "fsb_init ops s m start sz =
     and_then (heap_init ops (fallback_allocator s) m start sz) (\<lambda>(h, m').
     Ret (s\<lparr>fallback_allocator := h\<rparr>, m'))"

definition fallback_alloc :: "'h heap_ops \<Rightarrow> 'h fixed_size_block_allocator alloc_fn" where
  "fallback_alloc ops s m l =
     and_then (allocate_first_fit ops (fallback_allocator s) m l) (\<lambda>(r, h, m').
     Ret (case r of Some ptr \<Rightarrow> ptr | None \<Rightarrow> 0, s\<lparr>fallback_allocator := h\<rparr>, m'))"

definition fsb_alloc :: "'h heap_ops \<Rightarrow> 'h fixed_size_block_allocator alloc_fn" where
  "fsb_alloc ops s m l =
     (case list_index l of
        Some index \<Rightarrow>
          and_then (index_checked (list_heads s) index) (\<lambda>hd_index.
          case hd_index of
            Some node \<Rightarrow>
              Ret (node, s\<lparr>list_heads := (list_heads s)[index := block_next m node]\<rparr>,
                   block_node_write m node None)
          | None \<Rightarrow>
              and_then (index_checked BLOCK_SIZES index) (\<lambda>block_size.
              and_then (expect ''unwrap'' (from_size_align block_size block_size)) (\<lambda>l'.
              fallback_alloc ops s m l')))
      | None \<Rightarrow> fallback_alloc ops s m l)"

definition fsb_dealloc :: "'h heap_ops \<Rightarrow> 'h fixed_size_block_allocator dealloc_fn" where
  "fsb_dealloc ops s m ptr l =
     (case list_index l of
        Some index \<Rightarrow>
          and_then (index_checked (list_heads s) index) (\<lambda>hd_index.
          and_then (index_checked BLOCK_SIZES index) (\<lambda>block_size.
          and_then (assert_that (BLOCK_NODE_SIZE \<le> block_size)) (\<lambda>_.
          and_then (assert_that (BLOCK_NODE_ALIGN \<le> block_size)) (\<lambda>_.
          Ret (s\<lparr>list_heads := (list_heads s)[index := Some ptr]\<rparr>,
               block_node_write m ptr hd_index)))))
      | None \<Rightarrow>
          and_then (expect ''unwrap'' (bits_ptr ptr)) (\<lambda>p.
          and_then (deallocate ops (fallback_allocator s) m p l) (\<lambda>(h, m').
          Ret (s\<lparr>fallback_allocator := h\<rparr>, m'))))"

subsection \<open>Block sizes\<close>

abbreviation block_layout :: "nat \<Rightarrow> layout" where
  "block_layout i \<equiv> \<lparr>layout_size = BLOCK_SIZES ! i, layout_align = BLOCK_SIZES ! i\<rparr>"

lemma length_BLOCK_SIZES [simp]: "length BLOCK_SIZES = 9"
  by (simp add: BLOCK_SIZES_def)

lemma BLOCK_SIZES_map: "BLOCK_SIZES = map (\<lambda>i. 2 ^ (i + 3)) [0..<9]"
  by (simp add: BLOCK_SIZES_def upt_rec)

lemma BLOCK_SIZES_nth: "i < 9 \<Longrightarrow> BLOCK_SIZES ! i = 2 ^ (i + 3)"
  by (simp add: BLOCK_SIZES_map)

lemma position_Some:
  "position P xs = Some i \<longleftrightarrow> i < length xs \<and> P (xs ! i) \<and> (\<forall>j<i. \<not> P (xs ! j))"
proof (induction xs arbitrary: i)
  case Nil
  then show ?case by simp
next
  case (Cons x xs)
  then show ?case by (cases i) (auto simp: less_Suc_eq_0_disj)
qed

lemma position_None: "position P xs = None \<longleftrightarrow> (\<forall>x\<in>set xs. \<not> P x)"
  by (induction xs) auto

lemma unat_BLOCK_SIZES: "i < 9 \<Longrightarrow> unat (BLOCK_SIZES ! i) = 2 ^ (i + 3)"
  unfolding BLOCK_SIZES_nth by (rule unat_exp) simp

lemma BLOCK_SIZES_pow2: "i < 9 \<Longrightarrow> is_power_of_two (BLOCK_SIZES ! i)"
  unfolding BLOCK_SIZES_nth by (rule power_of_two_exp) simp

lemma BLOCK_SIZES_bounds:
  assumes "i < 9"
  shows "8 \<le> unat (BLOCK_SIZES ! i)" and "unat (BLOCK_SIZES ! i) \<le> 2048"
proof -
  have "(2::nat) ^ 3 \<le> 2 ^ (i + 3)" by (rule power_increasing) simp_all
  moreover have "(2::nat) ^ (i + 3) \<le> 2 ^ 11" using assms by (intro power_increasing) simp_all
  ultimately show "8 \<le> unat (BLOCK_SIZES ! i)" and "unat (BLOCK_SIZES ! i) \<le> 2048"
    using assms by (simp_all add: unat_BLOCK_SIZES)
qed

lemma block_layout_valid:
  assumes "i < 9"
  shows "valid_request (block_layout i)" and "from_size_align (BLOCK_SIZES ! i) (BLOCK_SIZES ! i) = Some (block_layout i)"
proof -
  have wf: "layout_wf (block_layout i)"
    using BLOCK_SIZES_bounds [OF assms] BLOCK_SIZES_pow2 [OF assms] by (simp add: layout_wf_def isize_max_def)
  then show "from_size_align (BLOCK_SIZES ! i) (BLOCK_SIZES ! i) = Some (block_layout i)"
    by (simp add: from_size_align_Some)
  show "valid_request (block_layout i)"
    using wf BLOCK_SIZES_bounds(1) [OF assms] by (simp add: valid_request_def word_less_nat_alt)
qed

lemma list_index_Some:
  assumes "list_index l = Some i"
  shows "i < 9" and "layout_size l \<le> BLOCK_SIZES ! i" and "layout_align l \<le> BLOCK_SIZES ! i"
  using assms by (auto simp: list_index_def Let_def position_Some)

lemma block_layout_ll_request: "i < 9 \<Longrightarrow> ll_request (block_layout i)"
  using block_layout_valid(1) [of i] BLOCK_SIZES_bounds(2) [of i]
  by (simp add: ll_request_def isize_max_def)

subsection \<open>Block lists and the blocks held from the fallback\<close>

fun block_chain :: "mem \<Rightarrow> usize option \<Rightarrow> usize list \<Rightarrow> bool" where
  "block_chain m p [] \<longleftrightarrow> p = None"
| "block_chain m p (a # as) \<longleftrightarrow> p = Some a \<and> block_chain m (block_next m a) as"

definition free_blocks :: "(nat \<Rightarrow> usize list) \<Rightarrow> block multiset" where
  "free_blocks fls = (\<Sum>i<9. image_mset (\<lambda>a. (a, block_layout i)) (mset (fls i)))"

definition fallback_block :: "block \<Rightarrow> block" where
  "fallback_block b =
     (fst b, case list_index (snd b) of Some i \<Rightarrow> block_layout i | None \<Rightarrow> snd b)"

definition fsb_request :: "(layout \<Rightarrow> bool) \<Rightarrow> layout \<Rightarrow> bool" where
  "fsb_request req l \<longleftrightarrow> valid_request l \<and> (list_index l = None \<longrightarrow> req l)"

text \<open>
  The fallback sees as live both the blocks in the block lists and the blocks in use,
  each with the layout it was obtained with.
\<close>

definition fsb_rep ::
  "(nat \<Rightarrow> nat \<Rightarrow> 'h \<Rightarrow> mem \<Rightarrow> block multiset \<Rightarrow> bool) \<Rightarrow> nat \<Rightarrow> nat \<Rightarrow>
   'h fixed_size_block_allocator \<Rightarrow> mem \<Rightarrow> block multiset \<Rightarrow> (nat \<Rightarrow> usize list) \<Rightarrow> bool" where
  "fsb_rep hinv lo hi s m bs fls \<longleftrightarrow>
     0 < lo \<and> hi \<le> isize_max \<and> length (list_heads s) = 9 \<and> (\<forall>b\<in>#bs. valid_request (snd b)) \<and>
     (\<forall>i<9. block_chain m (list_heads s ! i) (fls i)) \<and>
     hinv lo hi (fallback_allocator s) m (free_blocks fls + image_mset fallback_block bs)"

definition fsb_inv ::
  "(nat \<Rightarrow> nat \<Rightarrow> 'h \<Rightarrow> mem \<Rightarrow> block multiset \<Rightarrow> bool) \<Rightarrow> nat \<Rightarrow> nat \<Rightarrow>
   'h fixed_size_block_allocator \<Rightarrow> mem \<Rightarrow> block multiset \<Rightarrow> bool" where
  "fsb_inv hinv lo hi s m bs \<longleftrightarrow> (\<exists>fls. fsb_rep hinv lo hi s m bs fls)"

lemma free_blocks_push:
  assumes "i < 9"
  shows "free_blocks (fls(i := a # fls i)) = add_mset (a, block_layout i) (free_blocks fls)"
  using assms by (simp add: free_blocks_def sum.remove [of "{..<9}" i])

lemma free_blocks_pop:
  assumes "i < 9" and "fls i = a # as"
  shows "free_blocks fls = add_mset (a, block_layout i) (free_blocks (fls(i := as)))"
  using free_blocks_push [OF assms(1), of "fls(i := as)" a] assms(2)
  by (simp add: fun_upd_idem)

lemma free_blocks_member:
  assumes "i < 9" and "a \<in> set (fls i)"
  shows "(a, block_layout i) \<in># free_blocks fls"
  using assms by (auto simp: free_blocks_def sum.remove [of "{..<9}" i])

lemma fallback_block_covers:
  assumes "covers x (block_extent b)"
  shows "covers x (block_extent (fallback_block b))"
proof (cases "list_index (snd b)")
  case None
  with assms show ?thesis by (simp add: fallback_block_def)
next
  case (Some i)
  then have "unat (layout_size (snd b)) \<le> unat (BLOCK_SIZES ! i)"
    using list_index_Some(2) word_le_nat_alt by blast
  with assms Some show ?thesis by (simp add: fallback_block_def covers_def block_extent_def)
qed

lemma same_on_fallback:
  assumes "same_on (extents (T + image_mset fallback_block bs)) m m'"
  shows "same_on (extents bs) m m'"
  using assms fallback_block_covers unfolding same_on_def by fastforce

lemma live_ok_fallback:
  assumes "live_ok lo hi (T + image_mset fallback_block bs)" and "\<forall>b\<in>#bs. valid_request (snd b)"
  shows "live_ok lo hi bs"
proof -
  have "disjoint_extents (image_mset (block_extent \<circ> fallback_block) bs)"
    using assms(1) unfolding live_ok_def
    by (auto intro: disjoint_extents_mono simp: image_mset.compositionality)
  then have "disjoint_extents (extents bs)"
    by (rule disjoint_image_mono) (simp add: fallback_block_covers)
  moreover have "placed lo hi b" if "b \<in># bs" for b
  proof -
    have pl: "placed lo hi (fallback_block b)" and v: "valid_request (snd b)"
      using assms that by (auto simp: live_ok_def)
    show ?thesis
    proof (cases "list_index (snd b)")
      case None
      with pl show ?thesis by (simp add: fallback_block_def placed_def)
    next
      case (Some i)
      note li = list_index_Some [OF Some]
      have "unat (layout_align (snd b)) dvd unat (BLOCK_SIZES ! i)"
        using v li BLOCK_SIZES_pow2 by (intro dvd_power_of_two)
          (auto simp: valid_request_def layout_wf_def word_le_nat_alt)
      moreover have "unat (layout_size (snd b)) \<le> unat (BLOCK_SIZES ! i)"
        using li(2) by (simp add: word_le_nat_alt)
      ultimately show ?thesis
        using pl v Some by (auto simp: fallback_block_def placed_def intro: dvd_trans)
    qed
  qed
  ultimately show ?thesis by (simp add: live_ok_def)
qed

text \<open>The node of a block lies inside the block.\<close>

lemma node_in_block:
  assumes "i < 9" and "covers x (unat a, 8)"
  shows "covers x (block_extent (a, block_layout i))"
  using assms BLOCK_SIZES_bounds(1) [OF assms(1)] by (auto simp: covers_def block_extent_def)

lemma block_fits:
  assumes "live_ok lo hi T" and "hi \<le> isize_max" and "(a, block_layout i) \<in># T" and "i < 9"
  shows "unat a + 8 \<le> 2 ^ 64"
  using assms BLOCK_SIZES_bounds(1) [OF assms(4)]
  by (auto simp: live_ok_def placed_def isize_max_def)

lemma block_chain_same_on:
  assumes "same_on (extents T) m m'" and "live_ok lo hi T" and "hi \<le> isize_max" and "i < 9"
    and "\<forall>a\<in>set as. (a, block_layout i) \<in># T"
  shows "block_chain m' p as = block_chain m p as"
  using assms(5)
proof (induction as arbitrary: p)
  case Nil
  then show ?case by simp
next
  case (Cons a as)
  have "read_usize m' a = read_usize m a"
  proof (rule read_usize_cong)
    show "unat a + 8 \<le> 2 ^ 64" using block_fits [OF assms(2,3) _ assms(4)] Cons.prems by simp
    fix x :: usize
    assume "covers (unat x) (unat a, 8)"
    then have "covers (unat x) (block_extent (a, block_layout i))" using node_in_block assms(4) by blast
    with Cons.prems assms(1) show "m' x = m x" unfolding same_on_def by force
  qed
  then show ?case using Cons by (simp add: block_next_def)
qed

text \<open>Writing the node of a held block changes no other block.\<close>

lemma block_node_write_frame:
  assumes "live_ok lo hi (add_mset (p, block_layout i) T)" and "hi \<le> isize_max" and "i < 9"
  shows "same_on (extents T) m (block_node_write m p q)"
    and "\<not> held (add_mset (p, block_layout i) T) x \<Longrightarrow> block_node_write m p q x = m x"
proof -
  have fit: "unat p + 8 \<le> 2 ^ 64" using block_fits [OF assms(1,2) _ assms(3)] by simp
  have other: "block_node_write m p q x = m x" if "\<not> covers (unat x) (block_extent (p, block_layout i))" for x
    unfolding block_node_write_def
    by (rule write_usize_other [OF fit]) (use that node_in_block [OF assms(3)] in blast)
  then show "\<not> held (add_mset (p, block_layout i) T) x \<Longrightarrow> block_node_write m p q x = m x" by simp
  have dis: "disjoint_extents (add_mset (block_extent (p, block_layout i)) (extents T))"
    using assms(1) by (simp add: live_ok_def)
  show "same_on (extents T) m (block_node_write m p q)"
    unfolding same_on_def using other disjoint_extentsD [OF dis] by metis
qed

subsection \<open>The contract of the fallback\<close>

definition first_fit_alloc :: "'h heap_ops \<Rightarrow> 'h alloc_fn" where
  "first_fit_alloc ops h m l =
     and_then (allocate_first_fit ops h m l) (\<lambda>(r, h', m'). Ret (ptr_bits r, h', m'))"

text \<open>
  The heap crate keeps the allocator contract, with its \<open>Result<NonNull<u8>, ()>\<close>
  read as a pointer that is null on \<open>Err\<close>, accepts the layouts of the blocks, and
  \<open>init\<close> on the empty heap hands it a region.
\<close>

locale fallback_heap =
  global_alloc req "first_fit_alloc ops" "deallocate ops" inv
  for req :: "layout \<Rightarrow> bool" and ops :: "'h heap_ops"
    and inv :: "nat \<Rightarrow> nat \<Rightarrow> 'h \<Rightarrow> mem \<Rightarrow> block multiset \<Rightarrow> bool" +
  assumes block_layouts: "i < 9 \<Longrightarrow> req (block_layout i)"
    and init_law: "heap_region_ok start sz \<Longrightarrow>
      \<exists>h m'. heap_init ops (heap_empty ops) m start sz = Ret (h, m') \<and>
        inv (unat start) (unat start + unat sz) h m' {#}"
begin

lemma rep_facts:
  assumes "fsb_rep inv lo hi s m bs fls"
  shows "live_ok lo hi (free_blocks fls + image_mset fallback_block bs)" and "hi \<le> isize_max"
    and "0 < lo" and "length (list_heads s) = 9"
  using assms inv_live by (auto simp: fsb_rep_def)

text \<open>A step of the fallback leaves the block lists and the blocks in use alone.\<close>

lemma rep_fallback_step:
  assumes rep: "fsb_rep inv lo hi s m bs fls"
    and same: "same_on (extents T) m m'" and sub: "free_blocks fls \<subseteq># T"
    and live: "live_ok lo hi T" and v: "\<forall>b\<in>#bs'. valid_request (snd b)"
    and inv': "inv lo hi h m' (free_blocks fls + image_mset fallback_block bs')"
  shows "fsb_rep inv lo hi (s\<lparr>fallback_allocator := h\<rparr>) m' bs' fls"
proof -
  have "block_chain m' (list_heads s ! i) (fls i)" if "i < 9" for i
  proof -
    have "\<forall>a\<in>set (fls i). (a, block_layout i) \<in># T"
      using free_blocks_member [OF that] sub by (meson mset_subset_eqD)
    then show ?thesis
      using block_chain_same_on [OF same live rep_facts(2) [OF rep] that] rep that
      by (auto simp: fsb_rep_def)
  qed
  with rep v inv' show ?thesis by (simp add: fsb_rep_def)
qed

lemma fallback_alloc_rep:
  assumes rep: "fsb_rep inv lo hi s m bs fls" and req: "req l'" and v: "valid_request l"
    and fb: "\<And>p. fallback_block (p, l) = (p, l')"
  shows "\<exists>p s' m'. fallback_alloc ops s m l' = Ret (p, s', m') \<and> same_on (extents bs) m m' \<and>
    fsb_rep inv lo hi s' m' (if p = 0 then bs else add_mset (p, l) bs) fls"
proof -
  let ?T = "free_blocks fls + image_mset fallback_block bs"
  have I: "inv lo hi (fallback_allocator s) m ?T" using rep by (simp add: fsb_rep_def)
  obtain p h m' where r: "first_fit_alloc ops (fallback_allocator s) m l' = Ret (p, h, m')"
    and same: "same_on (extents ?T) m m'"
    and I': "inv lo hi h m' (if p = 0 then ?T else add_mset (p, l') ?T)"
    using alloc_law [OF I req] by blast
  have "fallback_alloc ops s m l' = Ret (p, s\<lparr>fallback_allocator := h\<rparr>, m')"
    using r by (auto simp: first_fit_alloc_def fallback_alloc_def ptr_bits_def)
  moreover have "fsb_rep inv lo hi (s\<lparr>fallback_allocator := h\<rparr>) m' (if p = 0 then bs else add_mset (p, l) bs) fls"
  proof (rule rep_fallback_step [OF rep same _ rep_facts(1) [OF rep]])
    show "\<forall>b\<in>#(if p = 0 then bs else add_mset (p, l) bs). valid_request (snd b)"
      using rep v by (auto simp: fsb_rep_def)
    show "inv lo hi h m' (free_blocks fls + image_mset fallback_block (if p = 0 then bs else add_mset (p, l) bs))"
      using I' fb by (cases "p = 0") simp_all
  qed simp
  ultimately show ?thesis using same_on_fallback [OF same] by blast
qed

text \<open>Taking the first block off a block list, and putting a block on it.\<close>

lemma rep_write:
  assumes rep: "fsb_rep inv lo hi s m bs fls" and i: "i < 9"
    and T: "free_blocks fls + image_mset fallback_block bs = add_mset (p, block_layout i) T"
  shows "same_on (extents T) m (block_node_write m p q)"
    and "inv lo hi (fallback_allocator s) (block_node_write m p q) (add_mset (p, block_layout i) T)"
    and "j < 9 \<Longrightarrow> \<forall>a\<in>set as. (a, block_layout j) \<in># T \<Longrightarrow>
      block_chain (block_node_write m p q) r as = block_chain m r as"
proof -
  have live: "live_ok lo hi (add_mset (p, block_layout i) T)" and hi: "hi \<le> isize_max"
    and I: "inv lo hi (fallback_allocator s) m (add_mset (p, block_layout i) T)"
    using rep rep_facts [OF rep] T by (simp_all add: fsb_rep_def)
  show same: "same_on (extents T) m (block_node_write m p q)"
    by (rule block_node_write_frame(1) [OF live hi i])
  show "inv lo hi (fallback_allocator s) (block_node_write m p q) (add_mset (p, block_layout i) T)"
    using I block_node_write_frame(2) [OF live hi i] by (rule store_law)
  have "live_ok lo hi T" using live_ok_remove [OF live, of "(p, block_layout i)"] by simp
  then show "j < 9 \<Longrightarrow> \<forall>a\<in>set as. (a, block_layout j) \<in># T \<Longrightarrow>
      block_chain (block_node_write m p q) r as = block_chain m r as"
    using block_chain_same_on [OF same _ hi] by blast
qed

lemma pop_rep:
  assumes rep: "fsb_rep inv lo hi s m bs fls" and li: "list_index l = Some i" and v: "valid_request l"
    and hd: "list_heads s ! i = Some p"
  shows "fsb_alloc ops s m l = Ret (p, s\<lparr>list_heads := (list_heads s)[i := block_next m p]\<rparr>, block_node_write m p None)"
    and "p \<noteq> 0" and "same_on (extents bs) m (block_node_write m p None)"
    and "fsb_rep inv lo hi (s\<lparr>list_heads := (list_heads s)[i := block_next m p]\<rparr>)
      (block_node_write m p None) (add_mset (p, l) bs) (fls(i := tl (fls i)))"
proof -
  have i: "i < 9" using li by (rule list_index_Some)
  have len: "length (list_heads s) = 9" using rep by (simp add: fsb_rep_def)
  show "fsb_alloc ops s m l = Ret (p, s\<lparr>list_heads := (list_heads s)[i := block_next m p]\<rparr>, block_node_write m p None)"
    using li i len hd by (simp add: fsb_alloc_def index_checked_def)
  obtain as where as: "fls i = p # as" and ch: "block_chain m (block_next m p) as"
    using rep i hd by (cases "fls i") (auto simp: fsb_rep_def)
  let ?fls = "fls(i := as)" and ?m = "block_node_write m p None"
  have fb: "fallback_block (p, l) = (p, block_layout i)" using li by (simp add: fallback_block_def)
  have T: "free_blocks fls + image_mset fallback_block bs =
      add_mset (p, block_layout i) (free_blocks ?fls + image_mset fallback_block bs)"
    using free_blocks_pop [of i fls p as] i as by simp
  note w = rep_write [OF rep i T, where q = None]
  show "same_on (extents bs) m ?m" using w(1) by (rule same_on_fallback)
  show "p \<noteq> 0"
    using rep_facts(1,3) [OF rep] unfolding T by (auto simp: live_ok_def placed_def)
  have "block_chain ?m ((list_heads s)[i := block_next m p] ! j) (?fls j)" if j: "j < 9" for j
  proof -
    have "\<forall>a\<in>set (?fls j). (a, block_layout j) \<in># free_blocks ?fls + image_mset fallback_block bs"
      using free_blocks_member [OF j, of _ ?fls] by auto
    then have "block_chain ?m q (?fls j) = block_chain m q (?fls j)" for q using w(3) [OF j] by blast
    then show ?thesis using rep ch len i j by (auto simp: fsb_rep_def nth_list_update)
  qed
  then show "fsb_rep inv lo hi (s\<lparr>list_heads := (list_heads s)[i := block_next m p]\<rparr>)
      ?m (add_mset (p, l) bs) (fls(i := tl (fls i)))"
    using rep w(2) fb v as by (simp add: fsb_rep_def)
qed

lemma push_rep:
  assumes rep: "fsb_rep inv lo hi s m bs fls" and li: "list_index l = Some i" and b: "(p, l) \<in># bs"
  defines "m' \<equiv> block_node_write m p (list_heads s ! i)"
  shows "fsb_dealloc ops s m p l = Ret (s\<lparr>list_heads := (list_heads s)[i := Some p]\<rparr>, m')"
    and "same_on (extents (bs - {#(p, l)#})) m m'"
    and "fsb_rep inv lo hi (s\<lparr>list_heads := (list_heads s)[i := Some p]\<rparr>) m'
      (bs - {#(p, l)#}) (fls(i := p # fls i))"
proof -
  have i: "i < 9" using li by (rule list_index_Some)
  have len: "length (list_heads s) = 9" using rep by (simp add: fsb_rep_def)
  have "BLOCK_NODE_SIZE \<le> BLOCK_SIZES ! i" "BLOCK_NODE_ALIGN \<le> BLOCK_SIZES ! i"
    using BLOCK_SIZES_bounds(1) [OF i]
    by (simp_all add: BLOCK_NODE_SIZE_def BLOCK_NODE_ALIGN_def word_le_nat_alt)
  then show "fsb_dealloc ops s m p l = Ret (s\<lparr>list_heads := (list_heads s)[i := Some p]\<rparr>, m')"
    using li i len by (simp add: fsb_dealloc_def index_checked_def m'_def)
  obtain cs where cs: "bs = add_mset (p, l) cs" using b by (metis multi_member_split)
  have T: "free_blocks fls + image_mset fallback_block bs =
      add_mset (p, block_layout i) (free_blocks fls + image_mset fallback_block cs)"
    using cs li by (simp add: fallback_block_def)
  note w = rep_write [OF rep i T, where q = "list_heads s ! i", folded m'_def]
  show "same_on (extents (bs - {#(p, l)#})) m m'" using same_on_fallback [OF w(1)] cs by simp
  have old: "block_chain m' q (fls j) = block_chain m q (fls j)" if j: "j < 9" for j q
    using w(3) [OF j] free_blocks_member [OF j, of _ fls] by auto
  have "list_heads s ! i \<noteq> Some 0"
    using rep i rep_facts(1,3) [OF rep] free_blocks_member [OF i, of _ fls]
    by (cases "fls i") (force simp: fsb_rep_def live_ok_def placed_def)+
  then have "block_next m' p = list_heads s ! i"
    by (simp add: block_next_def m'_def block_node_write_def)
  then have "block_chain m' ((list_heads s)[i := Some p] ! j) ((fls(i := p # fls i)) j)" if "j < 9" for j
    using rep old that len i by (auto simp: fsb_rep_def nth_list_update)
  then show "fsb_rep inv lo hi (s\<lparr>list_heads := (list_heads s)[i := Some p]\<rparr>) m'
      (bs - {#(p, l)#}) (fls(i := p # fls i))"
    using rep w(2) cs free_blocks_push [OF i, of fls p] by (simp add: fsb_rep_def)
qed

lemma fsb_alloc_law:
  assumes "fsb_inv inv lo hi s m bs" and "fsb_request req l"
  shows "\<exists>p s' m'. fsb_alloc ops s m l = Ret (p, s', m') \<and> same_on (extents bs) m m' \<and>
    fsb_inv inv lo hi s' m' (if p = 0 then bs else add_mset (p, l) bs)"
proof -
  obtain fls where rep: "fsb_rep inv lo hi s m bs fls" using assms(1) by (auto simp: fsb_inv_def)
  have v: "valid_request l" using assms(2) by (simp add: fsb_request_def)
  show ?thesis
  proof (cases "list_index l")
    case None
    then have "req l" and "\<And>p. fallback_block (p, l) = (p, l)"
      using assms(2) by (simp_all add: fsb_request_def fallback_block_def)
    then obtain p s' m' where "fallback_alloc ops s m l = Ret (p, s', m')"
      "same_on (extents bs) m m'" "fsb_rep inv lo hi s' m' (if p = 0 then bs else add_mset (p, l) bs) fls"
      using fallback_alloc_rep [OF rep _ v] by blast
    with None show ?thesis unfolding fsb_inv_def by (auto simp: fsb_alloc_def)
  next
    case (Some i)
    then have i: "i < 9" by (rule list_index_Some)
    show ?thesis
    proof (cases "list_heads s ! i")
      case None
      have "fsb_alloc ops s m l = fallback_alloc ops s m (block_layout i)"
        using Some None i rep block_layout_valid(2) [OF i]
        by (simp add: fsb_alloc_def index_checked_def fsb_rep_def)
      moreover have fb: "\<And>p. fallback_block (p, l) = (p, block_layout i)"
        using Some by (simp add: fallback_block_def)
      obtain p s' m' where "fallback_alloc ops s m (block_layout i) = Ret (p, s', m')"
        "same_on (extents bs) m m'" "fsb_rep inv lo hi s' m' (if p = 0 then bs else add_mset (p, l) bs) fls"
        using fallback_alloc_rep [OF rep block_layouts [OF i] v fb] by blast
      ultimately show ?thesis unfolding fsb_inv_def by auto
    next
      case (Some p)
      from pop_rep [OF rep \<open>list_index l = Some i\<close> v Some] show ?thesis
        unfolding fsb_inv_def by auto
    qed
  qed
qed

lemma fallback_dealloc_rep:
  assumes rep: "fsb_rep inv lo hi s m bs fls" and b: "(p, l) \<in># bs" and li: "list_index l = None"
  shows "\<exists>h m'. deallocate ops (fallback_allocator s) m p l = Ret (h, m') \<and>
    fsb_dealloc ops s m p l = Ret (s\<lparr>fallback_allocator := h\<rparr>, m') \<and> same_on (extents (bs - {#(p, l)#})) m m' \<and>
    fsb_rep inv lo hi (s\<lparr>fallback_allocator := h\<rparr>) m' (bs - {#(p, l)#}) fls"
proof -
  obtain cs where cs: "bs = add_mset (p, l) cs" using b by (metis multi_member_split)
  let ?T = "free_blocks fls + image_mset fallback_block cs"
  have T: "free_blocks fls + image_mset fallback_block bs = add_mset (p, l) ?T"
    using cs li by (simp add: fallback_block_def)
  have I: "inv lo hi (fallback_allocator s) m (add_mset (p, l) ?T)"
    using rep T by (simp add: fsb_rep_def)
  obtain h m' where d: "deallocate ops (fallback_allocator s) m p l = Ret (h, m')"
    "same_on (extents ?T) m m'" "inv lo hi h m' ?T"
    using dealloc_law [OF I, of p l] by auto
  have "live_ok lo hi ?T" using inv_live [OF d(3)] .
  moreover have "\<forall>b\<in>#cs. valid_request (snd b)" using rep cs by (simp add: fsb_rep_def)
  ultimately have "fsb_rep inv lo hi (s\<lparr>fallback_allocator := h\<rparr>) m' cs fls"
    using rep_fallback_step [OF rep d(2)] d(3) by simp
  moreover have "p \<noteq> 0"
    using inv_live [OF I] rep_facts(3) [OF rep] by (auto simp: live_ok_def placed_def)
  then have "fsb_dealloc ops s m p l = Ret (s\<lparr>fallback_allocator := h\<rparr>, m')"
    using li d(1) by (simp add: fsb_dealloc_def bits_ptr_def)
  ultimately show ?thesis using d(1) cs same_on_fallback [OF d(2)] by auto
qed

lemma fsb_dealloc_law:
  assumes "fsb_inv inv lo hi s m bs" and b: "(p, l) \<in># bs"
  shows "\<exists>s' m'. fsb_dealloc ops s m p l = Ret (s', m') \<and> same_on (extents (bs - {#(p, l)#})) m m' \<and>
    fsb_inv inv lo hi s' m' (bs - {#(p, l)#})"
proof -
  obtain fls where rep: "fsb_rep inv lo hi s m bs fls" using assms(1) by (auto simp: fsb_inv_def)
  show ?thesis
  proof (cases "list_index l")
    case (Some i)
    from push_rep [OF rep Some b] show ?thesis unfolding fsb_inv_def by blast
  next
    case None
    from fallback_dealloc_rep [OF rep b None] show ?thesis unfolding fsb_inv_def by blast
  qed
qed

lemma held_fallback: "held bs x \<Longrightarrow> held (free_blocks fls + image_mset fallback_block bs) x"
  using fallback_block_covers by (fastforce simp: held_def)

lemma store_rep:
  assumes rep: "fsb_rep inv lo hi s m bs fls" and out: "\<And>x. \<not> held bs x \<Longrightarrow> m' x = m x"
  shows "fsb_rep inv lo hi s m' bs fls"
proof -
  let ?T = "free_blocks fls + image_mset fallback_block bs"
  have live: "live_ok lo hi ?T" "hi \<le> isize_max" using rep_facts [OF rep] by auto
  have inv': "inv lo hi (fallback_allocator s) m' ?T"
  proof (rule store_law)
    show "inv lo hi (fallback_allocator s) m ?T" using rep by (simp add: fsb_rep_def)
    show "m' x = m x" if "\<not> held ?T x" for x using out held_fallback that by blast
  qed
  have same: "same_on (extents (free_blocks fls)) m m'"
    unfolding same_on_def
  proof (intro allI impI)
    fix x :: usize
    assume "\<exists>e\<in>#extents (free_blocks fls). covers (unat x) e"
    then obtain e where e: "e \<in># extents (free_blocks fls)" "covers (unat x) e" by blast
    have "\<not> held bs x"
    proof
      assume "held bs x"
      then obtain b where "b \<in># bs" "covers (unat x) (block_extent b)" by (auto simp: held_def)
      then have b: "block_extent (fallback_block b) \<in># extents (image_mset fallback_block bs)"
        "covers (unat x) (block_extent (fallback_block b))"
        using fallback_block_covers by auto
      have "disjoint_extents (extents (free_blocks fls) + extents (image_mset fallback_block bs))"
        using live by (simp add: live_ok_def)
      from disjoint_union_covers [OF this e(1) b(1) e(2)] b(2) show False by blast
    qed
    then show "m x = m' x" using out by simp
  qed
  have lv: "live_ok lo hi (free_blocks fls)"
    using live(1) unfolding live_ok_def by (auto intro: disjoint_extents_mono)
  have "fsb_rep inv lo hi (s\<lparr>fallback_allocator := fallback_allocator s\<rparr>) m' bs fls"
    by (rule rep_fallback_step [OF rep same _ lv _ inv']) (use rep in \<open>auto simp: fsb_rep_def\<close>)
  then show ?thesis by simp
qed

lemma fsb_store_law:
  assumes "fsb_inv inv lo hi s m bs" and "\<And>x. \<not> held bs x \<Longrightarrow> m' x = m x"
  shows "fsb_inv inv lo hi s m' bs"
  using assms store_rep unfolding fsb_inv_def by blast

end

sublocale fallback_heap \<subseteq> fsb: global_alloc "fsb_request req" "fsb_alloc ops" "fsb_dealloc ops" "fsb_inv inv"
proof unfold_locales
  fix lo hi s m bs
  assume "fsb_inv inv lo hi s m bs"
  then obtain fls where rep: "fsb_rep inv lo hi s m bs fls" by (auto simp: fsb_inv_def)
  then show "live_ok lo hi bs"
    using live_ok_fallback [OF rep_facts(1) [OF rep]] by (simp add: fsb_rep_def)
qed (use fsb_alloc_law fsb_dealloc_law fsb_store_law in blast)+

context fallback_heap
begin

lemma fsb_init_inv:
  assumes "heap_region_ok start sz"
  shows "\<exists>s m'. fsb_init ops (fsb_new ops) m start sz = Ret (s, m') \<and>
    fsb_inv inv (unat start) (unat start + unat sz) s m' {#}"
proof -
  obtain h m' where h: "heap_init ops (heap_empty ops) m start sz = Ret (h, m')"
    and I: "inv (unat start) (unat start + unat sz) h m' {#}" using init_law [OF assms] by blast
  let ?s = "(fsb_new ops)\<lparr>fallback_allocator := h\<rparr>"
  have "fsb_init ops (fsb_new ops) m start sz = Ret (?s, m')"
    using h by (simp add: fsb_init_def fsb_new_def)
  moreover have "fsb_rep inv (unat start) (unat start + unat sz) ?s m' {#} (\<lambda>_. [])"
    using assms I by (simp add: fsb_rep_def fsb_new_def free_blocks_def heap_region_ok_def word_less_nat_alt)
  ultimately show ?thesis unfolding fsb_inv_def by blast
qed

lemmas fsb_client_run = fsb.client_run_ok

lemma fsb_run_ok:
  assumes "heap_region_ok start sz"
  shows "\<exists>s m' c. fsb_init ops (fsb_new ops) m start sz = Ret (s, m') \<and>
    client_run (fsb_request req) (fsb_alloc ops) (fsb_dealloc ops) trace (fresh_client s m') = Ret c \<and>
    client_ok (unat start) (unat start + unat sz) c"
  using fsb_init_inv [OF assms] fsb.client_run_ok by blast

end

subsection \<open>Room and reuse\<close>

text \<open>
  Over a fallback heap that is roomy and reuses memory, so is the block allocator. A
  request needs what its block needs of the fallback.
\<close>

locale roomy_fallback =
  fallback_heap req ops inv + reusing_alloc req "first_fit_alloc ops" "deallocate ops" inv need room
  for req :: "layout \<Rightarrow> bool" and ops :: "'h heap_ops"
    and inv :: "nat \<Rightarrow> nat \<Rightarrow> 'h \<Rightarrow> mem \<Rightarrow> block multiset \<Rightarrow> bool"
    and need :: "layout \<Rightarrow> nat" and room :: "nat \<Rightarrow> nat \<Rightarrow> nat \<Rightarrow> 'h \<Rightarrow> mem \<Rightarrow> block multiset \<Rightarrow> bool" +
  assumes init_room: "heap_region_ok start sz \<Longrightarrow>
      \<exists>h m'. heap_init ops (heap_empty ops) m start sz = Ret (h, m') \<and>
        room (unat start) (unat start + unat sz) (unat sz) h m' {#}"

definition fsb_need :: "(layout \<Rightarrow> nat) \<Rightarrow> layout \<Rightarrow> nat" where
  "fsb_need need l = need (case list_index l of Some i \<Rightarrow> block_layout i | None \<Rightarrow> l)"

definition fsb_room ::
  "(nat \<Rightarrow> nat \<Rightarrow> nat \<Rightarrow> 'h \<Rightarrow> mem \<Rightarrow> block multiset \<Rightarrow> bool) \<Rightarrow> nat \<Rightarrow> nat \<Rightarrow> nat \<Rightarrow>
   'h fixed_size_block_allocator \<Rightarrow> mem \<Rightarrow> block multiset \<Rightarrow> bool" where
  "fsb_room room lo hi n s m bs \<longleftrightarrow> (\<exists>fls. fsb_rep (\<lambda>lo hi. room lo hi n) lo hi s m bs fls)"

context roomy_fallback
begin

lemma rep_room:
  "fsb_rep (\<lambda>lo hi. room lo hi n) lo hi s m bs fls \<longleftrightarrow> fsb_rep inv lo hi s m bs fls \<and>
     room lo hi n (fallback_allocator s) m (free_blocks fls + image_mset fallback_block bs)"
  by (auto simp: fsb_rep_def intro: room_inv)

lemma room_write:
  assumes "room lo hi n h m (add_mset (p, block_layout i) T)" and "hi \<le> isize_max" and "i < 9"
  shows "room lo hi n h (block_node_write m p q) (add_mset (p, block_layout i) T)"
  using assms(1) block_node_write_frame(2) [OF inv_live [OF room_inv [OF assms(1)]] assms(2,3)]
  by (rule room_store)

lemma fallback_alloc_room:
  assumes "fsb_rep (\<lambda>lo hi. room lo hi n) lo hi s m bs fls" and req: "req l'" and v: "valid_request l"
    and fb: "\<And>p. fallback_block (p, l) = (p, l')" and n: "need l' \<le> n"
  shows "\<exists>p s' m'. fallback_alloc ops s m l' = Ret (p, s', m') \<and> p \<noteq> 0 \<and>
    fsb_rep (\<lambda>lo hi. room lo hi (n - need l')) lo hi s' m' (add_mset (p, l) bs) fls"
proof -
  have rep: "fsb_rep inv lo hi s m bs fls"
    and R: "room lo hi n (fallback_allocator s) m (free_blocks fls + image_mset fallback_block bs)"
    using assms(1) by (auto simp: rep_room)
  obtain p h m' where a: "first_fit_alloc ops (fallback_allocator s) m l' = Ret (p, h, m')" "p \<noteq> 0"
    "room lo hi (n - need l') h m' (add_mset (p, l') (free_blocks fls + image_mset fallback_block bs))"
    using room_alloc [OF R req n] by blast
  then have "fallback_alloc ops s m l' = Ret (p, s\<lparr>fallback_allocator := h\<rparr>, m')"
    by (auto simp: first_fit_alloc_def fallback_alloc_def ptr_bits_def)
  moreover from this have "fsb_rep inv lo hi (s\<lparr>fallback_allocator := h\<rparr>) m' (add_mset (p, l) bs) fls"
    using fallback_alloc_rep [OF rep req v fb] a(2) by auto
  ultimately show ?thesis using a(2,3) fb by (auto simp: rep_room)
qed

lemma pop_room:
  assumes "fsb_rep (\<lambda>lo hi. room lo hi n) lo hi s m bs fls" and li: "list_index l = Some i"
    and v: "valid_request l" and hd: "list_heads s ! i = Some p"
  shows "\<exists>s' m'. fsb_alloc ops s m l = Ret (p, s', m') \<and> p \<noteq> 0 \<and> fsb_room room lo hi n s' m' (add_mset (p, l) bs)"
proof -
  let ?s = "s\<lparr>list_heads := (list_heads s)[i := block_next m p]\<rparr>" and ?m = "block_node_write m p None"
  let ?T = "free_blocks (fls(i := tl (fls i))) + image_mset fallback_block bs"
  have i: "i < 9" using li by (rule list_index_Some)
  have rep: "fsb_rep inv lo hi s m bs fls"
    and R: "room lo hi n (fallback_allocator s) m (free_blocks fls + image_mset fallback_block bs)"
    using assms(1) by (auto simp: rep_room)
  note pop = pop_rep [OF rep li v hd]
  have "fls i = p # tl (fls i)" using rep i hd by (cases "fls i") (auto simp: fsb_rep_def)
  then have T: "free_blocks fls + image_mset fallback_block bs = add_mset (p, block_layout i) ?T"
    using free_blocks_pop [of i fls p "tl (fls i)"] i by simp
  have "room lo hi n (fallback_allocator ?s) ?m (add_mset (p, block_layout i) ?T)"
    using room_write [OF R [unfolded T] rep_facts(2) [OF rep] i] by simp
  moreover have "fallback_block (p, l) = (p, block_layout i)" using li by (simp add: fallback_block_def)
  ultimately show ?thesis using pop unfolding fsb_room_def rep_room by auto
qed

lemma fsb_room_alloc:
  assumes "fsb_room room lo hi n s m bs" and "fsb_request req l" and n: "fsb_need need l \<le> n"
  shows "\<exists>p s' m'. fsb_alloc ops s m l = Ret (p, s', m') \<and> p \<noteq> 0 \<and>
    fsb_room room lo hi (n - fsb_need need l) s' m' (add_mset (p, l) bs)"
proof -
  obtain fls where rep: "fsb_rep (\<lambda>lo hi. room lo hi n) lo hi s m bs fls"
    using assms(1) by (auto simp: fsb_room_def)
  have v: "valid_request l" using assms(2) by (simp add: fsb_request_def)
  show ?thesis
  proof (cases "list_index l")
    case None
    then have "req l" "\<And>p. fallback_block (p, l) = (p, l)" "need l \<le> n"
      using assms(2) n by (simp_all add: fsb_request_def fallback_block_def fsb_need_def)
    from fallback_alloc_room [OF rep this(1) v this(2,3)] None show ?thesis
      unfolding fsb_room_def by (auto simp: fsb_alloc_def fsb_need_def)
  next
    case (Some i)
    then have i: "i < 9" by (rule list_index_Some)
    have fb: "\<And>p. fallback_block (p, l) = (p, block_layout i)" and nd: "fsb_need need l = need (block_layout i)"
      using Some by (simp_all add: fallback_block_def fsb_need_def)
    show ?thesis
    proof (cases "list_heads s ! i")
      case None
      have "fsb_alloc ops s m l = fallback_alloc ops s m (block_layout i)"
        using Some None i rep block_layout_valid(2) [OF i]
        by (simp add: fsb_alloc_def index_checked_def fsb_rep_def)
      then show ?thesis
        using fallback_alloc_room [OF rep block_layouts [OF i] v fb] n nd unfolding fsb_room_def by auto
    next
      case hd: (Some p)
      from pop_room [OF rep Some v hd] show ?thesis
        unfolding fsb_room_def rep_room using room_mono [OF _ diff_le_self] by blast
    qed
  qed
qed

lemma fsb_room_dealloc:
  assumes "fsb_room room lo hi n s m bs" and b: "(p, l) \<in># bs" and d: "fsb_dealloc ops s m p l = Ret (s', m')"
  shows "fsb_room room lo hi n s' m' (bs - {#(p, l)#})"
proof -
  obtain fls where rep: "fsb_rep inv lo hi s m bs fls"
    and R: "room lo hi n (fallback_allocator s) m (free_blocks fls + image_mset fallback_block bs)"
    using assms(1) by (auto simp: fsb_room_def rep_room)
  obtain cs where cs: "bs = add_mset (p, l) cs" using b by (metis multi_member_split)
  show ?thesis
  proof (cases "list_index l")
    case (Some i)
    then have i: "i < 9" by (rule list_index_Some)
    let ?T = "free_blocks fls + image_mset fallback_block cs"
    have T: "free_blocks fls + image_mset fallback_block bs = add_mset (p, block_layout i) ?T"
      using cs Some by (simp add: fallback_block_def)
    note push = push_rep [OF rep Some b]
    have "room lo hi n (fallback_allocator s') m' (add_mset (p, block_layout i) ?T)"
      using room_write [OF R [unfolded T] rep_facts(2) [OF rep] i, of "list_heads s ! i"] push(1) d by auto
    then show ?thesis using push(1,3) d cs free_blocks_push [OF i, of fls p]
      unfolding fsb_room_def rep_room by auto
  next
    case None
    then have m: "(p, l) \<in># free_blocks fls + image_mset fallback_block bs"
      using cs by (simp add: fallback_block_def)
    obtain h where h: "deallocate ops (fallback_allocator s) m p l = Ret (h, m')"
      "s' = s\<lparr>fallback_allocator := h\<rparr>" "fsb_rep inv lo hi s' m' (bs - {#(p, l)#}) fls"
      using fallback_dealloc_rep [OF rep b None] d by auto
    then show ?thesis using room_dealloc [OF R m h(1)] cs None
      unfolding fsb_room_def rep_room by (auto simp: fallback_block_def)
  qed
qed

lemma fsb_room_store:
  assumes "fsb_room room lo hi n s m bs" and out: "\<And>x. \<not> held bs x \<Longrightarrow> m' x = m x"
  shows "fsb_room room lo hi n s m' bs"
proof -
  obtain fls where rep: "fsb_rep inv lo hi s m bs fls"
    and R: "room lo hi n (fallback_allocator s) m (free_blocks fls + image_mset fallback_block bs)"
    using assms(1) by (auto simp: fsb_room_def rep_room)
  have "room lo hi n (fallback_allocator s) m' (free_blocks fls + image_mset fallback_block bs)"
    by (rule room_store [OF R]) (auto intro!: out dest: held_fallback)
  with store_rep [OF rep out] show ?thesis unfolding fsb_room_def rep_room by blast
qed

lemma fsb_reuse:
  assumes R: "fsb_room room lo hi n s m bs" and req: "fsb_request req l" and b: "(p, l) \<in># bs"
    and d: "fsb_dealloc ops s m p l = Ret (s', m')"
  shows "\<exists>q s'' m''. fsb_alloc ops s' m' l = Ret (q, s'', m'') \<and> q \<noteq> 0 \<and>
    fsb_room room lo hi n s'' m'' (add_mset (q, l) (bs - {#(p, l)#}))"
proof (cases "list_index l")
  case (Some i)
  obtain fls where rep: "fsb_rep inv lo hi s m bs fls" using R by (auto simp: fsb_room_def rep_room)
  have hd: "list_heads s' ! i = Some p"
    using push_rep(1) [OF rep Some b] d list_index_Some(1) [OF Some] rep_facts(4) [OF rep] by auto
  obtain fls' where r: "fsb_rep (\<lambda>lo hi. room lo hi n) lo hi s' m' (bs - {#(p, l)#}) fls'"
    using fsb_room_dealloc [OF R b d] by (auto simp: fsb_room_def)
  have "valid_request l" using req by (simp add: fsb_request_def)
  from pop_room [OF r Some this hd] show ?thesis by blast
next
  case None
  obtain fls where rep: "fsb_rep inv lo hi s m bs fls"
    and R': "room lo hi n (fallback_allocator s) m (free_blocks fls + image_mset fallback_block bs)"
    using R by (auto simp: fsb_room_def rep_room)
  obtain cs where cs: "bs = add_mset (p, l) cs" using b by (metis multi_member_split)
  have fb: "\<And>p. fallback_block (p, l) = (p, l)" using None by (simp add: fallback_block_def)
  have rq: "req l" "valid_request l" using req None by (simp_all add: fsb_request_def)
  obtain h where h: "deallocate ops (fallback_allocator s) m p l = Ret (h, m')" "s' = s\<lparr>fallback_allocator := h\<rparr>"
    "fsb_rep inv lo hi s' m' cs fls"
    using fallback_dealloc_rep [OF rep b None] d cs by auto
  obtain q h' m'' where a: "first_fit_alloc ops h m' l = Ret (q, h', m'')" "q \<noteq> 0"
    "room lo hi n h' m'' (add_mset (q, l) (free_blocks fls + image_mset fallback_block cs))"
    using reuse_law [OF R' rq(1) _ h(1)] cs fb by auto
  then have "fallback_alloc ops s' m' l = Ret (q, s'\<lparr>fallback_allocator := h'\<rparr>, m'')"
    using h(2) by (auto simp: first_fit_alloc_def fallback_alloc_def ptr_bits_def)
  with fallback_alloc_rep [OF h(3) rq fb] a(2,3) None cs fb show ?thesis
    unfolding fsb_room_def rep_room by (auto simp: fsb_alloc_def)
qed

end

sublocale roomy_fallback \<subseteq> fsb: reusing_alloc "fsb_request req" "fsb_alloc ops" "fsb_dealloc ops" "fsb_inv inv"
  "fsb_need need" "fsb_room room"
proof unfold_locales
  show "fsb_inv inv lo hi s m bs" if "fsb_room room lo hi n s m bs" for lo hi n s m bs
    using that by (auto simp: fsb_room_def rep_room fsb_inv_def)
  show "fsb_room room lo hi k s m bs" if "fsb_room room lo hi n s m bs" "k \<le> n" for lo hi n s m bs k
    using that room_mono unfolding fsb_room_def rep_room by blast
  show "fsb_room room lo hi n s m' bs" if "fsb_room room lo hi n s m bs" "\<And>x. \<not> held bs x \<Longrightarrow> m' x = m x" for lo hi n s m bs m'
    using that by (rule fsb_room_store)
qed (rule fsb_room_alloc fsb_room_dealloc fsb_reuse; assumption)+

context roomy_fallback
begin

lemma fsb_init_room:
  assumes "heap_region_ok start sz"
  shows "\<exists>s m'. fsb_init ops (fsb_new ops) m start sz = Ret (s, m') \<and>
    fsb_room room (unat start) (unat start + unat sz) (unat sz) s m' {#}"
proof -
  obtain h m' where h: "heap_init ops (heap_empty ops) m start sz = Ret (h, m')"
    and R: "room (unat start) (unat start + unat sz) (unat sz) h m' {#}" using init_room [OF assms] by blast
  let ?s = "(fsb_new ops)\<lparr>fallback_allocator := h\<rparr>"
  have "fsb_rep (\<lambda>lo hi. room lo hi (unat sz)) (unat start) (unat start + unat sz) ?s m' {#} (\<lambda>_. [])"
    using assms R by (simp add: fsb_rep_def fsb_new_def free_blocks_def heap_region_ok_def word_less_nat_alt)
  then show ?thesis using h unfolding fsb_room_def by (auto simp: fsb_init_def fsb_new_def)
qed

end

subsection \<open>The repository's linked-list allocator as fallback\<close>

text \<open>
  The \<open>LinkedListAllocator\<close> of \<open>linked_list.rs\<close> behind the interface of the
  heap crate. It meets the contract, so the contract can be met.
\<close>

definition ll_heap_ops :: "linked_list_allocator heap_ops" where
  "ll_heap_ops = \<lparr>heap_empty = ll_new, heap_init = ll_init,
     allocate_first_fit = (\<lambda>s m l. and_then (ll_alloc s m l) (\<lambda>(p, s', m'). Ret (bits_ptr p, s', m'))),
     deallocate = ll_dealloc\<rparr>"

lemma first_fit_alloc_ll: "first_fit_alloc ll_heap_ops = ll_alloc"
proof (intro ext)
  fix s m l
  show "first_fit_alloc ll_heap_ops s m l = ll_alloc s m l"
    by (cases "ll_alloc s m l")
      (auto simp: first_fit_alloc_def ll_heap_ops_def bits_ptr_def ptr_bits_def split: prod.splits)
qed

lemma deallocate_ll: "deallocate ll_heap_ops = ll_dealloc"
  by (simp add: ll_heap_ops_def)

interpretation ll_fallback: fallback_heap ll_request ll_heap_ops ll_inv
proof (unfold fallback_heap_def fallback_heap_axioms_def first_fit_alloc_ll deallocate_ll, intro conjI allI impI)
  show "global_alloc ll_request ll_alloc ll_dealloc ll_inv" by unfold_locales
  show "ll_request (block_layout i)" if "i < 9" for i using that by (rule block_layout_ll_request)
  show "\<exists>h m'. heap_init ll_heap_ops (heap_empty ll_heap_ops) m start sz = Ret (h, m') \<and>
      ll_inv (unat start) (unat start + unat sz) h m' {#}" if "heap_region_ok start sz" for start sz m
    using ll_init_rep [OF that, of m] unfolding ll_heap_ops_def ll_inv_def by auto
qed

lemma ll_init_room:
  assumes "heap_region_ok start sz"
  shows "\<exists>h m'. heap_init ll_heap_ops (heap_empty ll_heap_ops) m start sz = Ret (h, m') \<and>
    ll_room (unat start) (unat start + unat sz) (unat sz) h m' {#}"
  using ll_init_rep [OF assms, of m] by (fastforce simp: ll_heap_ops_def ll_room_def)

interpretation ll_fallback: roomy_fallback ll_request ll_heap_ops ll_inv ll_need ll_room
  using linked_list.reusing_alloc_axioms ll_fallback.fallback_heap_axioms ll_init_room
  by (simp add: roomy_fallback_def roomy_fallback_axioms_def first_fit_alloc_ll deallocate_ll)

subsection \<open>Properties\<close>

text \<open>
  C1. Over every fallback heap that keeps the allocator contract, the fixed-size-block
  allocator keeps it too: any sequence of client operations is served without a panic,
  as long as the layouts requested are valid, of non-zero size and, where they are too
  large for a block list, among those the fallback accepts (\<open>fsb_request\<close>; a request
  outside is not made); the blocks handed out are aligned, inside the heap and pairwise disjoint, and stored
  bytes are intact, although blocks are recycled through lists kept inside them.
\<close>

theorem fsb_client_safe:
  assumes "fallback_heap req ops hinv" and "heap_region_ok start sz"
  shows "\<exists>s m' c. fsb_init ops (fsb_new ops) m start sz = Ret (s, m') \<and>
    client_run (fsb_request req) (fsb_alloc ops) (fsb_dealloc ops) trace (fresh_client s m') = Ret c \<and>
    client_ok (unat start) (unat start + unat sz) c"
  using assms by (rule fallback_heap.fsb_run_ok)

theorem fsb_client_safe_witness:
  "\<exists>s m' c. fsb_init ll_heap_ops (fsb_new ll_heap_ops) (\<lambda>_. 0) HEAP_START HEAP_SIZE = Ret (s, m') \<and>
    client_run (fsb_request ll_request) (fsb_alloc ll_heap_ops) (fsb_dealloc ll_heap_ops)
      [AllocOp example_layout, StoreOp HEAP_START 42, DeallocOp HEAP_START example_layout,
       AllocOp example_layout] (fresh_client s m') = Ret c \<and>
    client_ok (unat HEAP_START) (unat HEAP_START + unat HEAP_SIZE) c"
  by (rule fsb_client_safe [OF ll_fallback.fallback_heap_axioms heap_region_ok_HEAP])

text \<open>
  \<open>list_index\<close> picks the smallest block size that holds the layout: the block
  is large enough and sufficiently aligned, unless it is the smallest block less than
  half of it is wasted, and only layouts above 2048 bytes go to the fallback.
\<close>

theorem list_index_tight:
  assumes "layout_wf l"
  shows "case list_index l of
      None \<Rightarrow> 2048 < max (unat (layout_size l)) (unat (layout_align l))
    | Some i \<Rightarrow> i < length BLOCK_SIZES \<and> unat (layout_size l) \<le> unat (BLOCK_SIZES ! i) \<and>
        unat (layout_align l) dvd unat (BLOCK_SIZES ! i) \<and>
        (i = 0 \<or> unat (BLOCK_SIZES ! i) < 2 * max (unat (layout_size l)) (unat (layout_align l)))"
proof (cases "list_index l")
  case None
  then have "2048 < max (layout_size l) (layout_align l)"
    unfolding list_index_def Let_def position_None by (simp add: BLOCK_SIZES_def not_le less_max_iff_disj)
  with None show ?thesis by (auto simp: word_less_nat_alt less_max_iff_disj)
next
  case (Some i)
  note li = list_index_Some [OF Some]
  have "unat (layout_align l) dvd unat (BLOCK_SIZES ! i)"
    using assms li BLOCK_SIZES_pow2 by (intro dvd_power_of_two) (auto simp: layout_wf_def word_le_nat_alt)
  moreover have "unat (BLOCK_SIZES ! i) < 2 * max (unat (layout_size l)) (unat (layout_align l))" if "i = Suc j" for j
  proof -
    have "BLOCK_SIZES ! j < max (layout_size l) (layout_align l)"
      using Some that unfolding list_index_def Let_def position_Some by (simp add: not_le less_max_iff_disj)
    then have "unat (BLOCK_SIZES ! j) < max (unat (layout_size l)) (unat (layout_align l))"
      by (auto simp: word_less_nat_alt less_max_iff_disj)
    with that li(1) show ?thesis by (simp add: unat_BLOCK_SIZES power_add)
  qed
  ultimately show ?thesis using Some li by (cases i) (simp_all add: word_le_nat_alt)
qed

theorem list_index_tight_witness:
  "list_index \<lparr>layout_size = 24, layout_align = 8\<rparr> = Some 2 \<and>
   unat (BLOCK_SIZES ! 2) < 2 * max (unat (24::usize)) (unat (8::usize))"
proof -
  have "layout_wf \<lparr>layout_size = 24, layout_align = 8\<rparr>" by (simp add: layout_wf_def isize_max_def)
  moreover have "list_index \<lparr>layout_size = 24, layout_align = 8\<rparr> = Some 2"
    by (simp add: list_index_def BLOCK_SIZES_def max_def)
  ultimately show ?thesis using list_index_tight [of "\<lparr>layout_size = 24, layout_align = 8\<rparr>"] by simp
qed

text \<open>
  C33. A freed block is the next block of its size to be handed out, for any layout of
  the same size class, in constant time: the fallback heap is not called and the
  allocator's state is exactly what it was before the block was freed.
\<close>

theorem fsb_dealloc_alloc_reuse:
  assumes "list_index l = Some i" and "list_index l' = Some i"
    and "length (list_heads s) = length BLOCK_SIZES" and "list_heads s ! i \<noteq> Some 0"
    and "unat p + 8 \<le> 2 ^ 64"
  shows "\<exists>s1 m1 m2. fsb_dealloc ops s m p l = Ret (s1, m1) \<and>
    fallback_allocator s1 = fallback_allocator s \<and> fsb_alloc ops s1 m1 l' = Ret (p, s, m2)"
proof -
  have i: "i < 9" using assms(1) by (rule list_index_Some)
  let ?s = "s\<lparr>list_heads := (list_heads s)[i := Some p]\<rparr>"
  let ?m = "block_node_write m p (list_heads s ! i)"
  have "fsb_dealloc ops s m p l = Ret (?s, ?m)"
    using assms i BLOCK_SIZES_bounds(1) [OF i]
    by (simp add: fsb_dealloc_def index_checked_def BLOCK_NODE_SIZE_def BLOCK_NODE_ALIGN_def word_le_nat_alt)
  moreover have "block_next ?m p = list_heads s ! i"
    using assms(4,5) by (auto simp add: block_next_def block_node_write_def ptr_bits_def bits_ptr_def
        split: option.splits)
  then have "fsb_alloc ops ?s ?m l' = Ret (p, s, block_node_write ?m p None)"
    using assms i by (simp add: fsb_alloc_def index_checked_def)
  ultimately show ?thesis by auto
qed

theorem fsb_dealloc_alloc_reuse_witness:
  "\<exists>s1 m1 m2. fsb_dealloc ll_heap_ops (fsb_new ll_heap_ops) (\<lambda>_. 0) 0x1000 \<lparr>layout_size = 24, layout_align = 8\<rparr> = Ret (s1, m1) \<and>
    fallback_allocator s1 = fallback_allocator (fsb_new ll_heap_ops) \<and>
    fsb_alloc ll_heap_ops s1 m1 \<lparr>layout_size = 32, layout_align = 16\<rparr> = Ret (0x1000, fsb_new ll_heap_ops, m2)"
  by (rule fsb_dealloc_alloc_reuse [where i = 2])
    (simp_all add: list_index_def BLOCK_SIZES_def max_def fsb_new_def)

end
