(* ===== verification/Heap_Init.thy ===== *)
theory Heap_Init
  imports Frame_Memory Fixed_Size_Block
begin

text \<open>
  The creation of the kernel heap, \<open>init_heap\<close> of \<open>src/allocator.rs\<close>: the pages of
  the heap range are mapped to freshly allocated frames, and the global allocator is
  initialised once they are. Virtual addresses, pages and the \<open>Mapper\<close> are of the
  \<open>x86_64\<close> crate; the locales \<open>virt_pages\<close> and \<open>page_mapper\<close> state what
  \<open>init_heap\<close> relies on.
\<close>

datatype page_flag = PRESENT | WRITABLE

text \<open>\<open>MapToError\<close>; the errors that only the crate raises are of type \<open>'e\<close>.\<close>

datatype 'e map_to_error = FrameAllocationFailed | MapperError 'e

record ('v, 'p) virt_ops =
  virt_new :: "u64 \<Rightarrow> 'v outcome"
  virt_add :: "'v \<Rightarrow> u64 \<Rightarrow> 'v outcome"
  virt_sub :: "'v \<Rightarrow> u64 \<Rightarrow> 'v outcome"
  page_containing :: "'v \<Rightarrow> 'p"
  page_range_inclusive :: "'p \<Rightarrow> 'p \<Rightarrow> 'p list"

record ('pt, 'p, 'f, 'fa, 'e) mapper_ops =
  map_to :: "'pt \<Rightarrow> 'p \<Rightarrow> 'f \<Rightarrow> page_flag set \<Rightarrow> 'fa \<Rightarrow> (('e map_to_error + unit) \<times> 'pt \<times> 'fa) outcome"
  map_flush :: "'p \<Rightarrow> 'pt \<Rightarrow> 'pt"

definition heap_pages :: "('v, 'p) virt_ops \<Rightarrow> 'p list outcome" where
  "heap_pages vops =
     and_then (virt_new vops HEAP_START) (\<lambda>heap_start.
     and_then (virt_add vops heap_start HEAP_SIZE) (\<lambda>v.
     and_then (virt_sub vops v 1) (\<lambda>heap_end.
     let heap_start_page = page_containing vops heap_start;
         heap_end_page = page_containing vops heap_end
     in Ret (page_range_inclusive vops heap_start_page heap_end_page))))"

text \<open>The loop over the pages; an error leaves it at once.\<close>

fun map_pages ::
  "('pt, 'p, 'f, 'fa, 'e) mapper_ops \<Rightarrow> ('fa \<Rightarrow> ('f option \<times> 'fa) outcome) \<Rightarrow> 'p list \<Rightarrow> 'pt \<Rightarrow> 'fa \<Rightarrow>
   (('e map_to_error + unit) \<times> 'pt \<times> 'fa) outcome" where
  "map_pages mp alloc [] pt fa = Ret (Inr (), pt, fa)"
| "map_pages mp alloc (page # pages) pt fa =
     and_then (alloc fa) (\<lambda>(f, fa).
     case f of
       None \<Rightarrow> Ret (Inl FrameAllocationFailed, pt, fa)
     | Some frame \<Rightarrow>
         let flags = {PRESENT} \<union> {WRITABLE}
         in and_then (map_to mp pt page frame flags fa) (\<lambda>(r, pt, fa).
            case r of
              Inl e \<Rightarrow> Ret (Inl e, pt, fa)
            | Inr _ \<Rightarrow> map_pages mp alloc pages (map_flush mp page pt) fa))"

record ('pt, 'fa, 'h) heap_state =
  page_tables :: 'pt
  frame_state :: 'fa
  global_allocator :: "'h fixed_size_block_allocator"
  heap_memory :: mem

definition init_heap ::
  "('v, 'p) virt_ops \<Rightarrow> ('pt, 'p, 'f, 'fa, 'e) mapper_ops \<Rightarrow> ('fa \<Rightarrow> ('f option \<times> 'fa) outcome) \<Rightarrow>
   'h heap_ops \<Rightarrow> ('pt, 'fa, 'h) heap_state \<Rightarrow>
   (('e map_to_error + unit) \<times> ('pt, 'fa, 'h) heap_state) outcome" where
  "init_heap vops mp alloc hops st =
     and_then (heap_pages vops) (\<lambda>page_range.
     and_then (map_pages mp alloc page_range (page_tables st) (frame_state st)) (\<lambda>(r, pt, fa).
     let st = st\<lparr>page_tables := pt, frame_state := fa\<rparr>
     in case r of
          Inl e \<Rightarrow> Ret (Inl e, st)
        | Inr _ \<Rightarrow>
            and_then (fsb_init hops (global_allocator st) (heap_memory st) HEAP_START HEAP_SIZE) (\<lambda>(h, m).
            Ret (Inr (), st\<lparr>global_allocator := h, heap_memory := m\<rparr>))))"

subsection \<open>The contracts\<close>

text \<open>
  In the lower half of the address space virtual addresses are numbers, a page contains
  the addresses with its page number, and an inclusive range steps through the numbers.
\<close>

locale virt_pages =
  fixes vops :: "('v, 'p) virt_ops" and addr :: "'v \<Rightarrow> nat" and page_no :: "'p \<Rightarrow> nat"
  assumes virt_new_law: "unat a < 2 ^ 47 \<Longrightarrow> \<exists>v. virt_new vops a = Ret v \<and> addr v = unat a"
    and virt_add_law: "addr v + unat n < 2 ^ 47 \<Longrightarrow> \<exists>w. virt_add vops v n = Ret w \<and> addr w = addr v + unat n"
    and virt_sub_law: "addr v < 2 ^ 47 \<Longrightarrow> unat n \<le> addr v \<Longrightarrow>
      \<exists>w. virt_sub vops v n = Ret w \<and> addr w = addr v - unat n"
    and page_containing_law: "addr v < 2 ^ 47 \<Longrightarrow> page_no (page_containing vops v) = addr v div 4096"
    and page_range_law: "page_no q < 2 ^ 35 \<Longrightarrow>
      map page_no (page_range_inclusive vops p q) = [page_no p..<Suc (page_no q)]"
begin

lemma heap_pages_law:
  "\<exists>ps. heap_pages vops = Ret ps \<and> map page_no ps = map (\<lambda>i. unat HEAP_START div 4096 + i) [0..<25]"
proof -
  obtain s where s: "virt_new vops HEAP_START = Ret s" "addr s = unat HEAP_START"
    using virt_new_law [of HEAP_START] by (auto simp: HEAP_START_def)
  obtain v where v: "virt_add vops s HEAP_SIZE = Ret v" "addr v = unat HEAP_START + unat HEAP_SIZE"
    using virt_add_law [of s HEAP_SIZE] s by (auto simp: HEAP_START_def HEAP_SIZE_def)
  obtain e where e: "virt_sub vops v 1 = Ret e" "addr e = unat HEAP_START + unat HEAP_SIZE - 1"
    using virt_sub_law [of v 1] v by (auto simp: HEAP_START_def HEAP_SIZE_def)
  let ?r = "page_range_inclusive vops (page_containing vops s) (page_containing vops e)"
  have "page_no (page_containing vops s) = unat HEAP_START div 4096"
    "page_no (page_containing vops e) = unat HEAP_START div 4096 + 24"
    using s e by (simp_all add: page_containing_law HEAP_START_def HEAP_SIZE_def)
  then have "map page_no ?r = [unat HEAP_START div 4096..<Suc (unat HEAP_START div 4096 + 24)]"
    using page_range_law [of "page_containing vops e" "page_containing vops s"] by (simp add: HEAP_START_def)
  moreover have "[n..<Suc (n + 24)] = map (\<lambda>i. n + i) [0..<25]" for n
    by (rule nth_equalityI) (simp_all del: upt_Suc)
  ultimately show ?thesis using s(1) v(1) e(1) by (simp add: heap_pages_def)
qed

end

text \<open>
  \<open>Mapper::map_to\<close> adds the mapping or reports an error and changes no mapping; it
  may take up to three frames for page tables from the allocator it is passed. Flushing
  the translation cache changes no mapping.
\<close>

locale page_mapper = frame_allocator alloc fresh
  for alloc :: "'fa \<Rightarrow> ('f option \<times> 'fa) outcome" and fresh :: "nat \<Rightarrow> 'fa \<Rightarrow> 'f set \<Rightarrow> bool" +
  fixes mp :: "('pt, 'p, 'f, 'fa, 'e) mapper_ops"
    and mapping :: "'pt \<Rightarrow> 'p \<Rightarrow> ('f \<times> page_flag set) option"
  assumes map_to_law: "fresh (n + 3) fa used \<Longrightarrow> f \<in> used \<Longrightarrow>
      \<exists>r pt' fa' used'. map_to mp pt p f fl fa = Ret (r, pt', fa') \<and> used \<subseteq> used' \<and> fresh n fa' used' \<and>
        (case r of Inl e \<Rightarrow> mapping pt' = mapping pt | Inr _ \<Rightarrow> mapping pt' = (mapping pt)(p \<mapsto> (f, fl)))"
    and flush_law: "mapping (map_flush mp p pt) = mapping pt"
begin

lemma map_pages_law:
  assumes "fresh (length ps * 4 + n) fa used"
  shows "\<exists>r pt' fa' fs. map_pages mp alloc ps pt fa = Ret (r, pt', fa') \<and>
    distinct fs \<and> set fs \<inter> used = {} \<and> length fs \<le> length ps \<and> (r = Inr () \<longleftrightarrow> length fs = length ps) \<and>
    mapping pt' = (mapping pt)(take (length fs) ps [\<mapsto>] map (\<lambda>f. (f, {PRESENT, WRITABLE})) fs)"
  using assms
proof (induction ps arbitrary: pt fa used)
  case Nil
  then show ?case by auto
next
  case (Cons p ps)
  have "fresh (Suc (length ps * 4 + n + 3)) fa used" using Cons.prems by (simp add: ac_simps)
  from alloc_fresh [OF this] obtain g fa1 where a: "alloc fa = Ret (g, fa1)"
    and g: "case g of None \<Rightarrow> fresh (length ps * 4 + n + 3) fa1 used
      | Some f \<Rightarrow> f \<notin> used \<and> fresh (length ps * 4 + n + 3) fa1 (insert f used)" by blast
  show ?case
  proof (cases g)
    case None
    with a show ?thesis by (intro exI [of _ "Inl FrameAllocationFailed"] exI [of _ pt] exI [of _ fa1] exI [of _ "[]"]) simp
  next
    case (Some f)
    with g have f: "f \<notin> used" "fresh (length ps * 4 + n + 3) fa1 (insert f used)" by auto
    from map_to_law [OF f(2), of f pt p "{PRESENT, WRITABLE}"] obtain r pt1 fa2 used1 where
      m: "map_to mp pt p f {PRESENT, WRITABLE} fa1 = Ret (r, pt1, fa2)" "insert f used \<subseteq> used1"
      "fresh (length ps * 4 + n) fa2 used1"
      "case r of Inl e \<Rightarrow> mapping pt1 = mapping pt | Inr _ \<Rightarrow> mapping pt1 = (mapping pt)(p \<mapsto> (f, {PRESENT, WRITABLE}))"
      by blast
    show ?thesis
    proof (cases r)
      case (Inl e)
      with a Some m(1,4) show ?thesis
        by (intro exI [of _ "Inl e"] exI [of _ pt1] exI [of _ fa2] exI [of _ "[]"])
          (simp add: insert_commute)
    next
      case (Inr u)
      from Cons.IH [OF m(3), of "map_flush mp p pt1"] obtain r' pt' fa' fs where
        IH: "map_pages mp alloc ps (map_flush mp p pt1) fa2 = Ret (r', pt', fa')" "distinct fs"
        "set fs \<inter> used1 = {}" "length fs \<le> length ps" "r' = Inr () \<longleftrightarrow> length fs = length ps"
        "mapping pt' = (mapping pt1)(take (length fs) ps [\<mapsto>] map (\<lambda>f. (f, {PRESENT, WRITABLE})) fs)"
        unfolding flush_law by blast
      have "map_pages mp alloc (p # ps) pt fa = Ret (r', pt', fa')" using a Some m(1) Inr IH(1)
        by (simp add: insert_commute)
      moreover have "distinct (f # fs)" "set (f # fs) \<inter> used = {}" using IH(2,3) m(2) f(1) by auto
      ultimately show ?thesis
        using IH(4-6) m(4) Inr by (intro exI [of _ r'] exI [of _ pt'] exI [of _ fa'] exI [of _ "f # fs"]) simp
    qed
  qed
qed

end

subsection \<open>An instance of the contracts\<close>

text \<open>
  Lower-half virtual addresses as words and pages as page numbers; page tables as the
  map from pages to frames that they denote.
\<close>

definition word_virt :: "(u64, nat) virt_ops" where
  "word_virt = \<lparr>
     virt_new = (\<lambda>a. if unat a < 2 ^ 47 then Ret a else Panic (ExplicitPanic ''VirtAddr'')),
     virt_add = (\<lambda>v n. if unat v + unat n < 2 ^ 47 then Ret (v + n) else Panic (ExplicitPanic ''VirtAddr'')),
     virt_sub = sub_usize,
     page_containing = (\<lambda>v. unat v div 4096),
     page_range_inclusive = (\<lambda>p q. [p..<Suc q])\<rparr>"

interpretation word_virt: virt_pages word_virt unat id
  by unfold_locales (auto simp: word_virt_def sub_usize_def word_le_nat_alt unat_sub unat_add_exact)

definition table_mapper :: "(nat \<Rightarrow> ('f \<times> page_flag set) option, nat, 'f, 'fa, 'f) mapper_ops" where
  "table_mapper = \<lparr>
     map_to = (\<lambda>pt p f fl fa. case pt p of
        None \<Rightarrow> Ret (Inr (), pt(p \<mapsto> (f, fl)), fa)
      | Some (g, _) \<Rightarrow> Ret (Inl (MapperError g), pt, fa)),
     map_flush = (\<lambda>p pt. pt)\<rparr>"

lemma boot_fresh_mono: "boot_fresh mops fops (n + k) s used \<Longrightarrow> boot_fresh mops fops n s used"
  by (simp add: boot_fresh_def)

interpretation table_mapper: page_mapper "allocate_frame mops word_frames" "boot_fresh mops word_frames" table_mapper id
  for mops
  by unfold_locales (auto simp: table_mapper_def dest!: boot_fresh_mono split: option.splits)

subsection \<open>What \<open>init_heap\<close> does\<close>

lemma init_heap_law:
  assumes vp: "virt_pages vops addr page_no" and pm: "page_mapper alloc fresh mp mapping"
    and fh: "fallback_heap req hops hinv"
    and frames: "fresh 100 (frame_state st) used" and st: "global_allocator st = fsb_new hops"
  shows "\<exists>r st' ps fs. init_heap vops mp alloc hops st = Ret (r, st') \<and>
    map page_no ps = map (\<lambda>i. unat HEAP_START div 4096 + i) [0..<25] \<and>
    distinct fs \<and> set fs \<inter> used = {} \<and>
    mapping (page_tables st') = (mapping (page_tables st))
      (take (length fs) ps [\<mapsto>] map (\<lambda>f. (f, {PRESENT, WRITABLE})) fs) \<and>
    (case r of
       Inl e \<Rightarrow> length fs < 25 \<and> global_allocator st' = global_allocator st \<and> heap_memory st' = heap_memory st
     | Inr _ \<Rightarrow> length fs = 25 \<and> fsb_inv hinv (unat HEAP_START) (unat HEAP_START + unat HEAP_SIZE)
                  (global_allocator st') (heap_memory st') {#})"
proof -
  obtain ps where ps: "heap_pages vops = Ret ps"
    "map page_no ps = map (\<lambda>i. unat HEAP_START div 4096 + i) [0..<25]"
    using virt_pages.heap_pages_law [OF vp] by blast
  have len: "length ps = 25" using arg_cong [OF ps(2), of length] by simp
  then have "fresh (length ps * 4 + 0) (frame_state st) used" using frames by simp
  from page_mapper.map_pages_law [OF pm this, of "page_tables st"] obtain r pt fa fs where
    m: "map_pages mp alloc ps (page_tables st) (frame_state st) = Ret (r, pt, fa)"
    "distinct fs" "set fs \<inter> used = {}" "length fs \<le> 25" "r = Inr () \<longleftrightarrow> length fs = 25"
    "mapping pt = (mapping (page_tables st))(take (length fs) ps [\<mapsto>] map (\<lambda>f. (f, {PRESENT, WRITABLE})) fs)"
    unfolding len by blast
  show ?thesis
  proof (cases r)
    case (Inl e)
    let ?st = "st\<lparr>page_tables := pt, frame_state := fa\<rparr>"
    have "init_heap vops mp alloc hops st = Ret (Inl e, ?st)"
      using ps(1) m(1) Inl by (simp add: init_heap_def)
    then show ?thesis using ps(2) m Inl
      by (intro exI [of _ "Inl e"] exI [of _ ?st] exI [of _ ps] exI [of _ fs]) simp
  next
    case (Inr u)
    obtain h m' where h: "fsb_init hops (fsb_new hops) (heap_memory st) HEAP_START HEAP_SIZE = Ret (h, m')"
      "fsb_inv hinv (unat HEAP_START) (unat HEAP_START + unat HEAP_SIZE) h m' {#}"
      using fallback_heap.fsb_init_inv [OF fh heap_region_ok_HEAP] by blast
    let ?st = "st\<lparr>page_tables := pt, frame_state := fa, global_allocator := h, heap_memory := m'\<rparr>"
    have "init_heap vops mp alloc hops st = Ret (Inr (), ?st)"
      using ps(1) m(1) Inr h(1) st by (simp add: init_heap_def)
    then show ?thesis using ps(2) m(2-6) Inr h(2)
      by (intro exI [of _ "Inr ()"] exI [of _ ?st] exI [of _ ps] exI [of _ fs]) simp
  qed
qed

text \<open>Enough frames for the pages and their tables, and none of the pages mapped: no error.\<close>

lemma map_pages_ok:
  assumes alloc: "\<And>fa. 0 < left fa \<Longrightarrow> \<exists>f fa'. alloc fa = Ret (Some f, fa') \<and> left fa \<le> left fa' + 1"
    and map: "\<And>pt p f fl fa. mapping pt p = None \<Longrightarrow> 3 \<le> left fa \<Longrightarrow>
      \<exists>pt' fa'. map_to mp pt p f fl fa = Ret (Inr (), pt', fa') \<and> left fa \<le> left fa' + 3 \<and>
        mapping pt' = (mapping pt)(p \<mapsto> (f, fl))"
    and flush: "\<And>p pt. mapping (map_flush mp p pt) = mapping pt"
    and "distinct ps" and "\<forall>p\<in>set ps. mapping pt p = None" and "length ps * 4 \<le> left fa"
  shows "\<exists>pt' fa'. map_pages mp alloc ps pt fa = Ret (Inr (), pt', fa')"
  using assms(4-)
proof (induction ps arbitrary: pt fa)
  case Nil
  then show ?case by simp
next
  case (Cons p ps)
  then have "0 < left fa" by simp
  then obtain f fa1 where a: "alloc fa = Ret (Some f, fa1)" "left fa \<le> left fa1 + 1" using alloc by blast
  have "mapping pt p = None" "3 \<le> left fa1" using Cons.prems a(2) by auto
  then obtain pt1 fa2 where m: "map_to mp pt p f ({PRESENT} \<union> {WRITABLE}) fa1 = Ret (Inr (), pt1, fa2)"
    "left fa1 \<le> left fa2 + 3" "mapping pt1 = (mapping pt)(p \<mapsto> (f, {PRESENT} \<union> {WRITABLE}))" using map by blast
  have "\<forall>q\<in>set ps. mapping (map_flush mp p pt1) q = None" "length ps * 4 \<le> left fa2"
    using Cons.prems m(2,3) a(2) by (auto simp: flush)
  with Cons.IH Cons.prems(1) obtain pt' fa' where
    "map_pages mp alloc ps (map_flush mp p pt1) fa2 = Ret (Inr (), pt', fa')" by fastforce
  with a(1) m(1) show ?case by (simp add: Let_def)
qed

text \<open>The frames that the boot-info allocator can still hand out.\<close>

definition frames_left :: "('m, 'r) memory_map_ops \<Rightarrow> 'm boot_info_frame_allocator \<Rightarrow> nat" where
  "frames_left mops s = (if memory_map_ok mops (memory_map s)
     then min (length (frame_addresses mops (memory_map s))) (2 ^ 64 - 1) - unat (next_frame s) else 0)"

lemma boot_frames_left:
  assumes "phys_frames fops" and "0 < frames_left mops s"
  shows "\<exists>f s'. allocate_frame mops fops s = Ret (Some f, s') \<and> frames_left mops s \<le> frames_left mops s' + 1"
proof -
  have ok: "memory_map_ok mops (memory_map s)" and n: "unat (next_frame s) + 1 < 2 ^ 64"
    and l: "unat (next_frame s) < length (frame_addresses mops (memory_map s))"
    using assms(2) by (auto simp: frames_left_def split: if_splits)
  from phys_frames.allocate_frame_eq [OF assms(1) ok n] l obtain f where
    f: "allocate_frame mops fops s = Ret (Some f, s\<lparr>next_frame := next_frame s + 1\<rparr>)" by auto
  have "unat (next_frame s + 1) = unat (next_frame s) + 1" using n by (simp add: unat_add_exact)
  then have "frames_left mops s \<le> frames_left mops (s\<lparr>next_frame := next_frame s + 1\<rparr>) + 1"
    unfolding frames_left_def by (simp, linarith)
  with f show ?thesis by blast
qed

text \<open>
  The mapper over the boot-info allocator: it maps an unmapped page as long as three
  frames for page tables are left.
\<close>

locale boot_mapper = phys_frames fops for fops :: "('a, 'f) frame_ops" +
  fixes mops :: "('m, 'r) memory_map_ops" and mp :: "('pt, 'p, 'f, 'm boot_info_frame_allocator, 'e) mapper_ops"
    and mapping :: "'pt \<Rightarrow> 'p \<Rightarrow> ('f \<times> page_flag set) option"
  assumes map_unmapped_law: "mapping pt p = None \<Longrightarrow> 3 \<le> frames_left mops fa \<Longrightarrow>
      \<exists>pt' fa'. map_to mp pt p f fl fa = Ret (Inr (), pt', fa') \<and> frames_left mops fa \<le> frames_left mops fa' + 3 \<and>
        mapping pt' = (mapping pt)(p \<mapsto> (f, fl))"
    and map_flush_law: "mapping (map_flush mp p pt) = mapping pt"

interpretation table_boot: boot_mapper word_frames mops table_mapper id for mops
  by unfold_locales (simp_all add: table_mapper_def)

lemma init_heap_ok:
  assumes vp: "virt_pages vops addr page_no" and bm: "boot_mapper fops mops mp mapping" and fh: "fallback_heap req hops hinv"
    and frames: "100 \<le> frames_left mops (frame_state st)"
    and unmapped: "\<And>p. unat HEAP_START div 4096 \<le> page_no p \<Longrightarrow> page_no p < unat HEAP_START div 4096 + 25 \<Longrightarrow>
      mapping (page_tables st) p = None"
    and st: "global_allocator st = fsb_new hops"
  shows "\<exists>st'. init_heap vops mp (allocate_frame mops fops) hops st = Ret (Inr (), st') \<and>
    fsb_init hops (fsb_new hops) (heap_memory st) HEAP_START HEAP_SIZE = Ret (global_allocator st', heap_memory st')"
proof -
  obtain ps where ps: "heap_pages vops = Ret ps"
    "map page_no ps = map (\<lambda>i. unat HEAP_START div 4096 + i) [0..<25]"
    using virt_pages.heap_pages_law [OF vp] by blast
  have len: "length ps = 25" using arg_cong [OF ps(2), of length] by simp
  have "distinct (map page_no ps)" unfolding ps(2) by (simp add: distinct_map inj_on_def)
  then have "distinct ps" by (simp add: distinct_map)
  moreover have "mapping (page_tables st) p = None" if "p \<in> set ps" for p
  proof -
    have "page_no p \<in> set (map page_no ps)" using that by simp
    then show ?thesis unfolding ps(2) by (intro unmapped) auto
  qed
  ultimately obtain pt fa where m: "map_pages mp (allocate_frame mops fops) ps (page_tables st) (frame_state st) = Ret (Inr (), pt, fa)"
    using map_pages_ok [where left = "frames_left mops" and mapping = mapping and alloc = "allocate_frame mops fops" and mp = mp,
        OF boot_frames_left [OF boot_mapper.axioms(1) [OF bm]] boot_mapper.map_unmapped_law [OF bm]
        boot_mapper.map_flush_law [OF bm]] frames len by fastforce
  obtain h m' where "fsb_init hops (fsb_new hops) (heap_memory st) HEAP_START HEAP_SIZE = Ret (h, m')"
    using fallback_heap.fsb_init_inv [OF fh heap_region_ok_HEAP] by blast
  with ps(1) m st show ?thesis by (simp add: init_heap_def Let_def)
qed

text \<open>Every byte of the heap lies in one of the mapped pages.\<close>

lemma heap_byte_mapped:
  assumes "unat HEAP_START \<le> x" and "x < unat HEAP_START + unat HEAP_SIZE"
    and ps: "map page_no ps = map (\<lambda>i. unat HEAP_START div 4096 + i) [0..<25]" and fs: "length fs = 25"
    and m: "m = m0(ps [\<mapsto>] map (\<lambda>f. (f, {PRESENT, WRITABLE})) fs)"
  shows "\<exists>p. \<exists>f\<in>set fs. page_no p = x div 4096 \<and> m p = Some (f, {PRESENT, WRITABLE})"
proof -
  define i where "i = x div 4096 - unat HEAP_START div 4096"
  have i: "i < 25" "x div 4096 = unat HEAP_START div 4096 + i"
    using assms(1,2) by (auto simp: i_def HEAP_START_def HEAP_SIZE_def)
  have len: "length ps = 25" using arg_cong [OF ps, of length] by simp
  have "distinct (map page_no ps)" unfolding ps by (simp add: distinct_map inj_on_def)
  then have d: "distinct ps" by (simp add: distinct_map)
  have "m (ps ! i) = Some (map (\<lambda>f. (f, {PRESENT, WRITABLE})) fs ! i)"
    unfolding m using d len fs i(1) by (intro map_upds_nth) auto
  moreover have "page_no (ps ! i) = x div 4096"
    using arg_cong [OF ps, of "\<lambda>xs. xs ! i"] i len by simp
  ultimately show ?thesis using i(1) fs by (intro exI [of _ "ps ! i"] bexI [of _ "fs ! i"]) auto
qed

subsection \<open>Properties\<close>

text \<open>
  C13. \<open>init_heap\<close> returns. When it returns \<open>Ok\<close>, the 25 pages of the heap are
  mapped present and writable, each to its own freshly allocated frame, no other mapping
  has changed, and the global allocator is initialised for exactly that range with no
  block live. When it returns an error, the global allocator and the memory are
  untouched and at most a prefix of the pages has been mapped.
\<close>

theorem init_heap_maps:
  assumes vp: "virt_pages vops addr page_no" and pm: "page_mapper alloc fresh mp mapping"
    and fh: "fallback_heap req hops hinv"
    and frames: "fresh 100 (frame_state st) used" and st: "global_allocator st = fsb_new hops"
  shows "\<exists>r st' ps fs. init_heap vops mp alloc hops st = Ret (r, st') \<and>
    map page_no ps = map (\<lambda>i. unat HEAP_START div 4096 + i) [0..<25] \<and>
    distinct fs \<and> set fs \<inter> used = {} \<and>
    mapping (page_tables st') = (mapping (page_tables st))
      (take (length fs) ps [\<mapsto>] map (\<lambda>f. (f, {PRESENT, WRITABLE})) fs) \<and>
    (case r of
       Inl e \<Rightarrow> length fs < 25 \<and> global_allocator st' = global_allocator st \<and> heap_memory st' = heap_memory st
     | Inr _ \<Rightarrow> length fs = 25 \<and> fsb_inv hinv (unat HEAP_START) (unat HEAP_START + unat HEAP_SIZE)
                  (global_allocator st') (heap_memory st') {#})"
  using assms by (rule init_heap_law)

abbreviation example_heap_state ::
  "(nat \<Rightarrow> (u64 \<times> page_flag set) option, (bool \<times> u64 \<times> u64) list boot_info_frame_allocator,
    linked_list_allocator) heap_state" where
  "example_heap_state \<equiv> \<lparr>page_tables = Map.empty, frame_state = boot_info_init example_map,
     global_allocator = fsb_new ll_heap_ops, heap_memory = (\<lambda>_. 0)\<rparr>"

lemma example_fresh: "boot_fresh region_list_ops word_frames 100 (boot_info_init example_map) {}"
  using example_map_ok by (simp add: boot_fresh_def boot_info_init_def)

text \<open>In the example, memory runs out after three frames.\<close>

theorem init_heap_maps_witness:
  "\<exists>r st' ps fs. init_heap word_virt table_mapper (allocate_frame region_list_ops word_frames) ll_heap_ops
      example_heap_state = Ret (r, st') \<and>
    map id ps = map (\<lambda>i. unat HEAP_START div 4096 + i) [0..<25] \<and>
    distinct fs \<and> set fs \<inter> {} = {} \<and>
    id (page_tables st') = (id (page_tables example_heap_state))
      (take (length fs) ps [\<mapsto>] map (\<lambda>f. (f, {PRESENT, WRITABLE})) fs) \<and>
    (case r of
       Inl e \<Rightarrow> length fs < 25 \<and> global_allocator st' = global_allocator example_heap_state \<and>
         heap_memory st' = heap_memory example_heap_state
     | Inr _ \<Rightarrow> length fs = 25 \<and> fsb_inv ll_inv (unat HEAP_START) (unat HEAP_START + unat HEAP_SIZE)
                  (global_allocator st') (heap_memory st') {#})"
  by (rule init_heap_maps [OF word_virt.virt_pages_axioms table_mapper.page_mapper_axioms
        ll_fallback.fallback_heap_axioms]) (simp_all add: example_fresh)

text \<open>
  With an allocator that has no frames, \<open>init_heap\<close> reports
  \<open>FrameAllocationFailed\<close> and leaves page tables, allocator and memory as they were.
\<close>

theorem init_heap_no_frames:
  assumes "virt_pages vops addr page_no"
  shows "init_heap vops mp empty_allocate_frame hops st = Ret (Inl FrameAllocationFailed, st)"
proof -
  obtain ps where ps: "heap_pages vops = Ret ps"
    "map page_no ps = map (\<lambda>i. unat HEAP_START div 4096 + i) [0..<25]"
    using virt_pages.heap_pages_law [OF assms] by blast
  have "length ps = 25" using arg_cong [OF ps(2), of length] by simp
  then have "map_pages mp empty_allocate_frame ps (page_tables st) (frame_state st) =
      Ret (Inl FrameAllocationFailed, page_tables st, frame_state st)"
    by (cases ps) (simp_all add: empty_allocate_frame_def)
  with ps(1) show ?thesis by (simp add: init_heap_def)
qed

theorem init_heap_no_frames_witness:
  "init_heap word_virt table_mapper empty_allocate_frame ll_heap_ops
     \<lparr>page_tables = Map.empty, frame_state = (), global_allocator = fsb_new ll_heap_ops, heap_memory = (\<lambda>_. 0)\<rparr> =
   Ret (Inl (FrameAllocationFailed :: u64 map_to_error),
     \<lparr>page_tables = Map.empty, frame_state = (), global_allocator = fsb_new ll_heap_ops, heap_memory = (\<lambda>_. 0)\<rparr>)"
  by (rule init_heap_no_frames [OF word_virt.virt_pages_axioms])

text \<open>
  The heap comes up: over the boot-info allocator with 100 usable frames left, four
  for each of the 25 pages, and a mapper that succeeds on unmapped pages, taking at most
  three frames for tables, \<open>init_heap\<close> returns \<open>Ok\<close> if the pages of the heap range are
  unmapped, and leaves the allocator initialised on that range.
\<close>

theorem init_heap_succeeds:
  assumes "virt_pages vops addr page_no" and "boot_mapper fops mops mp mapping" and "fallback_heap req hops hinv"
    and "100 \<le> frames_left mops (frame_state st)"
    and "\<And>p. unat HEAP_START div 4096 \<le> page_no p \<Longrightarrow> page_no p < unat HEAP_START div 4096 + 25 \<Longrightarrow>
      mapping (page_tables st) p = None"
    and "global_allocator st = fsb_new hops"
  shows "\<exists>st'. init_heap vops mp (allocate_frame mops fops) hops st = Ret (Inr (), st') \<and>
    fsb_init hops (fsb_new hops) (heap_memory st) HEAP_START HEAP_SIZE = Ret (global_allocator st', heap_memory st')"
  using assms by (rule init_heap_ok)

abbreviation large_map :: "(bool \<times> u64 \<times> u64) list" where
  "large_map \<equiv> [(True, 0x1000, 0x80000)]"

lemma large_map_frames: "frames_left region_list_ops (boot_info_init large_map) = 127"
proof -
  have "length (frame_addresses region_list_ops large_map) = 127"
    by (simp add: frame_addresses_def region_list_ops_def range_step_by_def)
  then show ?thesis
    by (simp add: frames_left_def boot_info_init_def memory_map_ok_def region_list_ops_def)
qed

theorem init_heap_succeeds_witness:
  "\<exists>st'. init_heap word_virt table_mapper (allocate_frame region_list_ops word_frames) ll_heap_ops
     (example_heap_state\<lparr>frame_state := boot_info_init large_map\<rparr>) = Ret (Inr (), st') \<and>
    fsb_init ll_heap_ops (fsb_new ll_heap_ops) (\<lambda>_. 0) HEAP_START HEAP_SIZE = Ret (global_allocator st', heap_memory st')"
  using init_heap_succeeds [OF word_virt.virt_pages_axioms table_boot.boot_mapper_axioms ll_fallback.fallback_heap_axioms,
      where mops = region_list_ops and st = "example_heap_state\<lparr>frame_state := boot_info_init large_map\<rparr>"]
  by (simp add: large_map_frames)

end
