(* ===== verification/Kernel_Boot.thy ===== *)
theory Kernel_Boot
  imports Heap_Init
begin

text \<open>
  How the entry points bring up the heap from what the bootloader passes them: the part
  that \<open>kernel_main\<close> of \<open>src/main.rs\<close> and \<open>main\<close> of \<open>tests/heap_allocation.rs\<close>
  have in common. The locale \<open>boot_env\<close> combines the contracts of the crates it calls.
\<close>

record 'm boot_info =
  boot_memory_map :: 'm
  physical_memory_offset :: u64

text \<open>
  The operations of the crates, with the frame that the register \<open>CR3\<close> holds and the
  heap behind the block allocator.
\<close>

record ('a, 'f, 'v, 'p, 'ptr, 'pt, 'm, 'r, 'e, 'h) boot_ops =
  boot_frames :: "('a, 'f) frame_ops"
  boot_regions :: "('m, 'r) memory_map_ops"
  boot_virt :: "('v, 'p) virt_ops"
  as_mut_ptr :: "'v \<Rightarrow> 'ptr"
  cr3_frame :: 'f
  offset_page_table_new :: "'ptr \<Rightarrow> 'v \<Rightarrow> 'pt"
  boot_tables :: "('pt, 'p, 'f, 'm boot_info_frame_allocator, 'e) mapper_ops"
  boot_heap :: "'h heap_ops"

text \<open>
  The page tables and the frame allocator are local variables; the block allocator is
  the static \<open>ALLOCATOR\<close>, passed with the memory.
\<close>

definition setup_heap ::
  "('a, 'f, 'v, 'p, 'ptr, 'pt, 'm, 'r, 'e, 'h) boot_ops \<Rightarrow> 'm boot_info \<Rightarrow>
   'h fixed_size_block_allocator \<times> mem \<Rightarrow> ('h fixed_size_block_allocator \<times> mem) outcome" where
  "setup_heap B boot_info h =
     and_then (virt_new (boot_virt B) (physical_memory_offset boot_info)) (\<lambda>phys_mem_offset.
     and_then (memory_init (boot_frames B) (virt_add (boot_virt B)) (as_mut_ptr B) (cr3_frame B)
       (offset_page_table_new B) phys_mem_offset) (\<lambda>mapper.
     let frame_allocator = boot_info_init (boot_memory_map boot_info)
     in and_then (init_heap (boot_virt B) (boot_tables B) (allocate_frame (boot_regions B) (boot_frames B)) (boot_heap B)
          \<lparr>page_tables = mapper, frame_state = frame_allocator, global_allocator = fst h, heap_memory = snd h\<rparr>) (\<lambda>(r, st).
        and_then (expect ''heap initialization failed'' (case r of Inl _ \<Rightarrow> None | Inr _ \<Rightarrow> Some ())) (\<lambda>_.
        Ret (global_allocator st, heap_memory st)))))"

locale boot_env =
  virt_pages "boot_virt B" addr page_no + boot_mapper "boot_frames B" "boot_regions B" "boot_tables B" mapping
  for B :: "('a, 'f, 'v, 'p, 'ptr, 'pt, 'm, 'r, 'e, 'h) boot_ops" and addr page_no mapping

text \<open>
  What the bootloader promises: physical memory is mapped in the lower half, at least
  100 usable frames are left, and the active page tables do not map the heap's pages.
\<close>

definition bootable ::
  "('a, 'f, 'v, 'p, 'ptr, 'pt, 'm, 'r, 'e, 'h) boot_ops \<Rightarrow> ('v \<Rightarrow> nat) \<Rightarrow> ('p \<Rightarrow> nat) \<Rightarrow>
   ('pt \<Rightarrow> 'p \<Rightarrow> ('f \<times> page_flag set) option) \<Rightarrow> 'm boot_info \<Rightarrow> bool" where
  "bootable B addr page_no mapping boot_info \<longleftrightarrow>
     unat (physical_memory_offset boot_info) + unat (frame_start (boot_frames B) (cr3_frame B)) < 2 ^ 47 \<and>
     100 \<le> frames_left (boot_regions B) (boot_info_init (boot_memory_map boot_info)) \<and>
     (\<forall>v w p. addr v = unat (physical_memory_offset boot_info) \<and>
        addr w = unat (physical_memory_offset boot_info) + unat (frame_start (boot_frames B) (cr3_frame B)) \<and>
        unat HEAP_START div 4096 \<le> page_no p \<and> page_no p < unat HEAP_START div 4096 + 25 \<longrightarrow>
        mapping (offset_page_table_new B (as_mut_ptr B w) v) p = None)"

context boot_env
begin

lemma setup_heap_law:
  assumes fh: "fallback_heap req (boot_heap B) hinv" and ok: "bootable B addr page_no mapping boot_info"
  shows "\<exists>h. setup_heap B boot_info (fsb_new (boot_heap B), m) = Ret h \<and>
    fsb_init (boot_heap B) (fsb_new (boot_heap B)) m HEAP_START HEAP_SIZE = Ret h"
proof -
  obtain v where v: "virt_new (boot_virt B) (physical_memory_offset boot_info) = Ret v"
    "addr v = unat (physical_memory_offset boot_info)"
    using virt_new_law [of "physical_memory_offset boot_info"] ok by (auto simp: bootable_def)
  obtain w where w: "virt_add (boot_virt B) v (frame_start (boot_frames B) (cr3_frame B)) = Ret w"
    "addr w = unat (physical_memory_offset boot_info) + unat (frame_start (boot_frames B) (cr3_frame B))"
    using virt_add_law [of v "frame_start (boot_frames B) (cr3_frame B)"] v ok by (auto simp: bootable_def)
  let ?st = "\<lparr>page_tables = offset_page_table_new B (as_mut_ptr B w) v,
    frame_state = boot_info_init (boot_memory_map boot_info), global_allocator = fsb_new (boot_heap B), heap_memory = m\<rparr>"
  have "100 \<le> frames_left (boot_regions B) (frame_state ?st)"
    "\<And>p. unat HEAP_START div 4096 \<le> page_no p \<Longrightarrow> page_no p < unat HEAP_START div 4096 + 25 \<Longrightarrow> mapping (page_tables ?st) p = None"
    "global_allocator ?st = fsb_new (boot_heap B)"
    using ok v(2) w(2) by (auto simp: bootable_def)
  from init_heap_ok [OF virt_pages_axioms boot_mapper_axioms fh this] obtain st' where
    "init_heap (boot_virt B) (boot_tables B) (allocate_frame (boot_regions B) (boot_frames B)) (boot_heap B) ?st = Ret (Inr (), st')"
    "fsb_init (boot_heap B) (fsb_new (boot_heap B)) m HEAP_START HEAP_SIZE = Ret (global_allocator st', heap_memory st')" by auto
  with v(1) w(1) show ?thesis by (simp add: setup_heap_def memory_init_def active_level_4_table_def)
qed

end

subsection \<open>An instance\<close>

definition example_boot ::
  "(u64, u64, u64, nat, u64, nat \<Rightarrow> (u64 \<times> page_flag set) option, (bool \<times> u64 \<times> u64) list, bool \<times> u64 \<times> u64, u64,
    linked_list_allocator) boot_ops" where
  "example_boot = \<lparr>boot_frames = word_frames, boot_regions = region_list_ops, boot_virt = word_virt, as_mut_ptr = id,
     cr3_frame = 0x2000, offset_page_table_new = (\<lambda>_ _. Map.empty), boot_tables = table_mapper, boot_heap = ll_heap_ops\<rparr>"

interpretation example_boot: boot_env example_boot unat id id
  by (simp add: boot_env_def example_boot_def word_virt.virt_pages_axioms table_boot.boot_mapper_axioms)

lemma example_bootable:
  "bootable example_boot unat id id \<lparr>boot_memory_map = large_map, physical_memory_offset = 0x10000000\<rparr>"
  by (simp add: bootable_def example_boot_def word_frames_def large_map_frames)

end
