(* ===== verification/Heap_Values.thy ===== *)
theory Heap_Values
  imports Global_Alloc
begin

text \<open>
  Values on the heap: what the kernel and its tests use of \<open>Box\<close> and \<open>Vec\<close>, on
  top of any global allocator, with \<open>alloc_error_handler\<close> of \<open>src/lib.rs\<close> for a
  null pointer. Inside the contracts of \<open>Global_Alloc\<close> it is shown that boxes and
  vectors keep their values, vectors through every reallocation.
\<close>

subsection \<open>Values as bytes\<close>

definition le_bytes :: "'a::len word \<Rightarrow> u8 list" where
  "le_bytes v = map (\<lambda>i. ucast (drop_bit (8 * i) v)) [0..<LENGTH('a) div 8]"

definition le_word :: "u8 list \<Rightarrow> 'a::len word" where
  "le_word bs = horner_sum of_bool 2 (concat (map (\<lambda>b. map (bit b) [0..<8]) bs))"

definition store_bytes :: "mem \<Rightarrow> usize \<Rightarrow> u8 list \<Rightarrow> mem" where
  "store_bytes m p bs = (\<lambda>x. if unat (x - p) < length bs then bs ! unat (x - p) else m x)"

definition load_bytes :: "mem \<Rightarrow> usize \<Rightarrow> nat \<Rightarrow> u8 list" where
  "load_bytes m p n = map (\<lambda>i. m (p + of_nat i)) [0..<n]"

lemma length_le_bytes [simp]: "length (le_bytes (v :: 'a::len word)) = LENGTH('a) div 8"
  by (simp add: le_bytes_def)

lemma length_load_bytes [simp]: "length (load_bytes m p n) = n"
  by (simp add: load_bytes_def)

lemma le_word_le_bytes:
  fixes v :: "'a::len word"
  assumes "8 dvd LENGTH('a)"
  shows "le_word (le_bytes v) = v"
proof -
  have "map (\<lambda>b. map (bit b) [0..<8]) (le_bytes v) =
      map (\<lambda>i. map (\<lambda>n. bit v (8 * i + n)) [0..<8]) [0..<LENGTH('a) div 8]"
    by (auto simp: le_bytes_def bit_simps)
  then have "concat (map (\<lambda>b. map (bit b) [0..<8]) (le_bytes v)) = map (bit v) [0..<LENGTH('a)]"
    using concat_blocks [of "bit v" 8 "LENGTH('a) div 8"] assms by simp
  then show ?thesis by (simp add: le_word_def horner_sum_bit_eq_take_bit take_bit_word_eq_self)
qed

lemma unat_plus_small:
  fixes p :: usize
  assumes "unat p + n \<le> 2 ^ 64" and "i < n"
  shows "unat (p + of_nat i) = unat p + i"
proof -
  have "unat (of_nat i :: usize) = i" using assms by (simp add: unat_of_nat)
  with assms show ?thesis by (simp add: unat_add_exact)
qed

lemma offset_in_range:
  fixes p x :: usize
  assumes "unat p + n \<le> 2 ^ 64"
  shows "unat (x - p) < n \<longleftrightarrow> covers (unat x) (unat p, n)"
proof (cases "p \<le> x")
  case True
  then show ?thesis by (auto simp: covers_def word_le_nat_alt unat_sub)
next
  case False
  then have "unat x < unat p" by (simp add: word_le_nat_alt)
  moreover from this have "unat (x - p) = 2 ^ 64 + unat x - unat p" by (simp add: unat_sub_if')
  ultimately show ?thesis using assms by (auto simp: covers_def)
qed

lemma store_bytes_other:
  assumes "unat p + length bs \<le> 2 ^ 64" and "\<not> covers (unat x) (unat p, length bs)"
  shows "store_bytes m p bs x = m x"
  using assms by (simp add: store_bytes_def offset_in_range)

lemma load_store_same:
  assumes "unat p + length bs \<le> 2 ^ 64"
  shows "load_bytes (store_bytes m p bs) p (length bs) = bs"
  using assms
  by (intro nth_equalityI) (auto simp: load_bytes_def store_bytes_def unat_of_nat)

lemma load_bytes_cong:
  assumes "unat p + n \<le> 2 ^ 64" and "\<And>x. covers (unat x) (unat p, n) \<Longrightarrow> m x = m' x"
  shows "load_bytes m p n = load_bytes m' p n"
  unfolding load_bytes_def
proof (rule map_cong)
  show "m (p + of_nat i) = m' (p + of_nat i)" if "i \<in> set [0..<n]" for i
    using that unat_plus_small [OF assms(1), of i] by (intro assms(2)) (simp add: covers_def)
qed simp

lemma load_bytes_append: "load_bytes m p (a + b) = load_bytes m p a @ load_bytes m (p + of_nat a) b"
proof (rule nth_equalityI)
  show "load_bytes m p (a + b) ! i = (load_bytes m p a @ load_bytes m (p + of_nat a) b) ! i"
    if "i < length (load_bytes m p (a + b))" for i
    using that by (auto simp: load_bytes_def nth_append add.assoc simp flip: of_nat_add)
qed simp

subsection \<open>Boxes\<close>

text \<open>The layout of an integer type of a power-of-two number of bytes.\<close>

definition word_layout :: "'a::len itself \<Rightarrow> layout" where
  "word_layout T = \<lparr>layout_size = of_nat (LENGTH('a) div 8), layout_align = of_nat (LENGTH('a) div 8)\<rparr>"

definition alloc_error_handler :: "layout \<Rightarrow> 'a outcome" where
  "alloc_error_handler l = Panic (ExplicitPanic ''allocation error'')"

definition box_new :: "'s alloc_fn \<Rightarrow> 'a::len word \<Rightarrow> 's \<times> mem \<Rightarrow> (usize \<times> 's \<times> mem) outcome" where
  "box_new alloc v h =
     (let l = word_layout TYPE('a)
      in and_then (alloc (fst h) (snd h) l) (\<lambda>(p, s, m).
         if p = 0 then alloc_error_handler l else Ret (p, s, store_bytes m p (le_bytes v))))"

definition box_read :: "mem \<Rightarrow> usize \<Rightarrow> 'a::len word" where
  "box_read m p = le_word (load_bytes m p (LENGTH('a) div 8))"

definition box_drop :: "'a::len itself \<Rightarrow> 's dealloc_fn \<Rightarrow> usize \<Rightarrow> 's \<times> mem \<Rightarrow> ('s \<times> mem) outcome" where
  "box_drop T dealloc p h = dealloc (fst h) (snd h) p (word_layout T)"

subsection \<open>Vectors\<close>

record vec =
  vec_ptr :: usize
  vec_cap :: nat
  vec_len :: nat

definition vec_new :: vec where
  "vec_new = \<lparr>vec_ptr = 0, vec_cap = 0, vec_len = 0\<rparr>"

text \<open>\<open>Layout::array\<close>.\<close>

definition array_layout :: "'a::len itself \<Rightarrow> nat \<Rightarrow> layout option" where
  "array_layout T n =
     (if n * (LENGTH('a) div 8) < 2 ^ 64
      then from_size_align (of_nat (n * (LENGTH('a) div 8))) (of_nat (LENGTH('a) div 8)) else None)"

text \<open>\<open>GlobalAlloc::realloc\<close>, which none of the allocators overrides.\<close>

definition realloc ::
  "'s alloc_fn \<Rightarrow> 's dealloc_fn \<Rightarrow> usize \<Rightarrow> layout \<Rightarrow> layout \<Rightarrow> 's \<times> mem \<Rightarrow> (usize \<times> 's \<times> mem) outcome" where
  "realloc alloc dealloc ptr old new h =
     and_then (alloc (fst h) (snd h) new) (\<lambda>(p, s, m).
     if p = 0 then Ret (0, s, m)
     else let m = store_bytes m p (load_bytes m ptr (min (unat (layout_size old)) (unat (layout_size new))))
          in and_then (dealloc s m ptr old) (\<lambda>(s, m). Ret (p, s, m)))"

text \<open>Amortised growth: at least one element more, at least twice the capacity, at least four
  (the minimum for elements of 2 to 1024 bytes; the kernel's vectors have elements of 4 and 8).\<close>

definition vec_grow ::
  "'a::len itself \<Rightarrow> 's alloc_fn \<Rightarrow> 's dealloc_fn \<Rightarrow> vec \<Rightarrow> 's \<times> mem \<Rightarrow> (vec \<times> 's \<times> mem) outcome" where
  "vec_grow T alloc dealloc v h =
     (let cap = max 4 (max (2 * vec_cap v) (vec_len v + 1))
      in and_then (expect ''capacity overflow'' (array_layout T cap)) (\<lambda>new.
         and_then (if vec_cap v = 0 then alloc (fst h) (snd h) new
                   else and_then (expect ''capacity overflow'' (array_layout T (vec_cap v))) (\<lambda>old.
                        realloc alloc dealloc (vec_ptr v) old new h)) (\<lambda>(p, s, m).
         if p = 0 then alloc_error_handler new
         else Ret (v\<lparr>vec_ptr := p, vec_cap := cap\<rparr>, s, m))))"

definition elem_addr :: "'a::len itself \<Rightarrow> vec \<Rightarrow> nat \<Rightarrow> usize" where
  "elem_addr T v i = vec_ptr v + of_nat (i * (LENGTH('a) div 8))"

definition vec_push ::
  "'s alloc_fn \<Rightarrow> 's dealloc_fn \<Rightarrow> 'a::len word \<Rightarrow> vec \<times> 's \<times> mem \<Rightarrow> (vec \<times> 's \<times> mem) outcome" where
  "vec_push alloc dealloc x vh =
     and_then (if vec_len (fst vh) = vec_cap (fst vh) then vec_grow TYPE('a) alloc dealloc (fst vh) (snd vh)
               else Ret vh) (\<lambda>(v, s, m).
     Ret (v\<lparr>vec_len := vec_len v + 1\<rparr>, s, store_bytes m (elem_addr TYPE('a) v (vec_len v)) (le_bytes x)))"

definition vec_elems :: "mem \<Rightarrow> vec \<Rightarrow> 'a::len word list" where
  "vec_elems m v = map (\<lambda>i. box_read m (elem_addr TYPE('a) v i)) [0..<vec_len v]"

definition vec_drop :: "'a::len itself \<Rightarrow> 's dealloc_fn \<Rightarrow> vec \<Rightarrow> 's \<times> mem \<Rightarrow> ('s \<times> mem) outcome" where
  "vec_drop T dealloc v h =
     (if vec_cap v = 0 then Ret h
      else and_then (expect ''capacity overflow'' (array_layout T (vec_cap v))) (\<lambda>l.
           dealloc (fst h) (snd h) (vec_ptr v) l))"

subsection \<open>Boxes keep their values\<close>

lemma word_layout_valid:
  "valid_request (word_layout TYPE(32))" "valid_request (word_layout TYPE(64))"
  using power_of_two_exp [of 2]
  by (simp_all add: valid_request_def layout_wf_def word_layout_def isize_max_def)

text \<open>A block of the heap does not wrap around the address space.\<close>

lemma live_no_wrap:
  assumes "live_ok lo hi bs" and "hi \<le> 2 ^ 64" and "(p, l) \<in># bs"
  shows "unat p + unat (layout_size l) \<le> 2 ^ 64"
  using assms by (fastforce simp: live_ok_def placed_def)

lemma load_bytes_same:
  assumes "same_on (extents bs) m m'" and "(p, l) \<in># bs" and "n \<le> unat (layout_size l)"
    and "live_ok lo hi bs" and "hi \<le> 2 ^ 64"
  shows "load_bytes m' p n = load_bytes m p n"
proof (rule load_bytes_cong)
  show "unat p + n \<le> 2 ^ 64" using live_no_wrap [OF assms(4,5,2)] assms(3) by simp
  show "m' x = m x" if "covers (unat x) (unat p, n)" for x
    using assms(1-3) that unfolding same_on_extents
    by (force simp: held_def covers_def block_extent_def)
qed

text \<open>Storing into a block leaves the other blocks and everything outside alone.\<close>

lemma store_bytes_frame:
  assumes live: "live_ok lo hi (add_mset (p, l) bs)" and hi: "hi \<le> 2 ^ 64"
    and o: "off + length xs \<le> unat (layout_size l)"
  shows "same_on (extents bs) m (store_bytes m (p + of_nat off) xs)"
    and "\<not> held (add_mset (p, l) bs) x \<Longrightarrow> store_bytes m (p + of_nat off) xs x = m x"
proof -
  have w: "unat p + unat (layout_size l) \<le> 2 ^ 64" using live_no_wrap [OF live hi] by simp
  have "unat (of_nat off :: usize) = off" if "xs \<noteq> []" using that o w by (cases xs) (auto simp: unat_of_nat)
  then have u: "unat (p + of_nat off) = unat p + off" if "xs \<noteq> []"
    using that o w by (cases xs) (auto simp: unat_add_exact)
  have out: "store_bytes m (p + of_nat off) xs x = m x" if "\<not> covers (unat x) (block_extent (p, l))" for x
  proof (cases "xs = []")
    case False
    then show ?thesis using that o w u by (intro store_bytes_other) (auto simp: covers_def block_extent_def)
  qed (simp add: store_bytes_def)
  then show "\<not> held (add_mset (p, l) bs) x \<Longrightarrow> store_bytes m (p + of_nat off) xs x = m x" by simp
  show "same_on (extents bs) m (store_bytes m (p + of_nat off) xs)"
    unfolding same_on_extents
  proof (intro allI impI)
    fix x assume "held bs x"
    then obtain b where b: "b \<in># bs" "covers (unat x) (block_extent b)" by (auto simp: held_def)
    have "disjoint_extents (add_mset (block_extent (p, l)) (extents bs))" using live by (simp add: live_ok_def)
    from disjoint_extentsD [OF this, of "block_extent b" "unat x"] b
    have "\<not> covers (unat x) (block_extent (p, l))" by auto
    then show "store_bytes m (p + of_nat off) xs x = m x" by (rule out)
  qed
qed

lemma box_read_load: "load_bytes m p (LENGTH('a) div 8) = le_bytes v \<Longrightarrow> 8 dvd LENGTH('a) \<Longrightarrow> box_read m p = (v :: 'a::len word)"
  by (simp add: box_read_def le_word_le_bytes)

abbreviation byte_sized :: "'a::len itself \<Rightarrow> bool" where
  "byte_sized T \<equiv> 8 dvd LENGTH('a) \<and> LENGTH('a) \<le> 128"

lemma word_layout_size:
  assumes "byte_sized TYPE('a::len)"
  shows "unat (layout_size (word_layout TYPE('a))) = LENGTH('a) div 8"
proof -
  have "LENGTH('a) div 8 \<le> 128" using assms div_le_dividend [of "LENGTH('a)" 8] by (auto intro: le_trans)
  then show ?thesis by (simp add: word_layout_def unat_of_nat)
qed

context global_alloc
begin

lemma box_new_Ret:
  fixes v :: "'a::len word"
  assumes I: "inv lo hi s m bs" and hi: "hi \<le> 2 ^ 64" and req: "req (word_layout TYPE('a))"
    and T: "byte_sized TYPE('a)" and a: "alloc s m (word_layout TYPE('a)) = Ret (p, s', m1)" "p \<noteq> 0"
  shows "\<exists>m'. box_new alloc v (s, m) = Ret (p, s', m') \<and> inv lo hi s' m' (add_mset (p, word_layout TYPE('a)) bs) \<and>
    same_on (extents bs) m m' \<and> box_read m' p = v \<and>
    (\<forall>x. \<not> held (add_mset (p, word_layout TYPE('a)) bs) x \<longrightarrow> m' x = m1 x)"
proof -
  let ?l = "word_layout TYPE('a)" and ?m = "store_bytes m1 p (le_bytes v)"
  have I1: "inv lo hi s' m1 (add_mset (p, ?l) bs)" and same: "same_on (extents bs) m m1"
    using alloc_law [OF I req] a by auto
  have live: "live_ok lo hi (add_mset (p, ?l) bs)" using inv_live [OF I1] .
  have len: "0 + length (le_bytes v) \<le> unat (layout_size ?l)" using word_layout_size [OF T] by simp
  note fr = store_bytes_frame [OF live hi len, where m = m1, simplified]
  have "unat p + length (le_bytes v) \<le> 2 ^ 64" using live_no_wrap [OF live hi, of p ?l] len by simp
  then have "box_read ?m p = v"
    using T load_store_same [of p "le_bytes v" m1] by (intro box_read_load) auto
  moreover have "inv lo hi s' ?m (add_mset (p, ?l) bs)" using I1 fr(2) by (rule store_law) simp
  moreover have "box_new alloc v (s, m) = Ret (p, s', ?m)" using a by (simp add: box_new_def Let_def)
  ultimately show ?thesis using same_on_trans [OF same fr(1)] fr(2) by (intro exI [of _ ?m]) simp
qed

lemma box_read_same:
  assumes "inv lo hi s m bs" and "hi \<le> 2 ^ 64" and "same_on (extents bs) m m'"
    and "(p, word_layout TYPE('a)) \<in># bs" and "byte_sized TYPE('a::len)"
  shows "(box_read m' p :: 'a word) = box_read m p"
  using load_bytes_same [OF assms(3,4) _ inv_live [OF assms(1)] assms(2), of "LENGTH('a) div 8"]
    word_layout_size [OF assms(5)] by (simp add: box_read_def)

lemma box_drop_Ret:
  assumes "inv lo hi s m bs" and "(p, word_layout TYPE('a::len)) \<in># bs"
  shows "\<exists>s' m'. box_drop TYPE('a) dealloc p (s, m) = Ret (s', m') \<and>
    inv lo hi s' m' (bs - {#(p, word_layout TYPE('a))#}) \<and>
    same_on (extents (bs - {#(p, word_layout TYPE('a))#})) m m'"
  using dealloc_law [OF assms] by (auto simp: box_drop_def)

end

context roomy_alloc
begin

lemma box_new_room:
  fixes v :: "'a::len word"
  assumes R: "room lo hi n s m bs" and hi: "hi \<le> 2 ^ 64" and req: "req (word_layout TYPE('a))"
    and T: "byte_sized TYPE('a)" and n: "need (word_layout TYPE('a)) \<le> n"
  shows "\<exists>p s' m'. box_new alloc v (s, m) = Ret (p, s', m') \<and>
    room lo hi (n - need (word_layout TYPE('a))) s' m' (add_mset (p, word_layout TYPE('a)) bs) \<and>
    same_on (extents bs) m m' \<and> box_read m' p = v"
proof -
  from room_alloc [OF R req n] obtain p s' m1 where
    a: "alloc s m (word_layout TYPE('a)) = Ret (p, s', m1)" "p \<noteq> 0"
    "room lo hi (n - need (word_layout TYPE('a))) s' m1 (add_mset (p, word_layout TYPE('a)) bs)" by blast
  from box_new_Ret [OF room_inv [OF R] hi req T a(1,2), of v] obtain m' where
    "box_new alloc v (s, m) = Ret (p, s', m')" "same_on (extents bs) m m'" "box_read m' p = v"
    "\<And>x. \<not> held (add_mset (p, word_layout TYPE('a)) bs) x \<Longrightarrow> m' x = m1 x" by blast
  with room_store [OF a(3) this(4)] show ?thesis by blast
qed

lemma box_drop_room:
  assumes "room lo hi n s m bs" and "(p, word_layout TYPE('a::len)) \<in># bs"
  shows "\<exists>s' m'. box_drop TYPE('a) dealloc p (s, m) = Ret (s', m') \<and>
    room lo hi n s' m' (bs - {#(p, word_layout TYPE('a))#})"
  using box_drop_Ret [OF room_inv [OF assms(1)] assms(2)] room_dealloc [OF assms]
  by (fastforce simp: box_drop_def)

end

subsection \<open>Vectors keep their elements\<close>

definition array_block :: "'a::len itself \<Rightarrow> nat \<Rightarrow> layout" where
  "array_block T n = \<lparr>layout_size = of_nat (n * (LENGTH('a) div 8)), layout_align = of_nat (LENGTH('a) div 8)\<rparr>"

definition vec_blocks :: "'a::len itself \<Rightarrow> vec \<Rightarrow> block multiset" where
  "vec_blocks T v = (if vec_cap v = 0 then {#} else {#(vec_ptr v, array_block T (vec_cap v))#})"

text \<open>Element types and capacities for which \<open>Layout::array\<close> succeeds.\<close>

definition array_ok :: "'a::len itself \<Rightarrow> nat \<Rightarrow> bool" where
  "array_ok T n \<longleftrightarrow> byte_sized T \<and> is_power_of_two (of_nat (LENGTH('a) div 8)) \<and> n \<le> 2 ^ 32"

lemma array_ok_size:
  assumes "array_ok TYPE('a::len) n"
  shows "n * (LENGTH('a) div 8) \<le> 2 ^ 36"
    and "unat (layout_size (array_block TYPE('a) n)) = n * (LENGTH('a) div 8)"
    and "unat (layout_align (array_block TYPE('a) n)) = LENGTH('a) div 8"
    and "array_layout TYPE('a) n = Some (array_block TYPE('a) n)"
proof -
  have e: "LENGTH('a) div 8 \<le> 16" using assms div_le_mono [of "LENGTH('a)" 128 8] by (simp add: array_ok_def)
  have "n * (LENGTH('a) div 8) \<le> 2 ^ 32 * 16" using assms e by (intro mult_le_mono) (simp_all add: array_ok_def)
  then show le: "n * (LENGTH('a) div 8) \<le> 2 ^ 36" by simp
  then show sz: "unat (layout_size (array_block TYPE('a) n)) = n * (LENGTH('a) div 8)"
    by (simp add: array_block_def unat_of_nat del: of_nat_mult)
  show al: "unat (layout_align (array_block TYPE('a) n)) = LENGTH('a) div 8"
    using e by (simp add: array_block_def unat_of_nat)
  have "layout_wf (array_block TYPE('a) n)"
    using le e sz al assms by (simp add: layout_wf_def isize_max_def array_ok_def array_block_def)
  then show "array_layout TYPE('a) n = Some (array_block TYPE('a) n)"
    using le by (simp add: array_layout_def from_size_align_Some array_block_def)
qed

lemma array_ok_mono: "array_ok T n \<Longrightarrow> k \<le> n \<Longrightarrow> array_ok T k"
  by (simp add: array_ok_def)

lemma load_bytes_prefix: "a \<le> b \<Longrightarrow> load_bytes m p a = take a (load_bytes m p b)"
  using load_bytes_append [of m p a "b - a"] by simp

lemma concat_le_bytes_length: "length (concat (map le_bytes (xs :: 'a::len word list))) = length xs * (LENGTH('a) div 8)"
  by (induction xs) auto

lemma vec_elems_load:
  fixes xs :: "'a::len word list"
  assumes "8 dvd LENGTH('a)" and "vec_len v = length xs"
    and "load_bytes m (vec_ptr v) (length xs * (LENGTH('a) div 8)) = concat (map le_bytes xs)"
  shows "vec_elems m v = xs"
  using assms(2,3)
proof (induction xs arbitrary: v rule: rev_induct)
  case Nil
  then show ?case by (simp add: vec_elems_def)
next
  case (snoc x xs)
  let ?e = "LENGTH('a) div 8"
  have l: "load_bytes m (vec_ptr v) (length xs * ?e) @ load_bytes m (vec_ptr v + of_nat (length xs * ?e)) ?e =
      concat (map le_bytes xs) @ le_bytes x"
    using snoc.prems(2) load_bytes_append [of m "vec_ptr v" "length xs * ?e" ?e] by (simp add: add.commute)
  then have pre: "load_bytes m (vec_ptr v) (length xs * ?e) = concat (map le_bytes xs)"
    and last: "load_bytes m (vec_ptr v + of_nat (length xs * ?e)) ?e = le_bytes x"
    by (auto simp: concat_le_bytes_length append_eq_append_conv)
  have "vec_elems m (v\<lparr>vec_len := length xs\<rparr>) = xs" using pre by (intro snoc.IH) simp_all
  moreover have "box_read m (elem_addr TYPE('a) v (length xs)) = x"
    using box_read_load [OF last assms(1)] by (simp add: elem_addr_def)
  ultimately show ?case using snoc.prems(1) by (simp add: vec_elems_def elem_addr_def)
qed

context roomy_alloc
begin

definition vec_ok :: "nat \<Rightarrow> nat \<Rightarrow> nat \<Rightarrow> 's \<Rightarrow> mem \<Rightarrow> block multiset \<Rightarrow> vec \<Rightarrow> 'a::len word list \<Rightarrow> bool" where
  "vec_ok lo hi n s m bs v xs \<longleftrightarrow> room lo hi n s m (vec_blocks TYPE('a) v + bs) \<and> array_ok TYPE('a) (vec_cap v) \<and>
     vec_len v = length xs \<and> length xs \<le> vec_cap v \<and>
     load_bytes m (vec_ptr v) (length xs * (LENGTH('a) div 8)) = concat (map le_bytes xs)"

lemma realloc_room:
  assumes R: "room lo hi n s m (add_mset (ptr, old) bs)" and hi: "hi \<le> 2 ^ 64"
    and req: "req new" and n: "need new \<le> n" and k: "unat (layout_size old) \<le> unat (layout_size new)"
  shows "\<exists>p s' m'. realloc alloc dealloc ptr old new (s, m) = Ret (p, s', m') \<and> p \<noteq> 0 \<and>
    room lo hi (n - need new) s' m' (add_mset (p, new) bs) \<and> same_on (extents bs) m m' \<and>
    load_bytes m' p (unat (layout_size old)) = load_bytes m ptr (unat (layout_size old))"
proof -
  let ?T = "add_mset (ptr, old) bs" and ?k = "unat (layout_size old)"
  have I: "inv lo hi s m ?T" using R by (rule room_inv)
  from room_alloc [OF R req n] alloc_law [OF I req] obtain p s1 m1 where
    a: "alloc s m new = Ret (p, s1, m1)" "p \<noteq> 0" "room lo hi (n - need new) s1 m1 (add_mset (p, new) ?T)"
    "same_on (extents ?T) m m1" by auto
  have live: "live_ok lo hi (add_mset (p, new) ?T)" using inv_live [OF room_inv [OF a(3)]] .
  let ?xs = "load_bytes m1 ptr ?k" and ?m = "store_bytes m1 p (load_bytes m1 ptr ?k)"
  have "0 + length ?xs \<le> unat (layout_size new)" using k by simp
  note fr = store_bytes_frame [OF live hi this, where m = m1, simplified]
  have R2: "room lo hi (n - need new) s1 ?m (add_mset (ptr, old) (add_mset (p, new) bs))"
    using room_store [OF a(3), of ?m] fr(2) by (simp add: add_mset_commute)
  obtain s2 m2 where d: "dealloc s1 ?m ptr old = Ret (s2, m2)" "same_on (extents (add_mset (p, new) bs)) ?m m2"
    using dealloc_law [OF room_inv [OF R2], of ptr old] by auto
  have R3: "room lo hi (n - need new) s2 m2 (add_mset (p, new) bs)"
    using room_dealloc [OF R2 _ d(1)] by simp
  have "load_bytes m2 p ?k = load_bytes ?m p ?k"
    using load_bytes_same [OF d(2) _ k inv_live [OF room_inv [OF R3]] hi] by simp
  also have "\<dots> = ?xs"
    using load_store_same [of p ?xs m1] live_no_wrap [OF live hi, of p new] k by simp
  also have "\<dots> = load_bytes m ptr ?k" using load_bytes_same [OF a(4) _ _ inv_live [OF I] hi, of ptr old] by simp
  finally have cont: "load_bytes m2 p ?k = load_bytes m ptr ?k" .
  have s: "same_on (extents bs) m m1" "same_on (extents bs) m1 ?m" "same_on (extents bs) ?m m2"
    using a(4) fr(1) d(2) by (auto elim: same_on_mono)
  have "same_on (extents bs) m m2" using same_on_trans [OF same_on_trans [OF s(1,2)] s(3)] .
  moreover have "realloc alloc dealloc ptr old new (s, m) = Ret (p, s2, m2)"
    using a(1,2) d(1) k by (simp add: realloc_def Let_def min_absorb1)
  ultimately show ?thesis using a(2) R3 cont by blast
qed

lemma vec_grow_room:
  fixes xs :: "'a::len word list"
  assumes ok: "vec_ok lo hi n s m bs v xs" and hi: "hi \<le> 2 ^ 64" and cap: "cap = max 4 (max (2 * vec_cap v) (vec_len v + 1))"
    and arr: "array_ok TYPE('a) cap" and req: "req (array_block TYPE('a) cap)" and n: "need (array_block TYPE('a) cap) \<le> n"
  shows "\<exists>p s' m'. vec_grow TYPE('a) alloc dealloc v (s, m) = Ret (v\<lparr>vec_ptr := p, vec_cap := cap\<rparr>, s', m') \<and>
    vec_ok lo hi (n - need (array_block TYPE('a) cap)) s' m' bs (v\<lparr>vec_ptr := p, vec_cap := cap\<rparr>) xs \<and>
    same_on (extents bs) m m'"
proof -
  let ?new = "array_block TYPE('a) cap" and ?old = "array_block TYPE('a) (vec_cap v)" and ?e = "LENGTH('a) div 8"
  have R: "room lo hi n s m (vec_blocks TYPE('a) v + bs)" and ao: "array_ok TYPE('a) (vec_cap v)"
    and len: "vec_len v = length xs" "length xs \<le> vec_cap v"
    and ld: "load_bytes m (vec_ptr v) (length xs * ?e) = concat (map le_bytes xs)"
    using ok by (auto simp: vec_ok_def)
  have cap0: "cap \<noteq> 0" "length xs \<le> cap" "vec_cap v \<le> cap" using cap len by auto
  show ?thesis
  proof (cases "vec_cap v = 0")
    case True
    from room_alloc [OF R req n] alloc_law [OF room_inv [OF R] req] True obtain p s' m' where
      a: "alloc s m ?new = Ret (p, s', m')" "p \<noteq> 0" "room lo hi (n - need ?new) s' m' (add_mset (p, ?new) bs)"
      "same_on (extents bs) m m'" by (auto simp: vec_blocks_def)
    have "vec_grow TYPE('a) alloc dealloc v (s, m) = Ret (v\<lparr>vec_ptr := p, vec_cap := cap\<rparr>, s', m')"
      unfolding vec_grow_def Let_def cap [symmetric] using True a(1,2) array_ok_size(4) [OF arr] by simp
    with a True cap0 arr len show ?thesis by (auto simp: vec_ok_def vec_blocks_def load_bytes_def)
  next
    case False
    have R': "room lo hi n s m (add_mset (vec_ptr v, ?old) bs)" using R False by (simp add: vec_blocks_def)
    have k: "unat (layout_size ?old) \<le> unat (layout_size ?new)"
      using array_ok_size(2) [OF arr] array_ok_size(2) [OF ao] cap0(3) by simp
    from realloc_room [OF R' hi req n k] obtain p s' m' where
      r: "realloc alloc dealloc (vec_ptr v) ?old ?new (s, m) = Ret (p, s', m')" "p \<noteq> 0"
      "room lo hi (n - need ?new) s' m' (add_mset (p, ?new) bs)" "same_on (extents bs) m m'"
      "load_bytes m' p (vec_cap v * ?e) = load_bytes m (vec_ptr v) (vec_cap v * ?e)"
      unfolding array_ok_size(2) [OF ao] by blast
    have "length xs * ?e \<le> vec_cap v * ?e" using len(2) by simp
    then have "load_bytes m' p (length xs * ?e) = concat (map le_bytes xs)"
      using r(5) ld load_bytes_prefix [of "length xs * ?e" "vec_cap v * ?e"] by metis
    moreover have "vec_grow TYPE('a) alloc dealloc v (s, m) = Ret (v\<lparr>vec_ptr := p, vec_cap := cap\<rparr>, s', m')"
      unfolding vec_grow_def Let_def cap [symmetric]
      using False r(1,2) array_ok_size(4) [OF arr] array_ok_size(4) [OF ao] by simp
    ultimately show ?thesis using False r cap0 arr len by (auto simp: vec_ok_def vec_blocks_def)
  qed
qed

lemma vec_store_room:
  fixes x :: "'a::len word"
  assumes ok: "vec_ok lo hi n s m bs v xs" and hi: "hi \<le> 2 ^ 64" and lt: "length xs < vec_cap v"
  shows "vec_ok lo hi n s (store_bytes m (elem_addr TYPE('a) v (vec_len v)) (le_bytes x)) bs
      (v\<lparr>vec_len := vec_len v + 1\<rparr>) (xs @ [x])"
    and "same_on (extents bs) m (store_bytes m (elem_addr TYPE('a) v (vec_len v)) (le_bytes x))"
proof -
  let ?e = "LENGTH('a) div 8" and ?l = "array_block TYPE('a) (vec_cap v)"
  let ?m = "store_bytes m (elem_addr TYPE('a) v (vec_len v)) (le_bytes x)"
  have R: "room lo hi n s m (add_mset (vec_ptr v, ?l) bs)" and ao: "array_ok TYPE('a) (vec_cap v)"
    and len: "vec_len v = length xs"
    and ld: "load_bytes m (vec_ptr v) (length xs * ?e) = concat (map le_bytes xs)"
    using ok lt by (auto simp: vec_ok_def vec_blocks_def)
  have live: "live_ok lo hi (add_mset (vec_ptr v, ?l) bs)" using inv_live [OF room_inv [OF R]] .
  have "Suc (length xs) * ?e \<le> vec_cap v * ?e" using lt by (intro mult_le_mono) simp_all
  then have o: "length xs * ?e + length (le_bytes x) \<le> unat (layout_size ?l)"
    unfolding array_ok_size(2) [OF ao] by (simp add: add.commute)
  have ad: "elem_addr TYPE('a) v (vec_len v) = vec_ptr v + of_nat (length xs * ?e)" by (simp add: elem_addr_def len)
  note fr = store_bytes_frame [OF live hi o, where m = m, folded ad]
  from fr(1) show "same_on (extents bs) m ?m" .
  have R': "room lo hi n s ?m (add_mset (vec_ptr v, ?l) bs)" by (rule room_store [OF R fr(2)])
  have w: "unat (vec_ptr v) + (length xs * ?e + ?e) \<le> 2 ^ 64"
    using live_no_wrap [OF live hi, of "vec_ptr v" ?l] o by simp
  have u: "unat (elem_addr TYPE('a) v (length xs)) = unat (vec_ptr v) + length xs * ?e \<or> ?e = 0"
    using unat_plus_small [OF w, of "length xs * ?e"] by (auto simp: elem_addr_def)
  have "load_bytes ?m (vec_ptr v) (length xs * ?e) = load_bytes m (vec_ptr v) (length xs * ?e)"
  proof (rule load_bytes_cong)
    show "?m y = m y" if "covers (unat y) (unat (vec_ptr v), length xs * ?e)" for y
      using that u w len by (cases "?e = 0") (auto simp: covers_def intro!: store_bytes_other)
  qed (use w in simp)
  moreover have "load_bytes ?m (vec_ptr v + of_nat (length xs * ?e)) ?e = le_bytes x"
    using load_store_same [of "elem_addr TYPE('a) v (length xs)" "le_bytes x" m] u w len
    by (cases "?e = 0") (auto simp: elem_addr_def load_bytes_def le_bytes_def)
  ultimately have "load_bytes ?m (vec_ptr v) (length xs * ?e + ?e) = concat (map le_bytes xs) @ le_bytes x"
    using ld by (simp add: load_bytes_append)
  then show "vec_ok lo hi n s ?m bs (v\<lparr>vec_len := vec_len v + 1\<rparr>) (xs @ [x])"
    using R' ao len lt by (simp add: vec_ok_def vec_blocks_def add.commute)
qed

end

text \<open>The capacity after \<open>j\<close> growths, and what the growths need together.\<close>

definition grown_cap :: "nat \<Rightarrow> nat" where
  "grown_cap j = (if j = 0 then 0 else 4 * 2 ^ (j - 1))"

definition growth_need :: "(layout \<Rightarrow> nat) \<Rightarrow> 'a::len itself \<Rightarrow> nat \<Rightarrow> nat" where
  "growth_need need T k = (\<Sum>i<k. need (array_block T (grown_cap (Suc i))))"

lemma grown_cap_Suc: "max 4 (max (2 * grown_cap j) (grown_cap j + 1)) = grown_cap (Suc j)"
proof (cases j)
  case (Suc i)
  have "(1 :: nat) \<le> 2 ^ i" by simp
  then have "4 * 2 ^ i + 1 \<le> (8 * 2 ^ i :: nat)" by linarith
  with Suc show ?thesis by (simp add: grown_cap_def)
qed (simp add: grown_cap_def)

lemma grown_cap_mono: "j \<le> k \<Longrightarrow> grown_cap j \<le> grown_cap k"
  by (auto simp: grown_cap_def intro!: power_increasing)

lemma growth_need_mono: "j \<le> k \<Longrightarrow> growth_need need T j \<le> growth_need need T k"
  by (simp add: growth_need_def sum_mono2)

lemma array_block_valid:
  assumes "array_ok TYPE('a::len) n" and "0 < n" and "8 \<le> LENGTH('a)"
  shows "valid_request (array_block TYPE('a) n)"
proof -
  have "0 < n * (LENGTH('a) div 8)" using assms(2,3) by (simp add: div_greater_zero_iff)
  moreover have "layout_wf (array_block TYPE('a) n)"
    using array_ok_size(4) [OF assms(1)] by (auto simp: array_layout_def from_size_align_Some split: if_splits)
  ultimately show ?thesis
    using array_ok_size(2) [OF assms(1)] by (simp add: valid_request_def word_less_nat_alt)
qed

lemma array_ok_numerals: "n \<le> 2 ^ 32 \<Longrightarrow> array_ok TYPE(32) n" "n \<le> 2 ^ 32 \<Longrightarrow> array_ok TYPE(64) n"
  using power_of_two_exp [of 2] power_of_two_exp [of 3] by (simp_all add: array_ok_def)

context roomy_alloc
begin

lemma vec_ok_mono: "vec_ok lo hi n s m bs v xs \<Longrightarrow> k \<le> n \<Longrightarrow> vec_ok lo hi k s m bs v xs"
  using room_mono by (auto simp: vec_ok_def)

lemma vec_ok_new: "room lo hi n s m bs \<Longrightarrow> array_ok TYPE('a) 0 \<Longrightarrow> vec_ok lo hi n s m bs vec_new ([] :: 'a::len word list)"
  by (simp add: vec_ok_def vec_new_def vec_blocks_def load_bytes_def)

lemma vec_push_room:
  fixes x :: "'a::len word"
  assumes ok: "vec_ok lo hi (n - growth_need need TYPE('a) j) s m bs v xs" and cap: "vec_cap v = grown_cap j"
    and hi: "hi \<le> 2 ^ 64" and len: "length xs < grown_cap k" and k: "j \<le> k"
    and arr: "array_ok TYPE('a) (grown_cap k)"
    and req: "\<And>i. i < k \<Longrightarrow> req (array_block TYPE('a) (grown_cap (Suc i)))"
    and n: "growth_need need TYPE('a) k \<le> n"
  shows "\<exists>v' s' m' j'. vec_push alloc dealloc x (v, s, m) = Ret (v', s', m') \<and> j' \<le> k \<and> vec_cap v' = grown_cap j' \<and>
    vec_ok lo hi (n - growth_need need TYPE('a) j') s' m' bs v' (xs @ [x]) \<and> same_on (extents bs) m m'"
proof (cases "vec_len v = vec_cap v")
  case False
  then have "length xs < vec_cap v" using ok by (simp add: vec_ok_def)
  from vec_store_room [OF ok hi this, of x] False k cap show ?thesis
    by (intro exI [of _ "v\<lparr>vec_len := vec_len v + 1\<rparr>"] exI [of _ s] exI conjI [OF _ conjI [of "j \<le> k"]])
      (auto simp: vec_push_def)
next
  case True
  then have "length xs = grown_cap j" using ok cap by (simp add: vec_ok_def)
  then have j: "j < k" using len k by (metis le_neq_implies_less less_irrefl)
  let ?l = "array_block TYPE('a) (grown_cap (Suc j))"
  have gr: "grown_cap (Suc j) = max 4 (max (2 * vec_cap v) (vec_len v + 1))"
    using True cap grown_cap_Suc by simp
  have S: "growth_need need TYPE('a) (Suc j) = growth_need need TYPE('a) j + need ?l" by (simp add: growth_need_def)
  have "growth_need need TYPE('a) (Suc j) \<le> n" using growth_need_mono [of "Suc j" k need "TYPE('a)"] j n by simp
  then have nd: "need ?l \<le> n - growth_need need TYPE('a) j" using S by simp
  have ao: "array_ok TYPE('a) (grown_cap (Suc j))" using array_ok_mono [OF arr grown_cap_mono] j by simp
  from vec_grow_room [OF ok hi gr ao req [OF j] nd] obtain p s1 m1 where
    g: "vec_grow TYPE('a) alloc dealloc v (s, m) = Ret (v\<lparr>vec_ptr := p, vec_cap := grown_cap (Suc j)\<rparr>, s1, m1)"
    "vec_ok lo hi (n - growth_need need TYPE('a) (Suc j)) s1 m1 bs (v\<lparr>vec_ptr := p, vec_cap := grown_cap (Suc j)\<rparr>) xs"
    "same_on (extents bs) m m1" unfolding S by (auto simp: diff_diff_left)
  have "length xs < grown_cap (Suc j)" using gr ok by (simp add: vec_ok_def)
  then have "length xs < vec_cap (v\<lparr>vec_ptr := p, vec_cap := grown_cap (Suc j)\<rparr>)" by simp
  note st = vec_store_room [OF g(2) hi this, of x]
  have "vec_push alloc dealloc x (v, s, m) = Ret (v\<lparr>vec_ptr := p, vec_cap := grown_cap (Suc j), vec_len := vec_len v + 1\<rparr>, s1,
      store_bytes m1 (elem_addr TYPE('a) (v\<lparr>vec_ptr := p, vec_cap := grown_cap (Suc j)\<rparr>) (vec_len v)) (le_bytes x))"
    using g(1) True by (simp add: vec_push_def)
  with st same_on_trans [OF g(3) st(2)] j show ?thesis by (auto intro!: exI [of _ "Suc j"])
qed

lemma vec_pushes_room:
  fixes ys :: "'a::len word list"
  assumes "vec_ok lo hi (n - growth_need need TYPE('a) j) s m bs v xs" and "vec_cap v = grown_cap j" and "j \<le> k"
    and "length xs + length ys \<le> grown_cap k"
    and hi: "hi \<le> 2 ^ 64" and arr: "array_ok TYPE('a) (grown_cap k)"
    and req: "\<And>i. i < k \<Longrightarrow> req (array_block TYPE('a) (grown_cap (Suc i)))"
    and n: "growth_need need TYPE('a) k \<le> n"
  shows "\<exists>v' s' m'. for_each ys (vec_push alloc dealloc) (v, s, m) = Ret (v', s', m') \<and>
    vec_ok lo hi (n - growth_need need TYPE('a) k) s' m' bs v' (xs @ ys) \<and> same_on (extents bs) m m'"
  using assms(1-4)
proof (induction ys arbitrary: v s m xs j)
  case Nil
  then show ?case using vec_ok_mono [OF Nil.prems(1), of "n - growth_need need TYPE('a) k"]
      growth_need_mono [OF Nil.prems(3), of need "TYPE('a)"] by simp
next
  case (Cons y ys)
  then have "length xs < grown_cap k" by simp
  from vec_push_room [OF Cons.prems(1,2) hi this Cons.prems(3) arr req n, of y] obtain v' s' m' j' where
    p: "vec_push alloc dealloc y (v, s, m) = Ret (v', s', m')" "j' \<le> k" "vec_cap v' = grown_cap j'"
    "vec_ok lo hi (n - growth_need need TYPE('a) j') s' m' bs v' (xs @ [y])" "same_on (extents bs) m m'" by blast
  from Cons.IH [OF p(4,3,2)] Cons.prems(4) p(1,5) same_on_trans [OF p(5)] show ?case by fastforce
qed

lemma vec_drop_room:
  fixes xs :: "'a::len word list"
  assumes "vec_ok lo hi n s m bs v xs"
  shows "\<exists>s' m'. vec_drop TYPE('a) dealloc v (s, m) = Ret (s', m') \<and> room lo hi n s' m' bs"
proof (cases "vec_cap v = 0")
  case True
  with assms show ?thesis by (simp add: vec_drop_def vec_ok_def vec_blocks_def)
next
  case False
  let ?l = "array_block TYPE('a) (vec_cap v)"
  have R: "room lo hi n s m (add_mset (vec_ptr v, ?l) bs)" and ao: "array_ok TYPE('a) (vec_cap v)"
    using assms False by (auto simp: vec_ok_def vec_blocks_def)
  obtain s' m' where d: "dealloc s m (vec_ptr v) ?l = Ret (s', m')" using dealloc_law [OF room_inv [OF R], of "vec_ptr v" ?l] by auto
  then show ?thesis using False room_dealloc [OF R _ d] array_ok_size(4) [OF ao] by (simp add: vec_drop_def)
qed

end

end
