(* ===== verification/Bump_Allocator.thy ===== *)
theory Bump_Allocator
  imports Allocator
begin

text \<open>
  The bump allocator of \<open>src/allocator/bump.rs\<close>: its four fields, \<open>new\<close>, \<open>init\<close>,
  \<open>alloc\<close> and \<open>dealloc\<close>; the invariant that relates the counter and the
  \<open>next\<close> address to the live blocks; the contract \<open>GlobalAlloc\<close>.
\<close>

record bump_allocator =
  heap_start :: usize
  heap_end :: usize
  bump_next :: usize
  allocations :: usize

definition bump_new :: bump_allocator where
  "bump_new = \<lparr>heap_start = 0, heap_end = 0, bump_next = 0, allocations = 0\<rparr>"

definition bump_init :: "bump_allocator \<Rightarrow> usize \<Rightarrow> usize \<Rightarrow> bump_allocator outcome" where
  "bump_init s start sz =
     and_then (add_usize start sz) (\<lambda>e.
     Ret (s\<lparr>heap_start := start, heap_end := e, bump_next := start\<rparr>))"

definition bump_alloc :: "bump_allocator alloc_fn" where
  "bump_alloc s m l =
     and_then (align_up (bump_next s) (layout_align l)) (\<lambda>alloc_start.
     case checked_add alloc_start (layout_size l) of
       None \<Rightarrow> Ret (0, s, m)
     | Some alloc_end \<Rightarrow>
         if alloc_end > heap_end s then Ret (0, s, m)
         else and_then (add_usize (allocations s) 1) (\<lambda>n.
              Ret (alloc_start, s\<lparr>bump_next := alloc_end, allocations := n\<rparr>, m)))"

definition bump_dealloc :: "bump_allocator dealloc_fn" where
  "bump_dealloc s m p l =
     and_then (sub_usize (allocations s) 1) (\<lambda>n.
     let s' = s\<lparr>allocations := n\<rparr>
     in Ret (if n = 0 then s'\<lparr>bump_next := heap_start s'\<rparr> else s', m))"

definition requested :: "block multiset \<Rightarrow> nat" where
  "requested bs = (\<Sum>b\<in>#bs. unat (layout_size (snd b)))"

definition bump_inv :: "nat \<Rightarrow> nat \<Rightarrow> bump_allocator \<Rightarrow> mem \<Rightarrow> block multiset \<Rightarrow> bool" where
  "bump_inv lo hi s m bs \<longleftrightarrow>
     unat (heap_start s) = lo \<and> unat (heap_end s) = hi \<and> 0 < lo \<and> hi \<le> isize_max \<and>
     lo \<le> unat (bump_next s) \<and> unat (bump_next s) \<le> hi \<and>
     unat (allocations s) = size bs \<and> live_ok lo (unat (bump_next s)) bs \<and>
     requested bs \<le> unat (bump_next s) - lo"

lemma bump_inv_count:
  assumes "bump_inv lo hi s m bs"
  shows "size bs \<le> unat (bump_next s) - lo"
proof -
  have "\<forall>b\<in>#bs. 0 < unat (layout_size (snd b))"
    using assms by (auto simp: bump_inv_def live_ok_def placed_def valid_request_def word_less_nat_alt)
  then have "size bs \<le> requested bs" unfolding requested_def by (rule size_le_total)
  with assms show ?thesis by (simp add: bump_inv_def)
qed

lemma bump_next_align_bound:
  assumes "bump_inv lo hi s m bs" and "layout_wf l"
  shows "unat (bump_next s) + unat (layout_align l) < 2 ^ 64"
  using assms layout_wf_bound [OF assms(2)] by (simp add: bump_inv_def isize_max_def)

text \<open>The two ways \<open>alloc\<close> returns: the aligned request fits below the heap end or not.\<close>

lemma bump_alloc_cases:
  assumes "bump_inv lo hi s m bs" and "valid_request l"
  obtains
    (full) "bump_alloc s m l = Ret (0, s, m)"
      and "hi < round_up (unat (bump_next s)) (unat (layout_align l)) + unat (layout_size l)"
  | (fits) p where
      "bump_alloc s m l =
         Ret (p, s\<lparr>bump_next := p + layout_size l, allocations := allocations s + 1\<rparr>, m)"
      and "unat p = round_up (unat (bump_next s)) (unat (layout_align l))"
      and "unat (p + layout_size l) = unat p + unat (layout_size l)"
      and "unat p + unat (layout_size l) \<le> hi"
      and "unat (allocations s + 1) = size bs + 1"
proof -
  have wf: "layout_wf l" using assms(2) by (simp add: valid_request_def)
  obtain p where p: "align_up (bump_next s) (layout_align l) = Ret p"
    "unat p = round_up (unat (bump_next s)) (unat (layout_align l))"
    using align_up_Ret [OF layout_wf_align [OF wf] bump_next_align_bound [OF assms(1) wf]] by blast
  have hi: "unat (heap_end s) = hi" "hi \<le> isize_max" "unat (bump_next s) \<le> hi"
    using assms(1) by (auto simp: bump_inv_def)
  have "size bs + 1 < 2 ^ 64"
    using bump_inv_count [OF assms(1)] hi by (simp add: isize_max_def)
  then have cnt: "add_usize (allocations s) 1 = Ret (allocations s + 1)"
    "unat (allocations s + 1) = size bs + 1"
    using assms(1) by (auto simp: bump_inv_def unat_add_exact)
  consider (ovf) "2 ^ 64 \<le> unat p + unat (layout_size l)"
    | (big) "unat p + unat (layout_size l) < 2 ^ 64" "hi < unat p + unat (layout_size l)"
    | (ok) "unat p + unat (layout_size l) \<le> hi" by linarith
  then show thesis
  proof cases
    case ovf
    with p hi show thesis
      by (intro full) (simp_all add: bump_alloc_def checked_add_def isize_max_def)
  next
    case big
    with p hi show thesis
      by (intro full) (simp_all add: bump_alloc_def checked_add_def word_less_nat_alt unat_add_exact)
  next
    case ok
    then have sum: "unat p + unat (layout_size l) < 2 ^ 64" using hi by (simp add: isize_max_def)
    with ok p hi cnt show thesis
      by (intro fits [of p])
        (simp_all add: bump_alloc_def checked_add_def word_less_nat_alt unat_add_exact)
  qed
qed

lemma bump_alloc_law:
  assumes "bump_inv lo hi s m bs" and "valid_request l"
  shows "\<exists>p s' m'. bump_alloc s m l = Ret (p, s', m') \<and> same_on (extents bs) m m' \<and>
    bump_inv lo hi s' m' (if p = 0 then bs else add_mset (p, l) bs)"
  using assms
proof (cases rule: bump_alloc_cases)
  case full
  with assms show ?thesis by simp
next
  case (fits p)
  have al: "is_power_of_two (layout_align l)" using assms(2) by (simp add: valid_request_def layout_wf_def)
  have ge: "unat (bump_next s) \<le> unat p"
    using fits(2) round_up_ge [OF power_of_two_pos [OF al]] by simp
  have lo: "lo \<le> unat (bump_next s)" "0 < lo" using assms(1) by (auto simp: bump_inv_def)
  then have "p \<noteq> 0" using ge by auto
  let ?b = "(p, l)" and ?hi = "unat p + unat (layout_size l)"
  have placed: "placed lo ?hi ?b"
    using assms(2) fits(2) lo ge by (simp add: placed_def)
  have "live_ok lo (unat (bump_next s)) bs" using assms(1) by (simp add: bump_inv_def)
  moreover have "\<not> covers x (block_extent c)"
    if "covers x (block_extent ?b)" and "c \<in># bs" for x c
  proof -
    have "unat p \<le> x" using that(1) by (simp add: covers_def block_extent_def)
    then show ?thesis
      using that(2) calculation ge covers_placed [of lo "unat (bump_next s)" c x]
      by (auto simp: live_ok_def)
  qed
  ultimately have "live_ok lo ?hi (add_mset ?b bs)"
    using placed ge by (intro live_ok_add) (auto intro: live_ok_mono)
  with fits assms(1) ge lo \<open>p \<noteq> 0\<close> show ?thesis
    by (auto simp: bump_inv_def requested_def)
qed

lemma bump_dealloc_eq:
  assumes "bump_inv lo hi s m bs" and "b \<in># bs"
  shows "bump_dealloc s m p l =
    Ret (if bs = {#b#} then s\<lparr>allocations := 0, bump_next := heap_start s\<rparr>
         else s\<lparr>allocations := allocations s - 1\<rparr>, m)"
proof -
  have n: "unat (allocations s) = size bs" using assms(1) by (simp add: bump_inv_def)
  obtain cs where cs: "bs = add_mset b cs" using assms(2) by (metis multi_member_split)
  then have le: "1 \<le> allocations s" using n by (simp add: word_le_nat_alt)
  then have u: "unat (allocations s - 1) = size cs" using n cs by (simp add: unat_sub)
  then have "allocations s - 1 = 0 \<longleftrightarrow> cs = {#}" by (simp add: word_unat_eq_iff)
  moreover have "bs = {#b#} \<longleftrightarrow> cs = {#}" using cs by simp
  ultimately show ?thesis
    using le by (simp add: bump_dealloc_def sub_usize_def Let_def)
qed

lemma bump_dealloc_law:
  assumes "bump_inv lo hi s m bs" and "(p, l) \<in># bs"
  shows "\<exists>s' m'. bump_dealloc s m p l = Ret (s', m') \<and>
    same_on (extents (bs - {#(p, l)#})) m m' \<and> bump_inv lo hi s' m' (bs - {#(p, l)#})"
proof (cases "bs = {#(p, l)#}")
  case True
  then show ?thesis
    using bump_dealloc_eq [OF assms] assms(1) by (auto simp: bump_inv_def requested_def)
next
  case False
  obtain cs where cs: "bs = add_mset (p, l) cs" using assms(2) by (metis multi_member_split)
  have "1 \<le> allocations s" using assms(1) cs by (simp add: bump_inv_def word_le_nat_alt)
  then have "unat (allocations s - 1) = size cs"
    using assms(1) cs by (simp add: bump_inv_def unat_sub)
  moreover have "live_ok lo (unat (bump_next s)) cs"
    using assms(1) cs live_ok_remove [of lo _ bs "(p, l)"] by (simp add: bump_inv_def)
  ultimately show ?thesis
    using False bump_dealloc_eq [OF assms] assms(1) cs by (simp add: bump_inv_def requested_def)
qed

interpretation bump: global_alloc valid_request bump_alloc bump_dealloc bump_inv
proof unfold_locales
  fix lo hi s m bs
  assume "bump_inv lo hi s m bs"
  then show "live_ok lo hi bs" by (auto simp: bump_inv_def intro: live_ok_mono)
next
  fix lo hi s m bs m'
  assume "bump_inv lo hi s m bs"
  then show "bump_inv lo hi s m' bs" by (simp add: bump_inv_def)
qed (use bump_alloc_law bump_dealloc_law in blast)+

lemma bump_init_inv:
  assumes "heap_region_ok start sz"
  shows "\<exists>s. bump_init bump_new start sz = Ret s \<and>
    bump_inv (unat start) (unat start + unat sz) s m {#}"
  using assms
  by (auto simp: heap_region_ok_def bump_init_def bump_new_def bump_inv_def requested_def
      add_usize_def unat_add_exact isize_max_def word_less_nat_alt)

subsection \<open>Room\<close>

text \<open>The bytes between \<open>next\<close> and the end of the heap are the room.\<close>

definition bump_need :: "layout \<Rightarrow> nat" where
  "bump_need l = unat (layout_size l) + unat (layout_align l)"

definition bump_room :: "nat \<Rightarrow> nat \<Rightarrow> nat \<Rightarrow> bump_allocator \<Rightarrow> mem \<Rightarrow> block multiset \<Rightarrow> bool" where
  "bump_room lo hi n s m bs \<longleftrightarrow> bump_inv lo hi s m bs \<and> unat (bump_next s) + n \<le> hi"

lemma bump_room_alloc:
  assumes "bump_room lo hi n s m bs" and "valid_request l" and "bump_need l \<le> n"
  shows "\<exists>p s' m'. bump_alloc s m l = Ret (p, s', m') \<and> p \<noteq> 0 \<and>
    bump_room lo hi (n - bump_need l) s' m' (add_mset (p, l) bs)"
proof -
  have I: "bump_inv lo hi s m bs" and n: "unat (bump_next s) + n \<le> hi"
    using assms(1) by (auto simp: bump_room_def)
  have "0 < unat (layout_align l)"
    using assms(2) by (simp add: valid_request_def layout_wf_align power_of_two_pos)
  note r = round_up_less [OF this, of "unat (bump_next s)"] round_up_ge [OF this, of "unat (bump_next s)"]
  show ?thesis
    using I assms(2)
  proof (cases rule: bump_alloc_cases)
    case full
    with r n assms(3) show ?thesis by (simp add: bump_need_def)
  next
    case (fits p)
    have "p \<noteq> 0" using fits(2) r(2) I by (auto simp: bump_inv_def)
    moreover from this have "bump_inv lo hi (s\<lparr>bump_next := p + layout_size l, allocations := allocations s + 1\<rparr>) m (add_mset (p, l) bs)"
      using bump_alloc_law [OF I assms(2)] fits(1) by auto
    ultimately show ?thesis using fits(1-3) r n assms(3) by (auto simp: bump_room_def bump_need_def)
  qed
qed

lemma bump_room_dealloc:
  assumes "bump_room lo hi n s m bs" and "(p, l) \<in># bs" and "bump_dealloc s m p l = Ret (s', m')"
  shows "bump_room lo hi n s' m' (bs - {#(p, l)#})"
proof -
  have I: "bump_inv lo hi s m bs" using assms(1) by (simp add: bump_room_def)
  then have "bump_inv lo hi s' m' (bs - {#(p, l)#})" using bump_dealloc_law [OF I assms(2)] assms(3) by auto
  moreover have "unat (bump_next s') \<le> unat (bump_next s)"
    using bump_dealloc_eq [OF I assms(2), of p l] assms(3) I by (auto simp: bump_inv_def split: if_splits)
  ultimately show ?thesis using assms(1) by (simp add: bump_room_def)
qed

interpretation bump: roomy_alloc valid_request bump_alloc bump_dealloc bump_inv bump_need bump_room
  using bump_room_alloc bump_room_dealloc bump.store_law by unfold_locales (auto simp: bump_room_def)

subsection \<open>Properties\<close>

text \<open>
  C25. From a heap region it was initialised with, the bump allocator serves any sequence
  of client operations without panicking or looping, for all valid layouts of non-zero
  size; at the end the live blocks are
  aligned as requested, lie inside the heap and do not overlap, and every byte the
  client stored in a block it still holds is intact.
\<close>

theorem bump_client_safe:
  assumes "heap_region_ok start sz"
  shows "\<exists>s c. bump_init bump_new start sz = Ret s \<and>
    client_run valid_request bump_alloc bump_dealloc ops (fresh_client s m) = Ret c \<and>
    client_ok (unat start) (unat start + unat sz) c"
  using bump_init_inv [OF assms] bump.client_run_ok by blast

theorem bump_client_safe_witness:
  "\<exists>s c. bump_init bump_new HEAP_START HEAP_SIZE = Ret s \<and>
    client_run valid_request bump_alloc bump_dealloc
      [AllocOp \<lparr>layout_size = 8, layout_align = 8\<rparr>, StoreOp HEAP_START 42,
       AllocOp \<lparr>layout_size = 64, layout_align = 32\<rparr>,
       DeallocOp HEAP_START \<lparr>layout_size = 8, layout_align = 8\<rparr>]
      (fresh_client s (\<lambda>_. 0)) = Ret c \<and>
    client_ok (unat HEAP_START) (unat HEAP_START + unat HEAP_SIZE) c"
  by (rule bump_client_safe) (rule heap_region_ok_HEAP)

text \<open>
  \<open>alloc\<close> of the bump allocator returns the null pointer, and changes nothing,
  exactly when the aligned request does not fit between \<open>next\<close> and the end of the
  heap; otherwise it returns the least aligned address that is not below \<open>next\<close>.
\<close>

theorem bump_alloc_functional:
  assumes "bump_inv lo hi s m bs" and "valid_request l"
  shows "bump_alloc s m l =
    (let a = round_up (unat (bump_next s)) (unat (layout_align l))
     in if hi < a + unat (layout_size l) then Ret (0, s, m)
        else Ret (of_nat a, s\<lparr>bump_next := of_nat a + layout_size l,
                             allocations := allocations s + 1\<rparr>, m))"
  using assms
proof (cases rule: bump_alloc_cases)
  case full
  then show ?thesis by (simp add: Let_def)
next
  case (fits p)
  then have "of_nat (round_up (unat (bump_next s)) (unat (layout_align l))) = p"
    by (metis of_nat_unat ucast_id)
  with fits show ?thesis by (simp add: Let_def)
qed

text \<open>A state with one live block, for the witnesses.\<close>

definition bump_example :: bump_allocator where
  "bump_example = \<lparr>heap_start = 0x1000, heap_end = 0x2000, bump_next = 0x1008, allocations = 1\<rparr>"

definition bump_example_block :: block where
  "bump_example_block = (0x1000, \<lparr>layout_size = 8, layout_align = 8\<rparr>)"

lemma bump_example_inv: "bump_inv 0x1000 0x2000 bump_example m {#bump_example_block#}"
  by (simp add: bump_inv_def bump_example_def bump_example_block_def live_ok_def placed_def
      valid_request_def layout_wf_def isize_max_def requested_def disjoint_extents_def)

theorem bump_alloc_functional_witness:
  "bump_alloc bump_example (\<lambda>_. 0) \<lparr>layout_size = 16, layout_align = 16\<rparr> =
     Ret (0x1010, bump_example\<lparr>bump_next := 0x1020, allocations := 2\<rparr>, \<lambda>_. 0) \<and>
   bump_alloc bump_example (\<lambda>_. 0) \<lparr>layout_size = 0x1000, layout_align = 16\<rparr> =
     Ret (0, bump_example, \<lambda>_. 0)"
proof -
  have v: "valid_request \<lparr>layout_size = 16, layout_align = 16\<rparr>"
    "valid_request \<lparr>layout_size = 0x1000, layout_align = 16\<rparr>"
    by (simp_all add: valid_request_def layout_wf_def isize_max_def)
  show ?thesis
    using bump_alloc_functional [OF bump_example_inv v(1), of "\<lambda>_. 0"]
      bump_alloc_functional [OF bump_example_inv v(2), of "\<lambda>_. 0"]
    by (simp add: bump_example_def round_up_def)
qed

text \<open>
  Memory is only made available again when the last block is freed: then the
  allocator is back in the state it had after \<open>init\<close>; freeing any other block leaves
  \<open>next\<close> where it is, so no address below it is handed out again.
\<close>

theorem bump_dealloc_reset:
  assumes "bump_inv lo hi s m bs" and "(p, l) \<in># bs"
  shows "\<exists>s'. bump_dealloc s m p l = Ret (s', m) \<and>
    (if size bs = 1 then bump_init bump_new (heap_start s) (heap_end s - heap_start s) = Ret s'
     else bump_next s' = bump_next s \<and> unat (allocations s') = size bs - 1)"
proof -
  have s: "unat (heap_start s) \<le> unat (heap_end s)" "unat (allocations s) = size bs"
    using assms(1) by (auto simp: bump_inv_def)
  then have "unat (heap_end s - heap_start s) = unat (heap_end s) - unat (heap_start s)"
    by (simp add: unat_sub word_le_nat_alt)
  with s have "bump_init bump_new (heap_start s) (heap_end s - heap_start s)
      = Ret \<lparr>heap_start = heap_start s, heap_end = heap_end s, bump_next = heap_start s, allocations = 0\<rparr>"
    by (simp add: bump_init_def bump_new_def add_usize_def)
  moreover obtain cs where cs: "bs = add_mset (p, l) cs"
    using assms(2) by (metis multi_member_split)
  moreover from cs have "1 \<le> allocations s" using s(2) by (simp add: word_le_nat_alt)
  ultimately show ?thesis
    using bump_dealloc_eq [OF assms] s(2) by (auto simp: unat_sub)
qed

theorem bump_dealloc_reset_witness:
  "\<exists>s'. bump_dealloc bump_example (\<lambda>_. 0) 0x1000 \<lparr>layout_size = 8, layout_align = 8\<rparr>
     = Ret (s', \<lambda>_. 0) \<and> bump_init bump_new 0x1000 0x1000 = Ret s'"
  using bump_dealloc_reset [OF bump_example_inv, of "0x1000" "\<lparr>layout_size = 8, layout_align = 8\<rparr>" "\<lambda>_. 0"]
  by (simp add: bump_example_def bump_example_block_def)

end
