(* ===== verification/Heap_Tests.thy ===== *)
theory Heap_Tests
  imports Heap_Values Fixed_Size_Block Bump_Allocator
begin

text \<open>
  The four tests of \<open>tests/heap_allocation.rs\<close> as programs over boxes and vectors, for
  any global allocator: they pass on every allocator that is roomy and reuses memory,
  which the registered block allocator and the linked-list allocator are; on the bump
  allocator the last one runs out of memory.
\<close>

text \<open>\<open>iter().sum::<u64>()\<close>, whose additions panic on overflow.\<close>

fun sum_u64 :: "u64 list \<Rightarrow> u64 \<Rightarrow> u64 outcome" where
  "sum_u64 [] acc = Ret acc"
| "sum_u64 (x # xs) acc = and_then (add_usize acc x) (sum_u64 xs)"

subsection \<open>The heap tests\<close>

definition simple_allocation :: "'s alloc_fn \<Rightarrow> 's dealloc_fn \<Rightarrow> 's \<times> mem \<Rightarrow> ('s \<times> mem) outcome" where
  "simple_allocation alloc dealloc h =
     and_then (box_new alloc (41 :: u32) h) (\<lambda>(heap_value_1, h).
     and_then (box_new alloc (13 :: u32) h) (\<lambda>(heap_value_2, h).
     and_then (assert_that (box_read (snd h) heap_value_1 = (41 :: u32))) (\<lambda>_.
     and_then (assert_that (box_read (snd h) heap_value_2 = (13 :: u32))) (\<lambda>_.
     and_then (box_drop TYPE(32) dealloc heap_value_2 h) (\<lambda>h.
     box_drop TYPE(32) dealloc heap_value_1 h)))))"

definition large_vec :: "'s alloc_fn \<Rightarrow> 's dealloc_fn \<Rightarrow> 's \<times> mem \<Rightarrow> ('s \<times> mem) outcome" where
  "large_vec alloc dealloc h =
     (let n = 1000 :: u64
      in and_then (for_each (map of_nat [0..<unat n]) (\<lambda>i. vec_push alloc dealloc (i :: u64)) (vec_new, h)) (\<lambda>(vec, h).
         and_then (sum_u64 (vec_elems (snd h) vec) 0) (\<lambda>sum.
         and_then (assert_that (sum = (n - 1) * n div 2)) (\<lambda>_.
         vec_drop TYPE(64) dealloc vec h))))"

text \<open>The body of the two loops: \<open>let x = Box::new(i); assert_eq!(*x, i);\<close> and the drop.\<close>

definition box_cycle :: "'s alloc_fn \<Rightarrow> 's dealloc_fn \<Rightarrow> usize \<Rightarrow> 's \<times> mem \<Rightarrow> ('s \<times> mem) outcome" where
  "box_cycle alloc dealloc i h =
     and_then (box_new alloc i h) (\<lambda>(x, h).
     and_then (assert_that (box_read (snd h) x = i)) (\<lambda>_.
     box_drop TYPE(64) dealloc x h))"

definition many_boxes :: "'s alloc_fn \<Rightarrow> 's dealloc_fn \<Rightarrow> 's \<times> mem \<Rightarrow> ('s \<times> mem) outcome" where
  "many_boxes alloc dealloc h = for_each (map of_nat [0..<unat HEAP_SIZE]) (box_cycle alloc dealloc) h"

definition many_boxes_long_lived :: "'s alloc_fn \<Rightarrow> 's dealloc_fn \<Rightarrow> 's \<times> mem \<Rightarrow> ('s \<times> mem) outcome" where
  "many_boxes_long_lived alloc dealloc h =
     and_then (box_new alloc (1 :: u32) h) (\<lambda>(long_lived, h).
     and_then (for_each (map of_nat [0..<unat HEAP_SIZE]) (box_cycle alloc dealloc) h) (\<lambda>h.
     and_then (assert_that (box_read (snd h) long_lived = (1 :: u32))) (\<lambda>_.
     box_drop TYPE(32) dealloc long_lived h)))"

text \<open>The tests in the order in which the test runner calls them, on one heap.\<close>

definition heap_allocation_tests :: "('s alloc_fn \<Rightarrow> 's dealloc_fn \<Rightarrow> 's \<times> mem \<Rightarrow> ('s \<times> mem) outcome) list" where
  "heap_allocation_tests = [simple_allocation, large_vec, many_boxes, many_boxes_long_lived]"

subsection \<open>Allocators that are roomy and reuse memory\<close>

context roomy_alloc
begin

lemma simple_allocation_room:
  assumes R: "room lo hi n s m bs" and hi: "hi \<le> 2 ^ 64" and req: "req (word_layout TYPE(32))"
    and n: "2 * need (word_layout TYPE(32)) \<le> n"
  shows "\<exists>s' m'. simple_allocation alloc dealloc (s, m) = Ret (s', m') \<and>
    room lo hi (n - 2 * need (word_layout TYPE(32))) s' m' bs"
proof -
  let ?l = "word_layout TYPE(32)"
  from box_new_room [OF R hi req, of "41 :: u32"] n obtain p s1 m1 where
    p: "box_new alloc (41 :: u32) (s, m) = Ret (p, s1, m1)" "room lo hi (n - need ?l) s1 m1 (add_mset (p, ?l) bs)"
    "box_read m1 p = (41 :: u32)" by auto
  have "need ?l \<le> n - need ?l" using n by simp
  from box_new_room [OF p(2) hi req _ this, of "13 :: u32"] obtain q s2 m2 where
    q: "box_new alloc (13 :: u32) (s1, m1) = Ret (q, s2, m2)"
    "room lo hi (n - 2 * need ?l) s2 m2 (add_mset (q, ?l) (add_mset (p, ?l) bs))"
    "same_on (extents (add_mset (p, ?l) bs)) m1 m2" "box_read m2 q = (13 :: u32)"
    by (auto simp: mult_2)
  have pq: "box_read m2 p = (41 :: u32)"
    using box_read_same [where 'a = 32, OF room_inv [OF p(2)] hi q(3), of p] p(3) by auto
  from box_drop_room [where 'a = 32, OF q(2), of q] obtain s3 m3 where
    d: "box_drop TYPE(32) dealloc q (s2, m2) = Ret (s3, m3)"
    "room lo hi (n - 2 * need ?l) s3 m3 (add_mset (p, ?l) bs)" by auto
  from box_drop_room [where 'a = 32, OF d(2), of p] p(1) q(1,4) pq d(1) show ?thesis
    by (auto simp: simple_allocation_def)
qed

end

context reusing_alloc
begin

text \<open>The next allocation with the layout succeeds and leaves room for \<open>k\<close> bytes.\<close>

definition next_box :: "nat \<Rightarrow> nat \<Rightarrow> nat \<Rightarrow> layout \<Rightarrow> 's \<Rightarrow> mem \<Rightarrow> block multiset \<Rightarrow> bool" where
  "next_box lo hi k l s m bs \<longleftrightarrow> inv lo hi s m bs \<and>
     (\<exists>p s' m'. alloc s m l = Ret (p, s', m') \<and> p \<noteq> 0 \<and> room lo hi k s' m' (add_mset (p, l) bs))"

lemma next_box_room:
  "room lo hi n s m bs \<Longrightarrow> req l \<Longrightarrow> need l \<le> n \<Longrightarrow> next_box lo hi (n - need l) l s m bs"
  using room_alloc room_inv unfolding next_box_def by blast

lemma box_cycle_room:
  assumes nb: "next_box lo hi k (word_layout TYPE(64)) s m bs" and hi: "hi \<le> 2 ^ 64" and req: "req (word_layout TYPE(64))"
  shows "\<exists>s' m'. box_cycle alloc dealloc v (s, m) = Ret (s', m') \<and> room lo hi k s' m' bs \<and>
    next_box lo hi k (word_layout TYPE(64)) s' m' bs \<and> same_on (extents bs) m m'"
proof -
  let ?l = "word_layout TYPE(64)"
  obtain p s1 m0 where a: "alloc s m ?l = Ret (p, s1, m0)" "p \<noteq> 0" and R0: "room lo hi k s1 m0 (add_mset (p, ?l) bs)"
    and I: "inv lo hi s m bs" using nb by (auto simp: next_box_def)
  from box_new_Ret [OF I hi req _ a, of v] obtain m1 where
    m1: "box_new alloc v (s, m) = Ret (p, s1, m1)" "same_on (extents bs) m m1" "box_read m1 p = v"
    "\<And>x. \<not> held (add_mset (p, ?l) bs) x \<Longrightarrow> m1 x = m0 x" by auto
  have R1: "room lo hi k s1 m1 (add_mset (p, ?l) bs)" using R0 m1(4) by (rule room_store)
  from box_drop_Ret [where 'a = 64, OF room_inv [OF R1], of p] obtain s' m' where
    d: "dealloc s1 m1 p ?l = Ret (s', m')" "inv lo hi s' m' bs" "same_on (extents bs) m1 m'" by (auto simp: box_drop_def)
  have "box_cycle alloc dealloc v (s, m) = Ret (s', m')" using m1(1,3) d(1) by (simp add: box_cycle_def box_drop_def)
  moreover have "room lo hi k s' m' bs" using room_dealloc [OF R1 _ d(1)] by simp
  moreover have "next_box lo hi k ?l s' m' bs" using reuse_law [OF R1 req _ d(1)] d(2) by (simp add: next_box_def)
  ultimately show ?thesis using same_on_trans [OF m1(2) d(3)] by blast
qed

lemma box_cycles_room:
  assumes "next_box lo hi k (word_layout TYPE(64)) s m bs" and "hi \<le> 2 ^ 64" and "req (word_layout TYPE(64))" and "vs \<noteq> []"
  shows "\<exists>s' m'. for_each vs (box_cycle alloc dealloc) (s, m) = Ret (s', m') \<and> room lo hi k s' m' bs \<and>
    same_on (extents bs) m m'"
  using assms(1,4)
proof (induction vs arbitrary: s m)
  case Nil
  then show ?case by simp
next
  case (Cons v vs)
  from box_cycle_room [OF Cons.prems(1) assms(2,3), of v] obtain s1 m1 where
    c: "box_cycle alloc dealloc v (s, m) = Ret (s1, m1)" "room lo hi k s1 m1 bs"
    "next_box lo hi k (word_layout TYPE(64)) s1 m1 bs" "same_on (extents bs) m m1" by blast
  show ?case
  proof (cases "vs = []")
    case False
    from Cons.IH [OF c(3) this] obtain s' m' where
      "for_each vs (box_cycle alloc dealloc) (s1, m1) = Ret (s', m')" "room lo hi k s' m' bs" "same_on (extents bs) m1 m'"
      by blast
    with c(1) same_on_trans [OF c(4)] show ?thesis by auto
  qed (use c in simp)
qed

lemma many_boxes_room:
  assumes R: "room lo hi n s m bs" and "hi \<le> 2 ^ 64" and req: "req (word_layout TYPE(64))"
    and n: "need (word_layout TYPE(64)) \<le> n"
  shows "\<exists>s' m'. many_boxes alloc dealloc (s, m) = Ret (s', m') \<and> room lo hi (n - need (word_layout TYPE(64))) s' m' bs"
  using box_cycles_room [OF next_box_room [OF R req n] assms(2,3), of "map of_nat [0..<unat HEAP_SIZE]"]
  unfolding many_boxes_def by (auto simp: HEAP_SIZE_def)

lemma many_boxes_long_lived_room:
  assumes R: "room lo hi n s m bs" and hi: "hi \<le> 2 ^ 64"
    and req: "req (word_layout TYPE(32))" "req (word_layout TYPE(64))"
    and n: "need (word_layout TYPE(32)) + need (word_layout TYPE(64)) \<le> n"
  shows "\<exists>s' m'. many_boxes_long_lived alloc dealloc (s, m) = Ret (s', m') \<and>
    room lo hi (n - (need (word_layout TYPE(32)) + need (word_layout TYPE(64)))) s' m' bs"
proof -
  let ?l = "word_layout TYPE(32)" and ?k = "word_layout TYPE(64)"
  from box_new_room [OF R hi req(1), of "1 :: u32"] n obtain p s1 m1 where
    p: "box_new alloc (1 :: u32) (s, m) = Ret (p, s1, m1)" "room lo hi (n - need ?l) s1 m1 (add_mset (p, ?l) bs)"
    "box_read m1 p = (1 :: u32)" by auto
  have nb: "next_box lo hi (n - need ?l - need ?k) ?k s1 m1 (add_mset (p, ?l) bs)"
    using n by (intro next_box_room [OF p(2) req(2)]) simp
  from box_cycles_room [OF nb hi req(2), of "map of_nat [0..<unat HEAP_SIZE]"] obtain s2 m2 where
    c: "for_each (map of_nat [0..<unat HEAP_SIZE]) (box_cycle alloc dealloc) (s1, m1) = Ret (s2, m2)"
    "room lo hi (n - (need ?l + need ?k)) s2 m2 (add_mset (p, ?l) bs)" "same_on (extents (add_mset (p, ?l) bs)) m1 m2"
    by (auto simp: HEAP_SIZE_def)
  have "box_read m2 p = (1 :: u32)"
    using box_read_same [where 'a = 32, OF room_inv [OF p(2)] hi c(3), of p] p(3) by auto
  with box_drop_room [where 'a = 32, OF c(2), of p] p(1) c(1) show ?thesis by (auto simp: many_boxes_long_lived_def)
qed

end

lemma sum_u64_exact:
  assumes "unat acc + sum_list (map unat xs) < 2 ^ 64"
  shows "sum_u64 xs acc = Ret (acc + sum_list xs)"
  using assms
proof (induction xs arbitrary: acc)
  case Nil
  then show ?case by simp
next
  case (Cons x xs)
  then have "unat acc + unat x < 2 ^ 64" by simp
  with Cons show ?case by (simp add: add_usize_def unat_add_exact add.assoc)
qed

lemma sum_upt: "sum_list [0..<n] = n * (n - 1) div 2"
proof -
  have "2 * sum_list [0..<n] + n = n * n" by (induction n) simp_all
  then show ?thesis by (simp add: algebra_simps)
qed

lemma sum_list_of_nat: "sum_list (map of_nat xs) = (of_nat (sum_list xs) :: 'a::len word)"
  by (induction xs) simp_all

lemma sum_u64_upt:
  assumes "n < 2 ^ 32"
  shows "sum_u64 (map of_nat [0..<n]) 0 = Ret (of_nat (n * (n - 1) div 2))"
proof -
  have "n * (n - 1) div 2 \<le> n * n" by (simp add: div_le_dividend order_trans [OF div_le_dividend])
  moreover have "n * n < 2 ^ 32 * 2 ^ 32" using assms by (intro mult_strict_mono) simp_all
  ultimately have "sum_list [0..<n] < 2 ^ 64" unfolding sum_upt by simp
  moreover have "map unat (map (of_nat :: nat \<Rightarrow> u64) [0..<n]) = [0..<n]"
    using assms by (intro nth_equalityI) (simp_all add: unat_of_nat)
  ultimately show ?thesis
    using sum_u64_exact [of 0 "map of_nat [0..<n]"] by (simp add: sum_list_of_nat sum_upt del: map_map)
qed

context roomy_alloc
begin

lemma large_vec_room:
  assumes R: "room lo hi n s m bs" and hi: "hi \<le> 2 ^ 64"
    and req: "\<And>i. i < 9 \<Longrightarrow> req (array_block TYPE(64) (grown_cap (Suc i)))" and n: "growth_need need TYPE(64) 9 \<le> n"
  shows "\<exists>s' m'. large_vec alloc dealloc (s, m) = Ret (s', m') \<and> room lo hi (n - growth_need need TYPE(64) 9) s' m' bs"
proof -
  let ?xs = "map of_nat [0..<1000] :: u64 list"
  have arr: "array_ok TYPE(64) k" if "k \<le> 2 ^ 32" for k
    using that power_of_two_exp [of 3] by (simp add: array_ok_def)
  have "vec_ok lo hi (n - growth_need need TYPE(64) 0) s m bs vec_new ([] :: u64 list)"
    using vec_ok_new [OF R arr] by (simp add: growth_need_def)
  from vec_pushes_room [OF this, of 9 ?xs] hi arr req n obtain v s1 m1 where
    v: "for_each ?xs (vec_push alloc dealloc) (vec_new, s, m) = Ret (v, s1, m1)"
    "vec_ok lo hi (n - growth_need need TYPE(64) 9) s1 m1 bs v ?xs" by (auto simp: grown_cap_def vec_new_def)
  have "vec_elems m1 v = ?xs" using v(2) by (intro vec_elems_load) (auto simp: vec_ok_def)
  then have "sum_u64 (vec_elems m1 v) 0 = Ret 499500" using sum_u64_upt [of 1000] by simp
  with vec_drop_room [OF v(2)] v(1) show ?thesis by (auto simp: large_vec_def Let_def)
qed

end

subsection \<open>All tests on one heap\<close>

definition heap_tests_need :: "(layout \<Rightarrow> nat) \<Rightarrow> nat" where
  "heap_tests_need need = 3 * need (word_layout TYPE(32)) + 2 * need (word_layout TYPE(64)) + growth_need need TYPE(64) 9"

definition heap_tests_layouts :: "layout set" where
  "heap_tests_layouts = {word_layout TYPE(32), word_layout TYPE(64)} \<union>
     {array_block TYPE(64) (grown_cap (Suc i)) | i. i < 9}"

lemma grown_cap_bounds: "i < 9 \<Longrightarrow> 0 < grown_cap (Suc i)" "i < 9 \<Longrightarrow> grown_cap (Suc i) \<le> 1024"
  using grown_cap_mono [of "Suc i" 9] by (simp_all add: grown_cap_def)

lemma heap_tests_layouts_valid:
  assumes "l \<in> heap_tests_layouts"
  shows "valid_request l" and "unat (layout_size l) \<le> 8192"
proof -
  have "valid_request (array_block TYPE(64) (grown_cap (Suc i)))"
    "unat (layout_size (array_block TYPE(64) (grown_cap (Suc i)))) \<le> 8192" if "i < 9" for i
    using array_block_valid [where 'a = 64, of "grown_cap (Suc i)"] grown_cap_bounds [OF that]
      array_ok_size(2) [where 'a = 64, of "grown_cap (Suc i)"]
    by (simp_all add: array_ok_numerals)
  with assms word_layout_valid show "valid_request l" "unat (layout_size l) \<le> 8192"
    by (auto simp: heap_tests_layouts_def word_layout_def)
qed

context reusing_alloc
begin

lemma heap_tests_room:
  assumes R: "room lo hi n s m bs" and hi: "hi \<le> 2 ^ 64" and req: "\<forall>l\<in>heap_tests_layouts. req l"
    and n: "heap_tests_need need \<le> n"
  shows "\<exists>s' m'. for_each heap_allocation_tests (\<lambda>t. t alloc dealloc) (s, m) = Ret (s', m') \<and>
    room lo hi (n - heap_tests_need need) s' m' bs"
proof -
  let ?a = "need (word_layout TYPE(32))" and ?b = "need (word_layout TYPE(64))" and ?g = "growth_need need TYPE(64) 9"
  have r: "req (word_layout TYPE(32))" "req (word_layout TYPE(64))"
    and g: "\<And>i. i < 9 \<Longrightarrow> req (array_block TYPE(64) (grown_cap (Suc i)))"
    using req by (auto simp: heap_tests_layouts_def)
  have k: "2 * ?a \<le> n" "?g \<le> n - 2 * ?a" "?b \<le> n - 2 * ?a - ?g" "?a + ?b \<le> n - 2 * ?a - ?g - ?b"
    "n - 2 * ?a - ?g - ?b - (?a + ?b) = n - heap_tests_need need"
    using n by (simp_all add: heap_tests_need_def)
  from simple_allocation_room [OF R hi r(1) k(1)] obtain s1 m1 where
    1: "simple_allocation alloc dealloc (s, m) = Ret (s1, m1)" "room lo hi (n - 2 * ?a) s1 m1 bs" by blast
  from large_vec_room [OF 1(2) hi g k(2)] obtain s2 m2 where
    2: "large_vec alloc dealloc (s1, m1) = Ret (s2, m2)" "room lo hi (n - 2 * ?a - ?g) s2 m2 bs" by blast
  from many_boxes_room [OF 2(2) hi r(2) k(3)] obtain s3 m3 where
    3: "many_boxes alloc dealloc (s2, m2) = Ret (s3, m3)" "room lo hi (n - 2 * ?a - ?g - ?b) s3 m3 bs" by blast
  from many_boxes_long_lived_room [OF 3(2) hi r k(4)] 1 2 3 show ?thesis
    unfolding k(5) by (auto simp: heap_allocation_tests_def)
qed

end

subsection \<open>The bump allocator\<close>

text \<open>
  One turn of the loop while another block is live: the bump allocator moves on by one
  box, or runs out.
\<close>

lemma unat_word_layouts [simp]:
  "unat (layout_size (word_layout TYPE(64))) = 8" "unat (layout_align (word_layout TYPE(64))) = 8"
  "unat (layout_size (word_layout TYPE(32))) = 4" "unat (layout_align (word_layout TYPE(32))) = 4"
  by (simp_all add: word_layout_def)

lemma bump_next_box:
  assumes I: "bump_inv lo hi s m bs"
  shows "if hi < round_up (unat (bump_next s)) 8 + 8
    then box_cycle bump_alloc bump_dealloc v (s, m) = Panic (ExplicitPanic ''allocation error'')
    else \<exists>s' m'. box_cycle bump_alloc bump_dealloc v (s, m) = Ret (s', m') \<and> bump_inv lo hi s' m' bs \<and>
      unat (bump_next s') = (if bs = {#} then lo else round_up (unat (bump_next s)) 8 + 8)"
  using I word_layout_valid(2)
proof (cases rule: bump_alloc_cases)
  case full
  then show ?thesis by (simp add: box_cycle_def box_new_def Let_def alloc_error_handler_def)
next
  case (fits p)
  let ?l = "word_layout TYPE(64)"
  let ?s = "s\<lparr>bump_next := p + layout_size ?l, allocations := allocations s + 1\<rparr>"
  have "0 < unat p" using fits(2) I round_up_ge [of 8 "unat (bump_next s)"] by (simp add: bump_inv_def)
  then have p0: "p \<noteq> 0" by auto
  have hi: "hi \<le> 2 ^ 64" using I by (simp add: bump_inv_def isize_max_def)
  from global_alloc.box_new_Ret [OF bump.global_alloc_axioms I hi word_layout_valid(2) _ fits(1) p0, of v] obtain m1 where
    m1: "box_new bump_alloc v (s, m) = Ret (p, ?s, m1)" "bump_inv lo hi ?s m1 (add_mset (p, ?l) bs)" "box_read m1 p = v"
    by auto
  from bump_dealloc_law [OF m1(2), of p ?l] obtain s' m' where
    d: "bump_dealloc ?s m1 p ?l = Ret (s', m')" "bump_inv lo hi s' m' bs" by auto
  have "s' = (if bs = {#} then ?s\<lparr>allocations := 0, bump_next := heap_start ?s\<rparr> else ?s\<lparr>allocations := allocations ?s - 1\<rparr>)"
    using bump_dealloc_eq [OF m1(2), of "(p, ?l)" p ?l] d(1) by (auto split: if_splits)
  then have "unat (bump_next s') = (if bs = {#} then lo else round_up (unat (bump_next s)) 8 + 8)"
    using fits(2,3) I by (simp add: bump_inv_def)
  moreover have "box_cycle bump_alloc bump_dealloc v (s, m) = Ret (s', m')"
    using m1(1,3) d(1) by (simp add: box_cycle_def box_drop_def)
  ultimately show ?thesis using d(2) fits(2,4) by simp
qed

lemma bump_cycles_return:
  assumes "bump_inv lo hi s m {#}" and "unat (bump_next s) = lo" and "8 dvd lo" and "lo + 8 \<le> hi"
  shows "\<exists>s' m'. for_each vs (box_cycle bump_alloc bump_dealloc) (s, m) = Ret (s', m')"
  using assms(1,2)
proof (induction vs arbitrary: s m)
  case (Cons v vs)
  from bump_next_box [OF Cons.prems(1), of v] Cons.prems(2) assms(3,4) obtain s' m' where
    "box_cycle bump_alloc bump_dealloc v (s, m) = Ret (s', m')" "bump_inv lo hi s' m' {#}" "unat (bump_next s') = lo"
    by (auto simp: round_up_self split: if_splits)
  with Cons.IH show ?case by simp
qed simp

lemma bump_cycles_run_out:
  assumes "bump_inv lo hi s m bs" and "bs \<noteq> {#}" and "vs \<noteq> []"
    and "hi < round_up (unat (bump_next s)) 8 + 8 * length vs"
  shows "for_each vs (box_cycle bump_alloc bump_dealloc) (s, m) = Panic (ExplicitPanic ''allocation error'')"
  using assms(1,3,4)
proof (induction vs arbitrary: s m)
  case (Cons v vs)
  let ?q = "round_up (unat (bump_next s)) 8"
  show ?case
  proof (cases "hi < ?q + 8")
    case True
    with bump_next_box [OF Cons.prems(1), of v] show ?thesis by simp
  next
    case False
    with bump_next_box [OF Cons.prems(1), of v] assms(2) obtain s' m' where
      c: "box_cycle bump_alloc bump_dealloc v (s, m) = Ret (s', m')" "bump_inv lo hi s' m' bs"
      "unat (bump_next s') = ?q + 8" by (auto split: if_splits)
    have "round_up (?q + 8) 8 = ?q + 8" by (intro round_up_self) simp_all
    with Cons.IH [OF c(2)] c(1,3) Cons.prems(3) False show ?thesis by (cases vs) auto
  qed
qed simp

lemma bump_long_lived:
  assumes I: "bump_inv lo hi s m {#}" and s: "unat (bump_next s) = lo" and al: "8 dvd lo" "lo + 4 \<le> hi"
    and sz: "hi < lo + 8 * unat HEAP_SIZE"
  shows "many_boxes_long_lived bump_alloc bump_dealloc (s, m) = Panic (ExplicitPanic ''allocation error'')"
  using I word_layout_valid(1)
proof (cases rule: bump_alloc_cases)
  case full
  moreover have "round_up lo 4 = lo" using al(1) by (intro round_up_self) (auto elim: dvdE)
  ultimately show ?thesis using s al(2) by simp
next
  case (fits p)
  let ?l = "word_layout TYPE(32)"
  let ?s = "s\<lparr>bump_next := p + layout_size ?l, allocations := allocations s + 1\<rparr>"
  have "0 < unat p" using fits(2) I round_up_ge [of 4 "unat (bump_next s)"] by (simp add: bump_inv_def)
  then have p0: "p \<noteq> 0" by auto
  have hi: "hi \<le> 2 ^ 64" using I by (simp add: bump_inv_def isize_max_def)
  from global_alloc.box_new_Ret [OF bump.global_alloc_axioms I hi word_layout_valid(1) _ fits(1) p0, of 1] obtain m1 where
    m1: "box_new bump_alloc (1 :: u32) (s, m) = Ret (p, ?s, m1)" "bump_inv lo hi ?s m1 {#(p, ?l)#}" by auto
  have "lo \<le> round_up (unat (bump_next ?s)) 8"
    using m1(2) round_up_ge [of 8 "unat (bump_next ?s)"] by (simp add: bump_inv_def)
  then have "for_each (map of_nat [0..<unat HEAP_SIZE]) (box_cycle bump_alloc bump_dealloc) (?s, m1) =
      Panic (ExplicitPanic ''allocation error'')"
    using sz by (intro bump_cycles_run_out [OF m1(2)]) (auto simp: HEAP_SIZE_def)
  with m1(1) show ?thesis by (simp add: many_boxes_long_lived_def)
qed

context roomy_fallback
begin

lemma fsb_heap_tests:
  assumes "\<forall>l\<in>heap_tests_layouts. fsb_request req l"
    and "heap_region_ok start sz" and "heap_tests_need (fsb_need need) \<le> unat sz"
  shows "\<exists>h h'. fsb_init ops (fsb_new ops) m start sz = Ret h \<and>
    for_each heap_allocation_tests (\<lambda>test. test (fsb_alloc ops) (fsb_dealloc ops)) h = Ret h'"
proof -
  from fsb_init_room [OF assms(2), of m] obtain s m' where
    i: "fsb_init ops (fsb_new ops) m start sz = Ret (s, m')"
    "fsb_room room (unat start) (unat start + unat sz) (unat sz) s m' {#}" by blast
  have "unat start + unat sz \<le> 2 ^ 64" using assms(2) by (simp add: heap_region_ok_def isize_max_def)
  from fsb.heap_tests_room [OF i(2) this assms(1,3)] i(1) show ?thesis by blast
qed

end

subsection \<open>Properties\<close>

lemma heap_tests_fsb_request: "\<forall>l\<in>heap_tests_layouts. fsb_request ll_request l"
proof
  fix l assume "l \<in> heap_tests_layouts"
  from heap_tests_layouts_valid [OF this] show "fsb_request ll_request l"
    by (simp add: fsb_request_def ll_request_def isize_max_def)
qed

lemma sum_9: "(\<Sum>i<9. f i) = f 0 + f 1 + f 2 + f 3 + f 4 + f 5 + f 6 + f 7 + (f (8 :: nat) :: nat)"
  by (simp add: eval_nat_numeral)

lemma fsb_need_word: 
  "fsb_need ll_need (word_layout TYPE(32)) = 40" "fsb_need ll_need (word_layout TYPE(64)) = 40"
  by (simp_all add: fsb_need_def list_index_def BLOCK_SIZES_def word_layout_def max_def ll_need_def padded_size_def
      padded_align_def LIST_NODE_SIZE_def LIST_NODE_ALIGN_def round_up_def)

lemma fsb_need_array:
  "fsb_need ll_need (array_block TYPE(64) 4) = 80" "fsb_need ll_need (array_block TYPE(64) 8) = 144"
  "fsb_need ll_need (array_block TYPE(64) 16) = 272" "fsb_need ll_need (array_block TYPE(64) 32) = 528"
  "fsb_need ll_need (array_block TYPE(64) 64) = 1040" "fsb_need ll_need (array_block TYPE(64) 128) = 2064"
  "fsb_need ll_need (array_block TYPE(64) 256) = 4112" "fsb_need ll_need (array_block TYPE(64) 512) = 4120"
  "fsb_need ll_need (array_block TYPE(64) 1024) = 8216"
  by (simp_all add: fsb_need_def list_index_def BLOCK_SIZES_def array_block_def max_def ll_need_def padded_size_def
      padded_align_def LIST_NODE_SIZE_def LIST_NODE_ALIGN_def round_up_def)

lemma heap_tests_need_ll: "heap_tests_need (fsb_need ll_need) = 20776"
  by (simp add: heap_tests_need_def growth_need_def sum_9 grown_cap_def fsb_need_word fsb_need_array)

text \<open>
  C29. The drawback of the bump allocator, as the comments of the tests describe it: on a
  heap of less than eight times the number of turns of the loop, \<open>many_boxes\<close> passes,
  because the heap is reset whenever the last block is freed, and
  \<open>many_boxes_long_lived\<close> ends in the allocation error handler.
\<close>

theorem bump_fails_long_lived:
  assumes "heap_region_ok start sz" and "unat sz < 8 * unat HEAP_SIZE"
  shows "\<exists>s h'. bump_init bump_new start sz = Ret s \<and> many_boxes bump_alloc bump_dealloc (s, m) = Ret h' \<and>
    many_boxes_long_lived bump_alloc bump_dealloc (s, m) = Panic (ExplicitPanic ''allocation error'')"
proof -
  from bump_init_inv [OF assms(1), of m] obtain s where
    s: "bump_init bump_new start sz = Ret s" "bump_inv (unat start) (unat start + unat sz) s m {#}" by blast
  then have n: "unat (bump_next s) = unat start" by (auto simp: bump_init_def)
  have r: "8 dvd unat start" "16 \<le> unat sz" using assms(1) by (auto simp: heap_region_ok_def)
  from bump_cycles_return [OF s(2) n r(1), of "map of_nat [0..<unat HEAP_SIZE]"] r(2) obtain h' where
    "many_boxes bump_alloc bump_dealloc (s, m) = Ret h'" by (auto simp: many_boxes_def)
  with bump_long_lived [OF s(2) n r(1)] r(2) assms(2) s(1) show ?thesis by simp
qed

theorem bump_fails_long_lived_witness:
  "\<exists>s h'. bump_init bump_new HEAP_START HEAP_SIZE = Ret s \<and> many_boxes bump_alloc bump_dealloc (s, \<lambda>_. 0) = Ret h' \<and>
    many_boxes_long_lived bump_alloc bump_dealloc (s, \<lambda>_. 0) = Panic (ExplicitPanic ''allocation error'')"
  by (rule bump_fails_long_lived [OF heap_region_ok_HEAP]) (simp add: HEAP_SIZE_def)

text \<open>The linked-list allocator passes all tests, as the comments say.\<close>

lemma ll_heap_tests_pass:
  assumes "heap_region_ok start sz" and "heap_tests_need ll_need \<le> unat sz"
  shows "\<exists>h h'. ll_init ll_new m start sz = Ret h \<and>
    for_each heap_allocation_tests (\<lambda>test. test ll_alloc ll_dealloc) h = Ret h'"
proof -
  from ll_init_room [OF assms(1), of m] obtain s m' where i: "ll_init ll_new m start sz = Ret (s, m')"
    "ll_room (unat start) (unat start + unat sz) (unat sz) s m' {#}" by (auto simp: ll_heap_ops_def)
  have hi: "unat start + unat sz \<le> 2 ^ 64" using assms(1) by (simp add: heap_region_ok_def isize_max_def)
  have "\<forall>l\<in>heap_tests_layouts. ll_request l"
  proof
    fix l assume "l \<in> heap_tests_layouts"
    from heap_tests_layouts_valid [OF this] show "ll_request l" by (simp add: ll_request_def isize_max_def)
  qed
  from linked_list.heap_tests_room [OF i(2) hi this assms(2)] i(1) show ?thesis by blast
qed

end
