(* ===== verification/Integration_Tests.thy ===== *)
theory Integration_Tests
  imports Test_Runner Kernel_Boot Heap_Tests
begin

text \<open>
  The programs under \<open>tests/\<close>: \<open>basic_boot.rs\<close>, \<open>should_panic.rs\<close>,
  \<open>stack_overflow.rs\<close> and \<open>heap_allocation.rs\<close>, each with its entry point, its panic
  handler and its test functions, and the exit status with which they leave the virtual
  machine.
\<close>

definition endless_loop :: "('a, 's) action" where
  "endless_loop s = Looping s"

subsection \<open>\<open>basic_boot.rs\<close>\<close>

definition boot_test_println ::
  "('sp, 'q, 'cell, 'aw, 'tq, 'c, 'gdt, 'sel, 'idt, 'pics) devices \<Rightarrow>
   (unit, ('sp, ('cell, 'aw, 'tq, 'c) kernel, ('gdt, 'sel, 'idt, 'pics) cpu, 'hp) machine) action" where
  "boot_test_println D = println_out D [str_bytes ''test_println output'']"

definition basic_boot_start ::
  "('sp, 'q, 'cell, 'aw, 'tq, 'c, 'gdt, 'sel, 'idt, 'pics) devices \<Rightarrow>
   (unit, ('sp, ('cell, 'aw, 'tq, 'c) kernel, ('gdt, 'sel, 'idt, 'pics) cpu, 'hp) machine) action" where
  "basic_boot_start D s =
     with_panic_handler (test_panic_handler D)
       (run_bind (test_runner D [(str_bytes ''basic_boot::test_println'', boot_test_println D)] s) (\<lambda>_.
        endless_loop))"

subsection \<open>\<open>should_panic.rs\<close>\<close>

definition should_fail ::
  "('sp, 'q, 'cell, 'aw, 'tq, 'c, 'gdt, 'sel, 'idt, 'pics) devices \<Rightarrow>
   (unit, ('sp, ('cell, 'aw, 'tq, 'c) kernel, ('gdt, 'sel, 'idt, 'pics) cpu, 'hp) machine) action" where
  "should_fail D s =
     run_bind (serial_out D [str_bytes ''should_panic::should_fail...'' @ [0x09]] s) (\<lambda>_.
     run_assert ((0 :: int) = 1))"

definition should_panic_handler ::
  "('sp, 'q, 'cell, 'aw, 'tq, 'c, 'gdt, 'sel, 'idt, 'pics) devices \<Rightarrow> panic \<Rightarrow>
   (unit, ('sp, ('cell, 'aw, 'tq, 'c) kernel, ('gdt, 'sel, 'idt, 'pics) cpu, 'hp) machine) action" where
  "should_panic_handler D info s =
     run_bind (serial_line_out D [str_bytes ''[ok]''] s) (\<lambda>_ s.
     run_bind (exit_qemu D Success s) (\<lambda>_.
     endless_loop))"

text \<open>The entry point, for the test function it calls, which is \<open>should_fail\<close>.\<close>

definition should_panic_start ::
  "('sp, 'q, 'cell, 'aw, 'tq, 'c, 'gdt, 'sel, 'idt, 'pics) devices \<Rightarrow>
   (unit, ('sp, ('cell, 'aw, 'tq, 'c) kernel, ('gdt, 'sel, 'idt, 'pics) cpu, 'hp) machine) action \<Rightarrow>
   (unit, ('sp, ('cell, 'aw, 'tq, 'c) kernel, ('gdt, 'sel, 'idt, 'pics) cpu, 'hp) machine) action" where
  "should_panic_start D test s =
     with_panic_handler (should_panic_handler D)
       (run_bind (test s) (\<lambda>_ s.
        run_bind (serial_line_out D [str_bytes ''[test did not panic]''] s) (\<lambda>_ s.
        run_bind (exit_qemu D Failed s) (\<lambda>_.
        endless_loop))))"

subsection \<open>\<open>stack_overflow.rs\<close>\<close>

datatype test_handler = test_double_fault_handler

definition TEST_IDT :: "(test_handler, 'idt) idt_ops \<Rightarrow> 'idt" where
  "TEST_IDT ops =
     (let idt = idt_new ops
      in idt_set_double_fault ops test_double_fault_handler DOUBLE_FAULT_IST_INDEX idt)"

definition init_test_idt :: "(test_handler, 'idt) idt_ops \<Rightarrow> ('gdt, 'sel, 'idt, 'pics) cpu \<Rightarrow> ('gdt, 'sel, 'idt, 'pics) cpu" where
  "init_test_idt ops c = c\<lparr>loaded_idt := Some (TEST_IDT ops)\<rparr>"

fun run_test_handler ::
  "('sp, 'q, 'cell, 'aw, 'tq, 'c, 'gdt, 'sel, 'idt, 'pics) devices \<Rightarrow> test_handler \<Rightarrow>
   (unit, ('sp, ('cell, 'aw, 'tq, 'c) kernel, ('gdt, 'sel, 'idt, 'pics) cpu, 'hp) machine) action" where
  "run_test_handler D test_double_fault_handler s =
     run_bind (serial_line_out D [str_bytes ''[ok]''] s) (\<lambda>_ s.
     run_bind (exit_qemu D Success s) (\<lambda>_.
     endless_loop))"

text \<open>
  Calling \<open>stack_overflow\<close>: the recursion, the fault at its end and the handler that
  the processor finds in the table that is loaded, read by \<open>gate\<close>.
\<close>

definition call_stack_overflow ::
  "('sp, 'q, 'cell, 'aw, 'tq, 'c, 'gdt, 'sel, 'idt, 'pics) devices \<Rightarrow> ('idt \<Rightarrow> nat \<Rightarrow> (test_handler \<times> u16 option) option) \<Rightarrow>
   (unit, ('sp, ('cell, 'aw, 'tq, 'c) kernel, ('gdt, 'sel, 'idt, 'pics) cpu, 'hp) machine) action" where
  "call_stack_overflow D gate s =
     (case (stack_overflow (stack_usable D) (stack_pointer D), loaded_idt (processor s)) of
        (None, _) \<Rightarrow> Looping s
      | (Some sp, None) \<Rightarrow> Reset s
      | (Some sp, Some idt) \<Rightarrow>
          (case raise_exception (gate idt) (interrupt_stacks (ist_stack D) (processor s)) (stack_usable D) sp 14 of
             None \<Rightarrow> Reset s
           | Some (h, _) \<Rightarrow> without_interrupts (run_test_handler D h) s))"

definition stack_overflow_start ::
  "('sp, 'q, 'cell, 'aw, 'tq, 'c, 'gdt, 'sel, 'idt, 'pics) devices \<Rightarrow> ('gdt, 'd, 'sel, 'tss) gdt_ops \<Rightarrow> ('tss, 'v) tss_ops \<Rightarrow>
   ('v \<Rightarrow> u64 \<Rightarrow> 'v outcome) \<Rightarrow> 'v \<Rightarrow> (test_handler, 'idt) idt_ops \<Rightarrow> ('idt \<Rightarrow> nat \<Rightarrow> (test_handler \<times> u16 option) option) \<Rightarrow>
   (unit, ('sp, ('cell, 'aw, 'tq, 'c) kernel, ('gdt, 'sel, 'idt, 'pics) cpu, 'hp) machine) action" where
  "stack_overflow_start D gops tops vadd stack iops gate s =
     with_panic_handler (test_panic_handler D)
       (run_bind (serial_out D [str_bytes ''stack_overflow::stack_overflow...'' @ [0x09]] s) (\<lambda>_ s.
        run_bind (run_lift (\<lambda>s.
          and_then (gdt_init gops tops vadd stack (processor s)) (\<lambda>c. Ret ((), s\<lparr>processor := c\<rparr>))) s) (\<lambda>_ s.
        run_bind (Returned () (s\<lparr>processor := init_test_idt iops (processor s)\<rparr>)) (\<lambda>_ s.
        run_bind (call_stack_overflow D gate s) (\<lambda>_.
        Panicked (ExplicitPanic ''Execution continued after stack overflow''))))))"

subsection \<open>\<open>heap_allocation.rs\<close>\<close>

text \<open>Interrupt handlers do not touch the heap; one point for them before each test is enough.\<close>

definition on_heap ::
  "('sp, 'q, 'cell, 'aw, 'tq, 'c, 'gdt, 'sel, 'idt, 'pics) devices \<Rightarrow> ('hp \<Rightarrow> 'hp outcome) \<Rightarrow>
   (unit, ('sp, ('cell, 'aw, 'tq, 'c) kernel, ('gdt, 'sel, 'idt, 'pics) cpu, 'hp) machine) action" where
  "on_heap D f s =
     run_bind (irq_point D s) (\<lambda>_.
     run_lift (\<lambda>s. and_then (f (heap s)) (\<lambda>h. Ret ((), s\<lparr>heap := h\<rparr>))))"

definition heap_test_names :: "u8 list list" where
  "heap_test_names = map str_bytes [''heap_allocation::simple_allocation'', ''heap_allocation::large_vec'',
     ''heap_allocation::many_boxes'', ''heap_allocation::many_boxes_long_lived'']"

definition heap_allocation_main ::
  "('sp, 'q, 'cell, 'aw, 'tq, 'c, 'gdt, 'sel, 'idt, 'pics) devices \<Rightarrow> ('gdt, 'd, 'sel, 'tss, 'w, 'idt, 'pics) init_ops \<Rightarrow>
   ('a, 'f, 'v, 'p, 'ptr, 'pt, 'm, 'r, 'e, 'h) boot_ops \<Rightarrow> 'm boot_info \<Rightarrow>
   (unit, ('sp, ('cell, 'aw, 'tq, 'c) kernel, ('gdt, 'sel, 'idt, 'pics) cpu, 'h fixed_size_block_allocator \<times> mem) machine) action" where
  "heap_allocation_main D N B boot_info s =
     with_panic_handler (test_panic_handler D)
       (run_bind (lib_init D N s) (\<lambda>_ s.
        run_bind (on_heap D (setup_heap B boot_info) s) (\<lambda>_ s.
        run_bind (test_runner D (zip heap_test_names
          (map (\<lambda>test. on_heap D (test (fsb_alloc (boot_heap B)) (fsb_dealloc (boot_heap B)))) heap_allocation_tests)) s) (\<lambda>_.
        endless_loop))))"

subsection \<open>Their verdicts\<close>

context platform
begin

lemma ok_exit:
  assumes "machine_ready D b J s"
  shows "\<exists>s'. run_bind (serial_line_out D [str_bytes ''[ok]''] s) (\<lambda>_ s. run_bind (exit_qemu D Success s) (\<lambda>_. endless_loop)) =
      (Exited 33 s' :: (unit, _) run) \<and> line_log sent (serial1 s') = line_log sent (serial1 s) @ str_bytes ''[ok]'' @ [0x0A]"
proof -
  have "plain (concat [str_bytes ''[ok]''])" by (simp add: plain_text)
  from completesD [OF serial_line_out_completes [OF this] assms] show ?thesis
    by (auto simp: exit_qemu_exits sends_def)
qed

lemma not_panicked_exit:
  assumes "machine_ready D b J s"
  shows "\<exists>s'. run_bind (serial_line_out D [str_bytes ''[test did not panic]''] s) (\<lambda>_ s.
      run_bind (exit_qemu D Failed s) (\<lambda>_. endless_loop)) = (Exited 35 s' :: (unit, _) run) \<and>
    line_log sent (serial1 s') = line_log sent (serial1 s) @ str_bytes ''[test did not panic]'' @ [0x0A]"
proof -
  have "plain (concat [str_bytes ''[test did not panic]''])" by (simp add: plain_text)
  from completesD [OF serial_line_out_completes [OF this] assms] show ?thesis
    by (auto simp: exit_qemu_exits sends_def)
qed

lemma should_fail_behaves:
  "behaves D sent b J J' (should_fail D) (str_bytes ''should_panic::should_fail...'' @ [0x09], Some AssertionFailed)"
proof -
  have pl: "plain (concat [str_bytes ''should_panic::should_fail...'' @ [0x09]])" by (simp add: plain_text)
  have "\<exists>s'. should_fail D s = Panicked AssertionFailed s' \<and> machine_ready D b (\<lambda>_. True) s' \<and>
      line_log sent (serial1 s') = line_log sent (serial1 s) @ str_bytes ''should_panic::should_fail...'' @ [0x09]"
    if "machine_ready D b J s" for s
    using completesD [OF serial_out_completes [OF pl] that]
    by (auto simp: should_fail_def run_assert_def sends_def machine_ready_def)
  then show ?thesis by (simp add: behaves_def)
qed

lemma should_panic_law:
  assumes "behaves D sent b J J' test (out, r)" and "machine_ready D b J s"
  shows "\<exists>s'. should_panic_start D test s = Exited (if r = None then 35 else 33) s' \<and>
    line_log sent (serial1 s') = line_log sent (serial1 s) @ out @
      str_bytes (if r = None then ''[test did not panic]'' else ''[ok]'') @ [0x0A]"
proof (cases r)
  case None
  with assms obtain s1 where s1: "test s = Returned () s1" "machine_ready D b J' s1" "sends sent out s s1"
    by (auto simp: behaves_def completes_def)
  with not_panicked_exit [OF s1(2)] None show ?thesis by (auto simp: should_panic_start_def sends_def)
next
  case (Some p)
  with assms obtain s1 where s1: "test s = Panicked p s1" "machine_ready D b (\<lambda>_. True) s1"
    "line_log sent (serial1 s1) = line_log sent (serial1 s) @ out" by (auto simp: behaves_def)
  with ok_exit [OF s1(2)] Some show ?thesis by (auto simp: should_panic_start_def should_panic_handler_def)
qed

lemma on_heap_completes:
  assumes "\<And>h. J h \<Longrightarrow> \<exists>h'. f h = Ret h' \<and> J' h'"
  shows "completes D sent b J J' (on_heap D f) []"
proof -
  have "completes D sent b J J' (run_lift (\<lambda>s. and_then (f (heap s)) (\<lambda>h. Ret ((), s\<lparr>heap := h\<rparr>)))) []"
  proof (rule completesI, goal_cases)
    case (1 s)
    with assms obtain h' where "f (heap s) = Ret h'" "J' h'" by (auto simp: machine_ready_def)
    with 1 show ?case by (auto simp: run_lift_def machine_ready_def sends_def)
  qed
  from completes_bind [OF irq_point_completes this] show ?thesis by (simp add: on_heap_def [abs_def])
qed

text \<open>
  The recursion ends in a fault, and the table of the test sends it to the handler on
  the separate stack.
\<close>

lemma call_stack_overflow_law:
  assumes it: "idt_table iops gate" and idt: "loaded_idt (processor s) = Some (TEST_IDT iops)"
    and stacks: "interrupt_stacks (ist_stack D) (processor s) (unat DOUBLE_FAULT_IST_INDEX) = stack_end"
    and stack: "stack_usable D stack_end" "\<not> stack_usable D (stack_pointer D - 8 * of_nat n)"
  shows "call_stack_overflow D gate s = without_interrupts (run_test_handler D test_double_fault_handler) s"
proof -
  obtain sp where sp: "stack_overflow (stack_usable D) (stack_pointer D) = Some sp" "\<not> stack_usable D sp"
    using stack_overflow_faults [of "stack_usable D" "stack_pointer D" n] stack(2) by blast
  have g: "gate (TEST_IDT iops) = [8 \<mapsto> (test_double_fault_handler, Some DOUBLE_FAULT_IST_INDEX)]"
    by (simp add: TEST_IDT_def idt_table.idt_new_law [OF it] idt_table.idt_double_fault_law [OF it])
  have "raise_exception (gate (TEST_IDT iops)) (interrupt_stacks (ist_stack D) (processor s)) (stack_usable D) sp 14 =
      Some (test_double_fault_handler, interrupt_stacks (ist_stack D) (processor s) (unat DOUBLE_FAULT_IST_INDEX))"
    using sp(2) stack(1) stacks g by (intro page_fault_to_double_fault) auto
  with sp(1) idt show ?thesis by (simp add: call_stack_overflow_def)
qed

lemma stack_overflow_law:
  assumes it: "idt_table iops gate" and tt: "tss_table tops stack_table" and gt: "gdt_table gops descriptor entries"
    and add: "vadd stack STACK_SIZE = Ret stack_end"
    and ist: "\<And>gdt sel tss. descriptor gdt sel = Some (tss_segment gops tss) \<Longrightarrow> ist_stack D gdt sel = stack_table tss"
    and stack: "stack_usable D stack_end" "\<not> stack_usable D (stack_pointer D - 8 * of_nat n)"
    and ready: "machine_ready D False J s" "\<not> interrupt_flag (processor s)"
  shows "\<exists>s'. stack_overflow_start D gops tops vadd stack iops gate s = Exited 33 s' \<and>
    line_log sent (serial1 s') = line_log sent (serial1 s) @ str_bytes ''stack_overflow::stack_overflow...'' @ [0x09] @ str_bytes ''[ok]'' @ [0x0A]"
proof -
  have pl: "plain (concat [str_bytes ''stack_overflow::stack_overflow...'' @ [0x09]])" by (simp add: plain_text)
  from completesD [OF serial_out_completes [OF pl] ready(1)] obtain s1 where
    s1: "serial_out D [str_bytes ''stack_overflow::stack_overflow...'' @ [0x09]] s = Returned () s1" "machine_ready D False J s1"
    "sends sent (str_bytes ''stack_overflow::stack_overflow...'' @ [0x09]) s s1" by auto
  from gdt_init_law [OF tt gt, of vadd stack stack_end "processor s1"] add obtain gdt tss cs ts where
    g: "gdt_init gops tops vadd stack (processor s1) =
      Ret ((processor s1)\<lparr>loaded_gdt := Some gdt, code_segment := Some cs, task_register := Some ts\<rparr>)"
    "descriptor gdt ts = Some (tss_segment gops tss)" "stack_table tss (unat DOUBLE_FAULT_IST_INDEX) = stack_end" by blast
  let ?c = "init_test_idt iops ((processor s1)\<lparr>loaded_gdt := Some gdt, code_segment := Some cs, task_register := Some ts\<rparr>)"
  let ?s2 = "s1\<lparr>processor := ?c\<rparr>"
  have "interrupt_stacks (ist_stack D) (processor ?s2) (unat DOUBLE_FAULT_IST_INDEX) = stack_end"
    using g(2,3) ist by (simp add: interrupt_stacks_def init_test_idt_def)
  then have call: "call_stack_overflow D gate ?s2 = without_interrupts (run_test_handler D test_double_fault_handler) ?s2"
    using stack by (intro call_stack_overflow_law [OF it]) (simp_all add: init_test_idt_def)
  have "\<not> interrupt_flag (processor s1)" using ready(2) s1(3) by (simp add: sends_def)
  then have "machine_ready D False J (set_interrupts False ?s2)"
    using s1(2) by (simp add: machine_ready_def set_interrupts_def init_test_idt_def)
  from ok_exit [OF this] obtain s3 where
    "run_test_handler D test_double_fault_handler (set_interrupts False ?s2) = Exited 33 s3"
    "line_log sent (serial1 s3) = line_log sent (serial1 ?s2) @ str_bytes ''[ok]'' @ [0x0A]"
    by (auto simp: set_interrupts_def)
  with s1(1,3) g(1) call show ?thesis
    by (simp add: stack_overflow_start_def run_lift_def without_interrupts_def sends_def)
qed

end

text \<open>Each prefix of a list of tests returns if all of them do.\<close>

lemma for_each_step:
  assumes "for_each xs f h0 = Ret h'" and "i < length xs" and "for_each (take i xs) f h0 = Ret h"
  shows "\<exists>h1. f (xs ! i) h = Ret h1 \<and> for_each (take (Suc i) xs) f h0 = Ret h1"
proof -
  have "for_each xs f h0 = and_then (for_each (take i xs) f h0) (for_each (drop i xs) f)"
    by (metis append_take_drop_id for_each_append)
  with assms obtain h1 where "f (xs ! i) h = Ret h1" by (auto simp: Cons_nth_drop_Suc [symmetric])
  with assms(2,3) show ?thesis by (simp add: take_Suc_conv_app_nth for_each_append)
qed

context platform
begin

lemma heap_tests_verdict:
  assumes run: "for_each heap_allocation_tests (\<lambda>test. test al de) h0 = Ret h'"
    and ready: "machine_ready D b (\<lambda>h. h = h0) s"
  shows "\<exists>s'. with_panic_handler (test_panic_handler D) (run_bind (test_runner D
      (zip heap_test_names (map (\<lambda>test. on_heap D (test al de)) heap_allocation_tests)) s) k) = Exited 33 s' \<and>
    line_log sent (serial1 s') = line_log sent (serial1 s) @
      test_transcript (info_text D) (map (\<lambda>name. (name, [], None)) heap_test_names)"
proof -
  let ?f = "\<lambda>test. test al de" and ?J = "\<lambda>i h. for_each (take i heap_allocation_tests) (\<lambda>test. test al de) h0 = Ret h"
  let ?ts = "zip heap_test_names (map (\<lambda>test. on_heap D (test al de)) heap_allocation_tests)"
  have len: "length heap_test_names = length heap_allocation_tests" by (simp add: heap_test_names_def heap_allocation_tests_def)
  have names: "plain n" if "n \<in> set heap_test_names" for n using that by (auto simp: heap_test_names_def plain_text)
  have "plain (fst (?ts ! i)) \<and> behaves D sent b (?J i) (?J (Suc i)) (snd (?ts ! i)) ([], None)" if "i < length ?ts" for i
  proof -
    have "completes D sent b (?J i) (?J (Suc i)) (on_heap D ((heap_allocation_tests ! i) al de)) []"
      using that by (intro on_heap_completes for_each_step [OF run]) simp
    with that names len show ?thesis by (simp add: behaves_def)
  qed
  moreover have "machine_ready D b (?J 0) s" using ready by (simp add: machine_ready_def)
  ultimately have "\<exists>s'. with_panic_handler (test_panic_handler D) (run_bind (test_runner D ?ts s) k) =
      Exited (test_status (map (\<lambda>t. (fst t, [], None)) ?ts)) s' \<and>
    line_log sent (serial1 s') = line_log sent (serial1 s) @ test_transcript (info_text D) (map (\<lambda>t. (fst t, [], None)) ?ts)"
    by (intro test_runner_verdict_law [where J = ?J]) simp_all
  moreover have "map (\<lambda>t. (fst t, [], None)) ?ts = map (\<lambda>name. (name, [] :: u8 list, None :: panic option)) heap_test_names"
    by (simp add: heap_test_names_def heap_allocation_tests_def)
  ultimately show ?thesis by (simp add: test_status_def)
qed

end

subsection \<open>Properties\<close>

text \<open>
  Printing works right after booting, before any initialisation: \<open>basic_boot\<close> passes.
\<close>

lemma basic_boot_passes:
  assumes "platform D sent" and "machine_ready D False J s"
  shows "\<exists>s'. basic_boot_start D s = Exited 33 s' \<and> line_log sent (serial1 s') = line_log sent (serial1 s) @
    test_transcript (info_text D) [(str_bytes ''basic_boot::test_println'', [], None)]"
proof -
  let ?ts = "[(str_bytes ''basic_boot::test_println'', boot_test_println D)]"
  have "\<forall>i<length ?ts. plain (fst (?ts ! i)) \<and> behaves D sent False J J (snd (?ts ! i)) ([], None)"
    using platform.println_out_completes [OF assms(1)] by (simp add: boot_test_println_def behaves_def plain_text)
  from platform.test_runner_verdict_law [where J = "\<lambda>_. J", OF assms(1) this assms(2), of "\<lambda>_. endless_loop"] show ?thesis
    by (simp add: basic_boot_start_def test_status_def)
qed

text \<open>
  C28. The test program for expected panics inverts the verdict: it ends with the success
  status exactly if the test function panics, with \<open>[ok]\<close> on the serial line, and with
  the failure status and a message if the function returns.
\<close>

theorem should_panic_verdict:
  assumes "platform D sent" and "behaves D sent b J J' test (out, r)" and "machine_ready D b J s"
  shows "\<exists>s'. should_panic_start D test s = Exited (if r = None then 35 else 33) s' \<and>
    line_log sent (serial1 s') = line_log sent (serial1 s) @ out @
      str_bytes (if r = None then ''[test did not panic]'' else ''[ok]'') @ [0x0A]"
  using assms by (rule platform.should_panic_law)

theorem should_panic_verdict_witness:
  "\<exists>s'. should_panic_start list_devices (should_fail list_devices) (example_machine [] ()) = Exited 33 s' \<and>
    line_log id (serial1 s') = str_bytes ''should_panic::should_fail...'' @ [0x09] @ str_bytes ''[ok]'' @ [0x0A]"
proof -
  have r: "machine_ready list_devices False (\<lambda>_. True) (example_machine [] ())" by (rule example_machine_ready) (rule TrueI)
  from should_panic_verdict [OF list_platform.platform_axioms list_platform.should_fail_behaves r] show ?thesis by simp
qed

text \<open>
  C27. The stack overflow test passes: with only the double fault gate of the test's own
  table and the stack that \<open>gdt::init\<close> sets up, the endless recursion ends in the
  test's double fault handler, which reports success. The page fault at the end of the
  stack has no gate, and the handler does not run on the overflowed stack.
\<close>

theorem stack_overflow_test_passes:
  assumes "platform D sent" and "idt_table iops gate" and "tss_table tops stack_table" and "gdt_table gops descriptor entries"
    and "vadd stack STACK_SIZE = Ret stack_end"
    and "\<And>gdt sel tss. descriptor gdt sel = Some (tss_segment gops tss) \<Longrightarrow> ist_stack D gdt sel = stack_table tss"
    and "stack_usable D stack_end" and "\<not> stack_usable D (stack_pointer D - 8 * of_nat n)"
    and "machine_ready D False J s" and "\<not> interrupt_flag (processor s)"
  shows "\<exists>s'. stack_overflow_start D gops tops vadd stack iops gate s = Exited 33 s' \<and>
    line_log sent (serial1 s') = line_log sent (serial1 s) @
      str_bytes ''stack_overflow::stack_overflow...'' @ [0x09] @ str_bytes ''[ok]'' @ [0x0A]"
  using assms by (rule platform.stack_overflow_law)

theorem stack_overflow_test_passes_witness:
  "\<exists>s'. stack_overflow_start (devices_with (\<lambda>_. Map.empty)) list_gdt fun_tss word_add 0x1000 map_idt id (example_machine [] ()) =
      Exited 33 s'"
proof -
  let ?D = "devices_with (\<lambda>_ :: nat \<Rightarrow> (test_handler \<times> u16 option) option. Map.empty)" and ?s = "example_machine [] ()"
  have r: "machine_ready ?D False (\<lambda>_. True) ?s" by (rule example_machine_ready) (rule TrueI)
  have ist: "ist_stack ?D gdt sel = id tss"
    if "(if sel < length gdt then Some (gdt ! sel) else None) = Some (tss_segment list_gdt tss)" for gdt sel and tss :: "nat \<Rightarrow> u64"
    using that by (simp add: list_gdt_def devices_with_def split: if_splits)
  have add: "word_add 0x1000 STACK_SIZE = Ret (0x6000 :: u64)" by (simp add: STACK_SIZE_def)
  have u: "stack_usable ?D 0x6000" "\<not> stack_usable ?D (stack_pointer ?D - 8 * of_nat 0x1001)" "\<not> interrupt_flag (processor ?s)"
    by (simp_all add: devices_with_def example_machine_def)
  from stack_overflow_test_passes [where vadd = word_add, OF list_platform.platform_axioms map_idt.idt_table_axioms
      fun_tss.tss_table_axioms list_gdt.gdt_table_axioms add ist u(1,2) r u(3)]
  show ?thesis by blast
qed

text \<open>
  C8. The heap test program passes from the boot on: \<open>init\<close>, the page tables, the
  frame allocator and \<open>init_heap\<close> on the bootloader's memory map succeed, the four heap
  tests run on the block allocator over any fallback heap that is roomy and reuses
  memory, and the virtual machine ends with the success status and all four tests
  reported, for every schedule of interrupts.
\<close>

theorem heap_allocation_passes:
  assumes pl: "platform D sent" and it: "init_tables N (idt_gate D) stack_table descriptor entries stack_end"
    and be: "boot_env B addr page_no mapping" and rf: "roomy_fallback req (boot_heap B) hinv need room"
    and req: "\<forall>l\<in>heap_tests_layouts. fsb_request req l" and need: "heap_tests_need (fsb_need need) \<le> unat HEAP_SIZE"
    and boot: "bootable B addr page_no mapping boot_info"
    and ready: "machine_ready D False (\<lambda>h. fst h = fsb_new (boot_heap B)) s"
  shows "\<exists>s'. heap_allocation_main D N B boot_info s = Exited 33 s' \<and>
    line_log sent (serial1 s') = line_log sent (serial1 s) @
      test_transcript (info_text D) (map (\<lambda>name. (name, [], None)) heap_test_names)"
proof -
  let ?a = "fsb_alloc (boot_heap B)" and ?d = "fsb_dealloc (boot_heap B)"
  from platform.lib_init_ready [OF pl it ready] obtain s1 where
    s1: "lib_init D N s = Returned () s1" "machine_ready D True (\<lambda>h. fst h = fsb_new (boot_heap B)) s1"
    "line_log sent (serial1 s1) = line_log sent (serial1 s)" by (auto simp: undisturbed_def)
  let ?J = "\<lambda>h. \<exists>m. fsb_init (boot_heap B) (fsb_new (boot_heap B)) m HEAP_START HEAP_SIZE = Ret h"
  have "completes D sent True (\<lambda>h. fst h = fsb_new (boot_heap B)) ?J (on_heap D (setup_heap B boot_info)) []"
    using boot_env.setup_heap_law [OF be roomy_fallback.axioms(1) [OF rf] boot]
    by (intro platform.on_heap_completes [OF pl]) (metis prod.collapse)
  from completesD [OF this s1(2)] obtain s2 where
    s2: "on_heap D (setup_heap B boot_info) s1 = Returned () s2" "machine_ready D True ?J s2" "sends sent [] s1 s2" by blast
  from s2(2) obtain m where m: "fsb_init (boot_heap B) (fsb_new (boot_heap B)) m HEAP_START HEAP_SIZE = Ret (heap s2)"
    by (auto simp: machine_ready_def)
  from roomy_fallback.fsb_heap_tests [OF rf req heap_region_ok_HEAP need, of m] m obtain h' where
    "for_each heap_allocation_tests (\<lambda>test. test ?a ?d) (heap s2) = Ret h'" by auto
  moreover have "machine_ready D True (\<lambda>h. h = heap s2) s2" using s2(2) by (simp add: machine_ready_def)
  ultimately show ?thesis
    using platform.heap_tests_verdict [OF pl, of ?a ?d "heap s2" h' True s2 "\<lambda>_. endless_loop"] s1(1,3) s2(1,3)
    by (auto simp: heap_allocation_main_def sends_def)
qed

theorem heap_allocation_passes_witness:
  "\<exists>s'. heap_allocation_main list_devices example_init example_boot
      \<lparr>boot_memory_map = large_map, physical_memory_offset = 0x10000000\<rparr>
      (example_machine [[TimerTick], [KeyPressed 30]] (fsb_new ll_heap_ops, \<lambda>_. 0)) = Exited 33 s'"
proof -
  have b: "boot_heap example_boot = ll_heap_ops" by (simp add: example_boot_def)
  have r: "machine_ready list_devices False (\<lambda>h. fst h = fsb_new (boot_heap example_boot))
      (example_machine [[TimerTick], [KeyPressed 30]] (fsb_new ll_heap_ops, \<lambda>_. 0))"
    by (rule example_machine_ready) (simp add: b)
  have "heap_tests_need (fsb_need ll_need) \<le> unat HEAP_SIZE" by (simp add: heap_tests_need_ll HEAP_SIZE_def)
  from heap_allocation_passes [OF list_platform.platform_axioms example_tables example_boot.boot_env_axioms
      ll_fallback.roomy_fallback_axioms [folded b] heap_tests_fsb_request this example_bootable r]
  show ?thesis by (elim exE conjE) (rule exI)
qed

end
