(* ===== verification/Heap_Rc.thy ===== *)
theory Heap_Rc
  imports Heap_Values
begin

text \<open>
  The reference-counted vector of \<open>kernel_main\<close>: \<open>vec![...]\<close>, \<open>Rc::new\<close>,
  \<open>clone\<close>, \<open>strong_count\<close> and \<open>drop\<close> on top of any global allocator. A predicate
  \<open>heap_has\<close> collects what is known of the bytes of all live values; each operation
  is shown to keep it, so that values do not disturb each other.
\<close>

subsection \<open>Vectors of given elements, and reference counts\<close>

text \<open>\<open>vec![x, ...]\<close> with at least one element allocates exactly its elements.\<close>

definition vec_of :: "'s alloc_fn \<Rightarrow> 'a::len word list \<Rightarrow> 's \<times> mem \<Rightarrow> (vec \<times> 's \<times> mem) outcome" where
  "vec_of alloc xs h =
     and_then (expect ''capacity overflow'' (array_layout TYPE('a) (length xs))) (\<lambda>l.
     and_then (alloc (fst h) (snd h) l) (\<lambda>(p, s, m).
     if p = 0 then alloc_error_handler l
     else Ret (\<lparr>vec_ptr = p, vec_cap = length xs, vec_len = length xs\<rparr>, s, store_bytes m p (concat (map le_bytes xs)))))"

text \<open>\<open>RcBox<Vec<T>>\<close>: the strong and the weak count, and the vector's three words.\<close>

definition rc_layout :: layout where
  "rc_layout = \<lparr>layout_size = 40, layout_align = 8\<rparr>"

definition rc_bytes :: "u64 \<Rightarrow> u64 \<Rightarrow> vec \<Rightarrow> u8 list" where
  "rc_bytes strong weak v = le_bytes strong @ le_bytes weak @
     le_bytes (vec_ptr v) @ le_bytes (of_nat (vec_cap v) :: u64) @ le_bytes (of_nat (vec_len v) :: u64)"

definition rc_new :: "'s alloc_fn \<Rightarrow> vec \<Rightarrow> 's \<times> mem \<Rightarrow> (usize \<times> 's \<times> mem) outcome" where
  "rc_new alloc v h =
     and_then (alloc (fst h) (snd h) rc_layout) (\<lambda>(p, s, m).
     if p = 0 then alloc_error_handler rc_layout else Ret (p, s, store_bytes m p (rc_bytes 1 1 v)))"

definition rc_strong :: "mem \<Rightarrow> usize \<Rightarrow> u64" where
  "rc_strong m p = box_read m p"

definition rc_weak :: "mem \<Rightarrow> usize \<Rightarrow> u64" where
  "rc_weak m p = box_read m (p + 8)"

definition rc_value :: "mem \<Rightarrow> usize \<Rightarrow> vec" where
  "rc_value m p = \<lparr>vec_ptr = box_read m (p + 16), vec_cap = unat (box_read m (p + 24) :: u64),
     vec_len = unat (box_read m (p + 32) :: u64)\<rparr>"

text \<open>A count that would wrap to 0 aborts.\<close>

definition rc_clone :: "usize \<Rightarrow> 's \<times> mem \<Rightarrow> (usize \<times> 's \<times> mem) outcome" where
  "rc_clone p h =
     (let strong = rc_strong (snd h) p + 1
      in if strong = 0 then Panic (ExplicitPanic ''abort'')
         else Ret (p, fst h, store_bytes (snd h) p (le_bytes strong)))"

definition rc_drop :: "'a::len itself \<Rightarrow> 's dealloc_fn \<Rightarrow> usize \<Rightarrow> 's \<times> mem \<Rightarrow> ('s \<times> mem) outcome" where
  "rc_drop T dealloc p h =
     (let strong = rc_strong (snd h) p - 1;
          h = (fst h, store_bytes (snd h) p (le_bytes strong))
      in if strong \<noteq> 0 then Ret h
         else and_then (vec_drop T dealloc (rc_value (snd h) p) h) (\<lambda>h.
              let weak = rc_weak (snd h) p - 1;
                  h = (fst h, store_bytes (snd h) (p + 8) (le_bytes weak))
              in if weak \<noteq> 0 then Ret h else dealloc (fst h) (snd h) p rc_layout))"

subsection \<open>Values side by side\<close>

lemma load_store_prefix:
  assumes "unat p + length xs + k \<le> 2 ^ 64"
  shows "load_bytes (store_bytes m p xs) p (length xs + k) = xs @ load_bytes m (p + of_nat (length xs)) k"
proof (rule nth_equalityI)
  fix i assume i: "i < length (load_bytes (store_bytes m p xs) p (length xs + k))"
  have "unat (of_nat i :: usize) = i" using i assms by (simp add: unat_of_nat)
  with i show "load_bytes (store_bytes m p xs) p (length xs + k) ! i = (xs @ load_bytes m (p + of_nat (length xs)) k) ! i"
    by (auto simp: load_bytes_def store_bytes_def nth_append add.assoc simp flip: of_nat_add)
qed simp

lemma length_rc_bytes [simp]: "length (rc_bytes c w v) = 40"
  by (simp add: rc_bytes_def)

lemma rc_bytes_read:
  assumes "load_bytes m p 40 = rc_bytes c w v"
  shows "rc_strong m p = c" and "rc_weak m p = w"
    and "vec_cap v < 2 ^ 64 \<Longrightarrow> vec_len v < 2 ^ 64 \<Longrightarrow> rc_value m p = v"
proof -
  have e: "load_bytes m p (8 + (8 + (8 + (8 + 8)))) = rc_bytes c w v" using assms by simp
  have "load_bytes m p 8 = le_bytes c \<and> load_bytes m (p + 8) 8 = le_bytes w \<and> load_bytes m (p + 16) 8 = le_bytes (vec_ptr v) \<and>
      load_bytes m (p + 24) 8 = le_bytes (of_nat (vec_cap v) :: u64) \<and> load_bytes m (p + 32) 8 = le_bytes (of_nat (vec_len v) :: u64)"
    using e unfolding load_bytes_append rc_bytes_def by (simp add: add.assoc)
  then show "rc_strong m p = c" "rc_weak m p = w"
    "vec_cap v < 2 ^ 64 \<Longrightarrow> vec_len v < 2 ^ 64 \<Longrightarrow> rc_value m p = v"
    by (simp_all add: rc_strong_def rc_weak_def rc_value_def box_read_load [where v = "vec_ptr v"]
        box_read_load [where v = "of_nat n :: u64" for n] box_read_load [where v = c] box_read_load [where v = w] unat_of_nat)
qed

context roomy_alloc
begin

definition heap_has :: "nat \<Rightarrow> nat \<Rightarrow> nat \<Rightarrow> block multiset \<Rightarrow> (usize \<times> u8 list) list \<Rightarrow> 's \<times> mem \<Rightarrow> bool" where
  "heap_has lo hi n bs vs h \<longleftrightarrow> room lo hi n (fst h) (snd h) bs \<and>
     (\<forall>(p, xs) \<in> set vs. load_bytes (snd h) p (length xs) = xs \<and> (\<exists>l. (p, l) \<in># bs \<and> length xs \<le> unat (layout_size l)))"

lemma heap_hasD: "heap_has lo hi n bs vs h \<Longrightarrow> (p, xs) \<in> set vs \<Longrightarrow> load_bytes (snd h) p (length xs) = xs"
  by (fastforce simp: heap_has_def)

lemma values_same:
  assumes "heap_has lo hi n bs vs (s, m)" and "hi \<le> 2 ^ 64" and "same_on (extents bs) m m'"
    and "(p, xs) \<in> set vs"
  shows "load_bytes m' p (length xs) = xs" and "\<exists>l. (p, l) \<in># bs \<and> length xs \<le> unat (layout_size l)"
proof -
  obtain l where l: "(p, l) \<in># bs" "length xs \<le> unat (layout_size l)" and x: "load_bytes m p (length xs) = xs"
    using assms(1,4) by (fastforce simp: heap_has_def)
  have "live_ok lo hi bs" using assms(1) inv_live [OF room_inv] by (auto simp: heap_has_def)
  from load_bytes_same [OF assms(3) l this assms(2)] x show "load_bytes m' p (length xs) = xs" by simp
  show "\<exists>l. (p, l) \<in># bs \<and> length xs \<le> unat (layout_size l)" using l by blast
qed

text \<open>A new block with a value in it, beside the others.\<close>

lemma heap_has_add:
  assumes H: "heap_has lo hi n bs vs (s, m)" and hi: "hi \<le> 2 ^ 64" and R: "room lo hi k s' m' (add_mset (p, l) bs)"
    and same: "same_on (extents bs) m m'" and v: "load_bytes m' p (length xs) = xs" "length xs \<le> unat (layout_size l)"
  shows "heap_has lo hi k (add_mset (p, l) bs) ((p, xs) # vs) (s', m')"
  using values_same [OF H hi same] R v by (fastforce simp: heap_has_def)

lemma alloc_store:
  assumes H: "heap_has lo hi n bs vs (s, m)" and hi: "hi \<le> 2 ^ 64" and req: "req l" and n: "need l \<le> n"
    and len: "length xs \<le> unat (layout_size l)"
  shows "\<exists>p s' m0. alloc s m l = Ret (p, s', m0) \<and> p \<noteq> 0 \<and>
    heap_has lo hi (n - need l) (add_mset (p, l) bs) ((p, xs) # vs) (s', store_bytes m0 p xs)"
proof -
  have R: "room lo hi n s m bs" using H by (simp add: heap_has_def)
  from room_alloc [OF R req n] obtain p s' m0 where
    a: "alloc s m l = Ret (p, s', m0)" "p \<noteq> 0" "room lo hi (n - need l) s' m0 (add_mset (p, l) bs)" by blast
  have live: "live_ok lo hi (add_mset (p, l) bs)" using inv_live [OF room_inv [OF a(3)]] .
  have l0: "0 + length xs \<le> unat (layout_size l)" using len by simp
  note fr = store_bytes_frame [OF live hi l0, where m = m0, simplified]
  have "unat p + length xs \<le> 2 ^ 64" using live_no_wrap [OF live hi, of p l] len by simp
  then have ld: "load_bytes (store_bytes m0 p xs) p (length xs) = xs" by (rule load_store_same)
  have "same_on (extents bs) m m0" using alloc_law [OF room_inv [OF R] req] a(1) by auto
  from same_on_trans [OF this fr(1)] have same: "same_on (extents bs) m (store_bytes m0 p xs)" .
  have "room lo hi (n - need l) s' (store_bytes m0 p xs) (add_mset (p, l) bs)"
    using a(3) fr(2) by (rule room_store) simp
  from heap_has_add [OF H hi this same ld len] a(1,2) show ?thesis by blast
qed

lemma box_new_has:
  fixes v :: "'a::len word"
  assumes "heap_has lo hi n bs vs h" and "hi \<le> 2 ^ 64" and "req (word_layout TYPE('a))"
    and "need (word_layout TYPE('a)) \<le> n" and T: "byte_sized TYPE('a)"
  shows "\<exists>p h'. box_new alloc v h = Ret (p, h') \<and>
    heap_has lo hi (n - need (word_layout TYPE('a))) (add_mset (p, word_layout TYPE('a)) bs) ((p, le_bytes v) # vs) h'"
proof -
  obtain s m where h: "h = (s, m)" by (cases h)
  from alloc_store [OF assms(1) [unfolded h] assms(2-4), of "le_bytes v"] word_layout_size [OF T] obtain p s' m0 where
    a: "alloc s m (word_layout TYPE('a)) = Ret (p, s', m0)" "p \<noteq> 0"
    "heap_has lo hi (n - need (word_layout TYPE('a))) (add_mset (p, word_layout TYPE('a)) bs) ((p, le_bytes v) # vs)
      (s', store_bytes m0 p (le_bytes v))" by auto
  then show ?thesis by (intro exI [of _ p] exI [of _ "(s', store_bytes m0 p (le_bytes v))"]) (simp add: h box_new_def Let_def)
qed

lemma vec_of_has:
  fixes xs :: "'a::len word list"
  assumes "heap_has lo hi n bs vs h" and "hi \<le> 2 ^ 64" and "req (array_block TYPE('a) (length xs))"
    and "need (array_block TYPE('a) (length xs)) \<le> n" and T: "array_ok TYPE('a) (length xs)"
  shows "\<exists>p h'. vec_of alloc xs h = Ret (\<lparr>vec_ptr = p, vec_cap = length xs, vec_len = length xs\<rparr>, h') \<and>
    heap_has lo hi (n - need (array_block TYPE('a) (length xs))) (add_mset (p, array_block TYPE('a) (length xs)) bs)
      ((p, concat (map le_bytes xs)) # vs) h'"
proof -
  obtain s m where h: "h = (s, m)" by (cases h)
  from alloc_store [OF assms(1) [unfolded h] assms(2-4), of "concat (map le_bytes xs)"]
    array_ok_size(2) [OF T] concat_le_bytes_length [of xs] obtain p s' m0 where
    a: "alloc s m (array_block TYPE('a) (length xs)) = Ret (p, s', m0)" "p \<noteq> 0"
    "heap_has lo hi (n - need (array_block TYPE('a) (length xs))) (add_mset (p, array_block TYPE('a) (length xs)) bs)
      ((p, concat (map le_bytes xs)) # vs) (s', store_bytes m0 p (concat (map le_bytes xs)))" by auto
  then show ?thesis using array_ok_size(4) [OF T]
    by (intro exI [of _ p] exI [of _ "(s', store_bytes m0 p (concat (map le_bytes xs)))"]) (simp add: h vec_of_def)
qed

lemma rc_new_has:
  assumes "heap_has lo hi n bs vs h" and "hi \<le> 2 ^ 64" and "req rc_layout" and "need rc_layout \<le> n"
  shows "\<exists>p h'. rc_new alloc v h = Ret (p, h') \<and>
    heap_has lo hi (n - need rc_layout) (add_mset (p, rc_layout) bs) ((p, rc_bytes 1 1 v) # vs) h'"
proof -
  obtain s m where h: "h = (s, m)" by (cases h)
  have "length (rc_bytes 1 1 v) \<le> unat (layout_size rc_layout)" by (simp add: rc_layout_def)
  from alloc_store [OF assms(1) [unfolded h] assms(2-4) this] obtain p s' m0 where
    "alloc s m rc_layout = Ret (p, s', m0)" "p \<noteq> 0"
    "heap_has lo hi (n - need rc_layout) (add_mset (p, rc_layout) bs) ((p, rc_bytes 1 1 v) # vs)
      (s', store_bytes m0 p (rc_bytes 1 1 v))" by auto
  then show ?thesis by (intro exI [of _ p] exI [of _ "(s', store_bytes m0 p (rc_bytes 1 1 v))"]) (simp add: h rc_new_def)
qed

text \<open>Changing the strong count.\<close>

lemma rc_store_has:
  assumes H: "heap_has lo hi n (add_mset (p, rc_layout) bs) ((p, rc_bytes c w v) # vs) (s, m)" and hi: "hi \<le> 2 ^ 64"
    and vs: "\<And>q xs. (q, xs) \<in> set vs \<Longrightarrow> \<exists>l. (q, l) \<in># bs \<and> length xs \<le> unat (layout_size l)"
  shows "heap_has lo hi n (add_mset (p, rc_layout) bs) ((p, rc_bytes c' w v) # vs) (s, store_bytes m p (le_bytes c'))"
proof -
  have R: "room lo hi n s m (add_mset (p, rc_layout) bs)" using H by (simp add: heap_has_def)
  have live: "live_ok lo hi (add_mset (p, rc_layout) bs)" using inv_live [OF room_inv [OF R]] .
  have "0 + length (le_bytes c') \<le> unat (layout_size rc_layout)" by (simp add: rc_layout_def)
  note fr = store_bytes_frame [OF live hi this, where m = m, simplified]
  have w: "unat p + 40 \<le> 2 ^ 64" using live_no_wrap [OF live hi, of p rc_layout] by (simp add: rc_layout_def)
  have "load_bytes m p (8 + 32) = rc_bytes c w v" using H by (simp add: heap_has_def)
  from arg_cong [OF this, of "drop 8"] have "load_bytes m (p + 8) 32 = drop 8 (rc_bytes c w v)"
    unfolding load_bytes_append by simp
  then have ld: "load_bytes (store_bytes m p (le_bytes c')) p 40 = rc_bytes c' w v"
    using load_store_prefix [of p "le_bytes c'" 32 m] w by (simp add: rc_bytes_def)
  have other: "load_bytes (store_bytes m p (le_bytes c')) q (length xs) = xs" if q: "(q, xs) \<in> set vs" for q xs
  proof -
    obtain l where l: "(q, l) \<in># bs" "length xs \<le> unat (layout_size l)" using vs [OF q] by blast
    have "live_ok lo hi bs" using live_ok_remove [OF live, of "(p, rc_layout)"] by simp
    from load_bytes_same [OF fr(1) l this hi] H q show ?thesis by (auto simp: heap_has_def)
  qed
  have "room lo hi n s (store_bytes m p (le_bytes c')) (add_mset (p, rc_layout) bs)"
    using R fr(2) by (rule room_store) simp
  with ld other vs show ?thesis by (fastforce simp: heap_has_def rc_layout_def)
qed

lemma rc_clone_has:
  assumes "heap_has lo hi n (add_mset (p, rc_layout) bs) ((p, rc_bytes c w v) # vs) h" and "hi \<le> 2 ^ 64"
    and "\<And>q xs. (q, xs) \<in> set vs \<Longrightarrow> \<exists>l. (q, l) \<in># bs \<and> length xs \<le> unat (layout_size l)" and "c + 1 \<noteq> 0"
  shows "\<exists>h'. rc_clone p h = Ret (p, h') \<and> heap_has lo hi n (add_mset (p, rc_layout) bs) ((p, rc_bytes (c + 1) w v) # vs) h'"
proof -
  obtain s m where h: "h = (s, m)" by (cases h)
  have "rc_strong m p = c" using assms(1) by (intro rc_bytes_read(1)) (simp add: heap_has_def h)
  with rc_store_has [OF assms(1) [unfolded h] assms(2,3), of "c + 1"] assms(4) show ?thesis
    by (intro exI [of _ "(s, store_bytes m p (le_bytes (c + 1)))"]) (simp add: h rc_clone_def Let_def)
qed

text \<open>Dropping one of several references leaves the value alone.\<close>

lemma rc_drop_has:
  assumes "heap_has lo hi n (add_mset (p, rc_layout) bs) ((p, rc_bytes c w v) # vs) h" and "hi \<le> 2 ^ 64"
    and "\<And>q xs. (q, xs) \<in> set vs \<Longrightarrow> \<exists>l. (q, l) \<in># bs \<and> length xs \<le> unat (layout_size l)" and "c - 1 \<noteq> 0"
  shows "\<exists>h'. rc_drop T dealloc p h = Ret h' \<and> heap_has lo hi n (add_mset (p, rc_layout) bs) ((p, rc_bytes (c - 1) w v) # vs) h'"
proof -
  obtain s m where h: "h = (s, m)" by (cases h)
  have "rc_strong m p = c" using assms(1) by (intro rc_bytes_read(1)) (simp add: heap_has_def h)
  with rc_store_has [OF assms(1) [unfolded h] assms(2,3), of "c - 1"] assms(4) show ?thesis
    by (intro exI [of _ "(s, store_bytes m p (le_bytes (c - 1)))"]) (simp add: h rc_drop_def Let_def)
qed

text \<open>A vector that is filled by pushing.\<close>

lemma vec_pushes_has:
  fixes ys :: "'a::len word list"
  assumes H: "heap_has lo hi n bs vs (s, m)" and hi: "hi \<le> 2 ^ 64" and len: "length ys \<le> grown_cap k" "ys \<noteq> []"
    and arr: "array_ok TYPE('a) (grown_cap k)"
    and req: "\<And>i. i < k \<Longrightarrow> req (array_block TYPE('a) (grown_cap (Suc i)))"
    and n: "growth_need need TYPE('a) k \<le> n"
  shows "\<exists>v h'. for_each ys (vec_push alloc dealloc) (vec_new, s, m) = Ret (v, h') \<and> vec_len v = length ys \<and>
    vec_elems (snd h') v = ys \<and>
    heap_has lo hi (n - growth_need need TYPE('a) k) (add_mset (vec_ptr v, array_block TYPE('a) (vec_cap v)) bs)
      ((vec_ptr v, concat (map le_bytes ys)) # vs) h'"
proof -
  have R: "room lo hi n s m bs" using H by (simp add: heap_has_def)
  have "vec_ok lo hi (n - growth_need need TYPE('a) 0) s m bs vec_new ([] :: 'a word list)"
    using vec_ok_new [OF R array_ok_mono [OF arr]] by (simp add: growth_need_def)
  from vec_pushes_room [OF this _ _ _ hi arr req n, of ys] len obtain v s' m' where
    v: "for_each ys (vec_push alloc dealloc) (vec_new, s, m) = Ret (v, s', m')"
    "vec_ok lo hi (n - growth_need need TYPE('a) k) s' m' bs v ys" "same_on (extents bs) m m'"
    by (auto simp: vec_new_def grown_cap_def)
  have "length ys \<le> vec_cap v" "0 < length ys" using v(2) len(2) by (auto simp: vec_ok_def)
  then have c: "length ys \<le> vec_cap v" "vec_cap v \<noteq> 0" by linarith+
  have ld: "load_bytes m' (vec_ptr v) (length ys * (LENGTH('a) div 8)) = concat (map le_bytes ys)"
    using v(2) by (simp add: vec_ok_def)
  have "length ys * (LENGTH('a) div 8) \<le> unat (layout_size (array_block TYPE('a) (vec_cap v)))"
    using array_ok_size(2) [of "vec_cap v", where 'a = 'a] v(2) c(1) by (simp add: vec_ok_def)
  moreover have "room lo hi (n - growth_need need TYPE('a) k) s' m' (add_mset (vec_ptr v, array_block TYPE('a) (vec_cap v)) bs)"
    using v(2) c(2) by (simp add: vec_ok_def vec_blocks_def)
  ultimately have has: "heap_has lo hi (n - growth_need need TYPE('a) k) (add_mset (vec_ptr v, array_block TYPE('a) (vec_cap v)) bs)
      ((vec_ptr v, concat (map le_bytes ys)) # vs) (s', m')"
    using ld by (intro heap_has_add [OF H hi _ v(3)]) (simp_all add: concat_le_bytes_length)
  have "vec_elems m' v = ys" using vec_elems_load v(2) arr by (auto simp: vec_ok_def array_ok_def)
  with v(1,2) has show ?thesis by (intro exI [of _ v] exI [of _ "(s', m')"]) (simp add: vec_ok_def)
qed

end

end
