(* ===== verification/Key_Rate.thy ===== *)
theory Key_Rate
  imports Executor
begin

text \<open>
  Interrupts without end. A turn of the executor's loop passes a bounded number of points
  at which it can be interrupted, and what it does depends only on what arrives at those.
  So the laws of \<open>Executor\<close>, which are about schedules with fewer than 100 scancodes,
  carry over to schedules of any length in which fewer than 99 scancodes arrive at any
  1000 points in a row: the keyboard task keeps up with them for ever.
\<close>

subsection \<open>What code does depends on the interrupts it meets\<close>

definition longer :: "irq list list \<Rightarrow> ('cell, 'aw, 'tq, 'c) kernel \<Rightarrow> ('cell, 'aw, 'tq, 'c) kernel" where
  "longer bs k = k\<lparr>arrivals := arrivals k @ bs\<rparr>"

lemma longer_fields [simp]:
  "scancode_queue (longer bs k) = scancode_queue k" "keyboard_waker (longer bs k) = keyboard_waker k"
  "task_queue (longer bs k) = task_queue k" "vga_writer (longer bs k) = vga_writer k"
  "interrupts_enabled (longer bs k) = interrupts_enabled k" "arrivals (longer bs k) = arrivals k @ bs"
  by (simp_all add: longer_def)

lemma longer_upd:
  "(longer bs k)\<lparr>scancode_queue := q\<rparr> = longer bs (k\<lparr>scancode_queue := q\<rparr>)"
  "(longer bs k)\<lparr>keyboard_waker := aw\<rparr> = longer bs (k\<lparr>keyboard_waker := aw\<rparr>)"
  "(longer bs k)\<lparr>task_queue := tq\<rparr> = longer bs (k\<lparr>task_queue := tq\<rparr>)"
  "(longer bs k)\<lparr>vga_writer := w\<rparr> = longer bs (k\<lparr>vga_writer := w\<rparr>)"
  "(longer bs k)\<lparr>interrupts_enabled := b\<rparr> = longer bs (k\<lparr>interrupts_enabled := b\<rparr>)"
  by (simp_all add: longer_def)

text \<open>
  Code returns a kernel, alone or with other values; a view says where it is. Code is local
  if it only consumes from the schedule, and if it does the same on a longer schedule, as
  long as it does not come to the end of the shorter one.
\<close>

type_synonym ('r, 'k) view = "('r \<Rightarrow> 'k) \<times> (('k \<Rightarrow> 'k) \<Rightarrow> 'r \<Rightarrow> 'r)"

definition whole :: "('k, 'k) view" where
  "whole = (\<lambda>k. k, \<lambda>g. g)"

definition second :: "('x \<times> 'k, 'k) view" where
  "second = (snd, \<lambda>g (x, k). (x, g k))"

definition third :: "('x \<times> 'y \<times> 'k, 'k) view" where
  "third = (\<lambda>(x, y, k). k, \<lambda>g (x, y, k). (x, y, g k))"

lemmas views = whole_def second_def third_def

definition local_code ::
  "('r, ('cell, 'aw, 'tq, 'c) kernel) view \<Rightarrow> ('s, ('cell, 'aw, 'tq, 'c) kernel) view \<Rightarrow> ('r \<Rightarrow> 's outcome) \<Rightarrow> 'r \<Rightarrow> bool" where
  "local_code V W f r \<longleftrightarrow> (\<forall>s. f r = Ret s \<longrightarrow> suffix (arrivals (fst W s)) (arrivals (fst V r)) \<and>
     (\<forall>bs. arrivals (fst W s) \<noteq> [] \<longrightarrow> f (snd V (longer bs) r) = Ret (snd W (longer bs) s)))"

lemma local_bind:
  assumes "local_code V W f r" and "\<And>s. f r = Ret s \<Longrightarrow> local_code W X g s"
  shows "local_code V X (\<lambda>r. and_then (f r) g) r"
  using assms unfolding local_code_def
  by (auto simp: suffix_order.trans)

lemma interrupt_local: "local_code whole whole (interrupt_point P) k"
proof (cases "interrupts_enabled k \<and> arrivals k \<noteq> []")
  case True
  then obtain burst rest where a: "arrivals k = burst # rest" by (cases "arrivals k") auto
  have "interrupt_point P (longer bs k) = Ret (longer bs k')" "suffix (arrivals k') (arrivals k)"
    if "interrupt_point P k = Ret k'" for k' bs
  proof -
    have k': "for_each burst (serve_irq P) (k\<lparr>arrivals := rest\<rparr>) = Ret k'"
      using that True a by (simp add: interrupt_point_def)
    have "interrupt_point P (longer bs k) =
        for_each burst (serve_irq P) ((k\<lparr>arrivals := rest\<rparr>)\<lparr>arrivals := rest @ bs\<rparr>)"
      using True a by (simp add: interrupt_point_def longer_def)
    also have "\<dots> = and_then (for_each burst (serve_irq P) (k\<lparr>arrivals := rest\<rparr>)) (\<lambda>k'. Ret (k'\<lparr>arrivals := rest @ bs\<rparr>))"
      by (rule burst_blind)
    finally have "interrupt_point P (longer bs k) = Ret (k'\<lparr>arrivals := rest @ bs\<rparr>)" using k' by simp
    with k' burst_arrivals [OF k'] show "interrupt_point P (longer bs k) = Ret (longer bs k')" by (simp add: longer_def)
    from burst_arrivals [OF k'] a show "suffix (arrivals k') (arrivals k)" by (simp add: suffix_ConsI)
  qed
  then show ?thesis by (simp add: local_code_def whole_def)
next
  case False
  then have "interrupt_point P k = Ret k" "arrivals k \<noteq> [] \<longrightarrow> interrupt_point P (longer bs k) = Ret (longer bs k)" for bs
    by (auto simp: interrupt_point_def split: list.split)
  then show ?thesis by (simp add: local_code_def whole_def)
qed

text \<open>Code that does not look at the schedule at all.\<close>

lemma local_plain:
  assumes "\<And>s. f r = Ret s \<Longrightarrow> arrivals (fst W s) = arrivals (fst V r)"
    and "\<And>s bs. f r = Ret s \<Longrightarrow> f (snd V (longer bs) r) = Ret (snd W (longer bs) s)"
  shows "local_code V W f r"
  using assms by (simp add: local_code_def)

lemma scan_pop_local: "local_code whole second (scan_pop P) k"
  by (rule local_plain) (auto simp: views scan_pop_def longer_upd split: option.splits)

lemma local_bind_pair:
  assumes "local_code V second f r" and "\<And>x k. f r = Ret (x, k) \<Longrightarrow> local_code whole X (g x) k"
  shows "local_code V X (\<lambda>r. and_then (f r) (\<lambda>(x, k). g x k)) r"
  using assms(1)
proof (rule local_bind)
  fix s assume "f r = Ret s"
  with assms(2) [of "fst s" "snd s"] show "local_code second X (\<lambda>(x, k). g x k) s"
    by (cases s) (simp add: local_code_def views)
qed

lemma local_bind_triple:
  assumes "local_code V third f r" and "\<And>x y k. f r = Ret (x, y, k) \<Longrightarrow> local_code whole X (g x y) k"
  shows "local_code V X (\<lambda>r. and_then (f r) (\<lambda>(x, y, k). g x y k)) r"
  using assms(1)
proof (rule local_bind)
  fix s assume "f r = Ret s"
  with assms(2) [of "fst s" "fst (snd s)" "snd (snd s)"] show "local_code third X (\<lambda>(x, y, k). g x y k) s"
    by (cases s) (simp add: local_code_def views)
qed

lemma local_Ret [simp]: "local_code whole whole Ret k" "local_code whole second (\<lambda>k. Ret (x, k)) k" "local_code whole third (\<lambda>k. Ret (x, y, k)) k"
  by (simp_all add: local_code_def views)

lemma local_fail [simp]: "local_code V W (\<lambda>_. Panic e) r" "local_code V W (\<lambda>_. Diverge) r"
  by (simp_all add: local_code_def)

lemma local_cong:
  assumes "local_code V W f r" and "g r = f r" and "\<And>bs. g (snd V (longer bs) r) = f (snd V (longer bs) r)"
  shows "local_code V W g r"
  using assms by (simp add: local_code_def)

lemma local_upd:
  assumes "local_code whole W f (u k)" and "arrivals (u k) = arrivals k" and "\<And>bs. u (longer bs k) = longer bs (u k)"
  shows "local_code whole W (\<lambda>k. f (u k)) k"
  using assms by (simp add: local_code_def whole_def)

lemma local_expect:
  assumes "\<And>x. h k = Some x \<Longrightarrow> local_code whole W (f x) k" and "\<And>bs. h (longer bs k) = h k"
  shows "local_code whole W (\<lambda>k. and_then (expect msg (h k)) (\<lambda>x. f x k)) k"
  using assms by (cases "h k") (auto simp: local_code_def whole_def)

lemmas local_seq = local_bind [OF interrupt_local]

lemma poll_next_second_local: "local_code whole second (poll_next_second P) k"
proof -
  have taken: "local_code whole second (\<lambda>k. Ret (x, k\<lparr>keyboard_waker := snd (waker_take (slot_ops P) (keyboard_waker k))\<rparr>)) k" for x k
    by (rule local_upd) (simp_all add: longer_upd)
  have "local_code whole second (\<lambda>k. case r of
      Some scancode \<Rightarrow> and_then (interrupt_point P k) (\<lambda>k.
        Ret (Ready (Some scancode), k\<lparr>keyboard_waker := snd (waker_take (slot_ops P) (keyboard_waker k))\<rparr>))
    | None \<Rightarrow> Ret (Pending, k)) k" for r k
    by (cases r) (auto intro!: local_seq taken)
  then show ?thesis
    unfolding poll_next_second_def [abs_def] by (intro local_bind_pair [OF scan_pop_local])
qed

lemma poll_next_local: "local_code whole second (poll_next P cx) k"
proof -
  let ?reg = "\<lambda>k. k\<lparr>keyboard_waker := waker_register (slot_ops P) cx (keyboard_waker k)\<rparr>"
  have "local_code whole second (\<lambda>k. and_then (interrupt_point P (?reg k)) (poll_next_second P)) k" for k
    by (rule local_upd, rule local_seq [OF poll_next_second_local]) (simp_all add: longer_upd)
  then have "local_code whole second (\<lambda>k. case r of Some scancode \<Rightarrow> Ret (Ready (Some scancode), k)
      | None \<Rightarrow> and_then (interrupt_point P k) (\<lambda>k. and_then (interrupt_point P (?reg k)) (poll_next_second P))) k" for r k
    by (cases r) (auto intro!: local_seq)
  then have "local_code whole second (\<lambda>k. and_then (interrupt_point P k) (\<lambda>k. and_then (scan_pop P k) (\<lambda>(r, k).
      case r of Some scancode \<Rightarrow> Ret (Ready (Some scancode), k)
      | None \<Rightarrow> and_then (interrupt_point P k) (\<lambda>k. and_then (interrupt_point P (?reg k)) (poll_next_second P))))) k"
    by (intro local_seq local_bind_pair [OF scan_pop_local])
  then show ?thesis
    unfolding poll_next_def [abs_def] Let_def by (rule local_expect) simp
qed

lemma handle_scancode_local: "local_code whole second (handle_scancode P K kb c) k"
  unfolding handle_scancode_decode [abs_def]
  by (rule local_plain) (auto simp: views longer_upd)

text \<open>The loops, by induction on their computation.\<close>

lemma local_second_D:
  assumes "local_code whole second f k" and "f k = Ret (x, k')"
  shows "suffix (arrivals k') (arrivals k)" and "arrivals k' \<noteq> [] \<Longrightarrow> f (longer bs k) = Ret (x, longer bs k')"
  using assms by (simp_all add: local_code_def views)

lemma local_third_D:
  assumes "local_code whole third f k" and "f k = Ret (x, y, k')"
  shows "suffix (arrivals k') (arrivals k)" and "arrivals k' \<noteq> [] \<Longrightarrow> f (longer bs k) = Ret (x, y, longer bs k')"
  using assms by (simp_all add: local_code_def views)

lemma suffix_nonempty: "suffix xs ys \<Longrightarrow> xs \<noteq> [] \<Longrightarrow> ys \<noteq> []"
  by (auto simp: suffix_def)

lemma keypresses_loop_longer:
  assumes "keypresses_loop P K cx kb k = Some (Ret (x, f, k'))"
  shows "suffix (arrivals k') (arrivals k) \<and>
    (\<forall>bs. arrivals k' \<noteq> [] \<longrightarrow> keypresses_loop P K cx kb (longer bs k) = Some (Ret (x, f, longer bs k')))"
  using assms
proof (induction rule: keypresses_loop_induct)
  case (pending kb k k1)
  from local_second_D [OF poll_next_local this] show ?case by (simp add: keypresses_loop.simps)
next
  case (ended kb k k1)
  from local_second_D [OF poll_next_local this] show ?case by (simp add: keypresses_loop.simps)
next
  case (key kb k c k1 kb' k2 x f k')
  note poll = local_second_D [OF poll_next_local key(1)] and handle = local_second_D [OF handle_scancode_local key(2)]
  have "suffix (arrivals k') (arrivals k1)" using suffix_order.trans [OF _ handle(1)] key.IH by blast
  then have s: "suffix (arrivals k') (arrivals k)" "arrivals k' \<noteq> [] \<Longrightarrow> arrivals k1 \<noteq> [] \<and> arrivals k2 \<noteq> []"
    using poll(1) key.IH by (auto dest: suffix_nonempty intro: suffix_order.trans)
  have "keypresses_loop P K cx kb (longer bs k) = keypresses_loop P K cx kb' (longer bs k2)" if "arrivals k' \<noteq> []" for bs
    using s(2) [OF that] poll(2) handle(2) by (subst keypresses_loop.simps) simp
  with s(1) key.IH show ?case by simp
qed

lemma keypresses_loop_local: "local_code whole third (\<lambda>k. loop_outcome (keypresses_loop P K cx kb k)) k"
  using keypresses_loop_longer [of P K cx kb k]
  by (cases "keypresses_loop P K cx kb k") (auto simp: local_code_def views)

lemma print_keypresses_local: "local_code whole third (print_keypresses P K f cx) k"
proof (cases f)
  case KeypressesStart
  have "local_code whole whole (scancode_stream_new P) k"
    unfolding scancode_stream_new_def [abs_def] by (rule local_plain) (auto simp: views longer_upd)
  from local_bind [OF this keypresses_loop_local] KeypressesStart show ?thesis
    by (simp add: print_keypresses.simps [abs_def])
qed (simp_all add: print_keypresses.simps [abs_def] keypresses_loop_local)

lemma task_poll_local:
  assumes "\<And>f cx k. local_code whole third (pollf f cx) k"
  shows "local_code whole third (task_poll pollf t cx) k"
  unfolding task_poll_def [abs_def] by (rule local_bind_triple [OF assms]) simp

lemma ready_turn_local:
  assumes poll: "\<And>f cx k. local_code whole third (pollf f cx) k" and "ready_turn pollf tid e k e2 k2"
  shows "suffix (arrivals k2) (arrivals k)" and "arrivals k2 \<noteq> [] \<Longrightarrow> ready_turn pollf tid e (longer bs k) e2 (longer bs k2)"
  using assms(2)
  by (auto elim!: ready_turnE intro: ready_turn.intros dest: local_third_D [OF task_poll_local [OF poll]])

lemma ready_loop_longer:
  assumes poll: "\<And>f cx k. local_code whole third (pollf f cx) k" and "ready_loop P pollf e k = Some (Ret (e', k'))"
  shows "suffix (arrivals k') (arrivals k) \<and>
    (\<forall>bs. arrivals k' \<noteq> [] \<longrightarrow> ready_loop P pollf e (longer bs k) = Some (Ret (e', longer bs k')))"
  using assms(2)
proof (induction rule: ready_loop_induct)
  case (empty e k k1)
  with interrupt_local [of P k] show ?case by (auto simp: local_code_def whole_def intro: ready_loop_empty)
next
  case (turn e k k1 tid tq e2 k2 e' k')
  have irq: "suffix (arrivals k1) (arrivals k)" "arrivals k1 \<noteq> [] \<Longrightarrow> interrupt_point P (longer bs k) = Ret (longer bs k1)" for bs
    using interrupt_local [of P k] turn(1) by (simp_all add: local_code_def whole_def)
  note t = ready_turn_local [OF poll turn(3), simplified]
  have "suffix (arrivals k') (arrivals k1)" using suffix_order.trans [OF _ t(1)] turn.IH by blast
  then have s: "suffix (arrivals k') (arrivals k)" "arrivals k' \<noteq> [] \<Longrightarrow> arrivals k1 \<noteq> [] \<and> arrivals k2 \<noteq> []"
    using irq(1) turn.IH by (auto dest: suffix_nonempty intro: suffix_order.trans)
  have "ready_loop P pollf e (longer bs k) = ready_loop P pollf e2 (longer bs k2)" if "arrivals k' \<noteq> []" for bs
    using irq(2) turn(2) t(2) s(2) [OF that] by (intro ready_loop_turn [of P _ "longer bs k1" tid tq]) (auto simp: longer_upd)
  with s(1) turn.IH show ?case by simp
qed

lemma ready_loop_local:
  assumes "\<And>f cx k. local_code whole third (pollf f cx) k"
  shows "local_code whole second (\<lambda>k. loop_outcome (ready_loop P pollf e k)) k"
  using ready_loop_longer [where pollf = pollf and P = P and e = e and k = k, OF assms]
  by (cases "ready_loop P pollf e k") (auto simp: local_code_def views)

subsection \<open>Paced schedules\<close>

text \<open>Fewer than 99 scancodes arrive at any 1000 points in a row.\<close>

definition paced :: "irq list list \<Rightarrow> bool" where
  "paced as \<longleftrightarrow> (\<forall>j\<le>length as. length (pressed (concat (take 1000 (drop j as)))) < 99)"

lemma pacedD: "paced as \<Longrightarrow> length (pressed (concat (take 1000 (drop j as)))) < 99"
  by (cases "j \<le> length as") (simp_all add: paced_def)

lemma paced_suffix:
  assumes "suffix bs as" and "paced as"
  shows "paced bs"
proof -
  obtain cs where "as = cs @ bs" using assms(1) by (auto simp: suffix_def)
  then have "drop j bs = drop (length cs + j) as" for j by simp
  with pacedD [OF assms(2)] show ?thesis by (simp add: paced_def)
qed

lemma presses_take: "length (pressed (concat (take m as))) \<le> length (pressed (concat as))"
  by (metis append_take_drop_id concat_append le_add1 length_append pressed_append)

lemma paced_burst:
  assumes "paced as" and "b \<in> set as"
  shows "length (pressed b) \<le> 100"
proof -
  obtain j where j: "j < length as" "as ! j = b" using assms(2) by (auto simp: in_set_conv_nth)
  then have "take 1000 (drop j as) = b # take 999 (drop (Suc j) as)" by (simp add: Cons_nth_drop_Suc [symmetric])
  with pacedD [OF assms(1), of j] show ?thesis by simp
qed

lemma paced_few: "length (pressed (concat as)) < 99 \<Longrightarrow> paced as"
proof -
  assume few: "length (pressed (concat as)) < 99"
  have "length (pressed (concat (drop j as))) \<le> length (pressed (concat as))" for j
    by (metis append_take_drop_id concat_append le_add2 length_append pressed_append)
  with few presses_take [of 1000 "drop _ as"] show ?thesis by (auto simp: paced_def intro: le_less_trans order_trans)
qed

lemma paced_window:
  assumes "paced (h @ as)" and "length h \<le> 2"
  shows "length (pressed (concat h)) + length (pressed (concat (take 998 as))) < 99"
proof -
  have "take 998 as = take 998 (take (1000 - length h) as)" using assms(2) by (simp add: min_def)
  then have "length (pressed (concat (take 998 as))) \<le> length (pressed (concat (take (1000 - length h) as)))"
    using presses_take [of 998 "take (1000 - length h) as"] by simp
  moreover have "length (pressed (concat h)) + length (pressed (concat (take (1000 - length h) as))) < 99"
    using pacedD [OF assms(1), of 0] assms(2) by simp
  ultimately show ?thesis by simp
qed

text \<open>What the next points bring is enough to know what local code does.\<close>

definition window :: "('cell, 'aw, 'tq, 'c) kernel \<Rightarrow> ('cell, 'aw, 'tq, 'c) kernel" where
  "window k = k\<lparr>arrivals := take 998 (arrivals k)\<rparr>"

definition beyond :: "('cell, 'aw, 'tq, 'c) kernel \<Rightarrow> irq list list" where
  "beyond k = drop 998 (arrivals k)"

lemma window_fields [simp]:
  "scancode_queue (window k) = scancode_queue k" "keyboard_waker (window k) = keyboard_waker k"
  "task_queue (window k) = task_queue k" "vga_writer (window k) = vga_writer k"
  "interrupts_enabled (window k) = interrupts_enabled k" "arrivals (window k) @ beyond k = arrivals k"
  by (simp_all add: window_def beyond_def)

lemma window_arrivals: "arrivals (window k) = take 998 (arrivals k)"
  by (simp add: window_def)

lemma window_drop: "n \<le> 998 \<Longrightarrow> drop n (arrivals (window k)) @ beyond k = drop n (arrivals k)"
  using append_take_drop_id [of "998 - n" "drop n (arrivals k)"] by (simp add: window_arrivals beyond_def drop_take)

lemma window_suffix:
  assumes "suffix (h @ arrivals k') (arrivals (window k))"
  shows "suffix (h @ arrivals (longer (beyond k) k')) (arrivals k)"
proof -
  obtain zs where "arrivals (window k) = zs @ h @ arrivals k'" using assms by (auto simp: suffix_def)
  then have "arrivals k = zs @ h @ arrivals (longer (beyond k) k')" using window_fields(6) [of k] by simp
  then show ?thesis by (auto simp: suffix_def)
qed

lemma window_longer: "longer (beyond k) (window k) = k"
  by (simp add: longer_def window_def beyond_def)

lemma window_run:
  assumes f: "local_code whole second f (window k)" and r: "f (window k) = Ret (x, k')"
    and n: "length (arrivals (window k)) \<le> length (arrivals k') + n" "n < 998"
  shows "f k = Ret (x, longer (beyond k) k')"
proof (cases "beyond k = []")
  case True
  then have "longer (beyond k) j = j" for j :: "('a, 'b, 'c, 'd) kernel" by (simp add: longer_def)
  with window_longer [of k] r show ?thesis by simp
next
  case False
  then have "length (arrivals (window k)) = 998" by (simp add: window_def beyond_def)
  with n have "arrivals k' \<noteq> []" by auto
  from local_second_D(2) [OF f r this, of "beyond k"] show ?thesis by (simp add: window_longer)
qed

subsection \<open>The executor for ever\<close>

context kernel_prims
begin

lemma longer_simps [simp]:
  "ready t (longer bs k) = ready t k" "arm t (longer bs k) = arm t k" "load (longer bs k) = load k"
  "codes (longer bs k) = codes k" "flight (longer bs k) = flight k @ pressed (concat bs)"
  by (simp_all add: stream_ready_def armed_def wake_load_def scancodes_def in_flight_def)

lemma window_simps [simp]:
  "ready t (window k) = ready t k" "arm t (window k) = arm t k" "load (window k) = load k" "codes (window k) = codes k"
  by (simp_all add: stream_ready_def armed_def wake_load_def scancodes_def)

text \<open>
  The state between two turns of the loop: the task is armed, at most one wake-up is
  around, and the scancodes in the queue arrived at the last two points.
\<close>

definition rested :: "u64 \<Rightarrow> irq list list \<Rightarrow> ('cell, 'aw, 'tq, 'c) kernel \<Rightarrow> bool" where
  "rested t as k \<longleftrightarrow> ready t k \<and> arm t k \<and> set (task_contents (task_queue k)) \<subseteq> {t} \<and> load k \<le> 1 \<and> interrupts_enabled k \<and>
     (\<exists>h. length h \<le> 2 \<and> codes k = pressed (concat h) \<and> suffix (h @ arrivals k) as)"

text \<open>With the queue empty, no burst of a paced schedule is too much for it.\<close>

lemma interrupt_room:
  assumes "ready t k" and "load k \<le> 100" and "codes k = []" and small: "\<forall>b\<in>set (arrivals k). length (pressed b) \<le> 100"
  shows "\<exists>h k'. interrupt_point P k = Ret k' \<and> calm t k k' \<and> flight k' = flight k \<and> shown [] k k' \<and>
    length h \<le> 1 \<and> codes k' = pressed (concat h) \<and> h @ arrivals k' = arrivals k \<and>
    length (task_contents (task_queue k')) \<le> length (task_contents (task_queue k)) + length (codes k')"
proof (cases "interrupts_enabled k \<and> arrivals k \<noteq> []")
  case False
  then have "interrupt_point P k = Ret k" by (auto simp: interrupt_point_def split: list.splits)
  with assms(1-3) show ?thesis by (intro exI [of _ "[]"] exI [of _ k]) (auto simp: calm_def)
next
  case True
  then obtain b rest where a: "arrivals k = b # rest" by (cases "arrivals k") auto
  from interrupt_exact [OF assms(1,2) _ a] True obtain k' where
    k': "interrupt_point P k = Ret k'" "served t b (k\<lparr>arrivals := rest\<rparr>) k'" by blast
  have b: "length (pressed b) \<le> 100" using small a by simp
  have same: "codes (k\<lparr>arrivals := rest\<rparr>) = []" using assms(3) by (simp add: scancodes_def)
  have "calm t k k'" using served_quiet [OF a k'(2)] by (simp add: quiet_def)
  with served_room [OF a k'(2)] assms(3) k' b a same show ?thesis
    by (intro exI [of _ "[b]"] exI [of _ k']) (simp add: served_def)
qed

lemma hlt_room:
  assumes "ready t k" and "load k \<le> 100" and "codes k = []" and small: "\<forall>b\<in>set (arrivals k). length (pressed b) \<le> 100"
  shows "\<exists>r h k'. enable_and_hlt P k = Ret (r, k') \<and> calm t (k\<lparr>interrupts_enabled := True\<rparr>) k' \<and>
    flight k' = flight k \<and> shown [] k k' \<and>
    length h \<le> 1 \<and> codes k' = pressed (concat h) \<and> suffix (h @ arrivals k') (arrivals k) \<and>
    length (task_contents (task_queue k')) \<le> length (task_contents (task_queue k)) + length (codes k') \<and>
    (r = Asleep \<longrightarrow> arrivals k' = [] \<and> codes k' = [])"
  using hlt_law [OF assms(1,2)]
proof (elim disjE conjE exE)
  assume "concat (arrivals k) = []" and hlt: "enable_and_hlt P k = Ret (Asleep, k\<lparr>interrupts_enabled := True, arrivals := []\<rparr>)"
  then have "pressed (concat (arrivals k)) = []" by (simp only: pressed.simps)
  then have "flight (k\<lparr>interrupts_enabled := True, arrivals := []\<rparr>) = flight k" "codes (k\<lparr>interrupts_enabled := True, arrivals := []\<rparr>) = []"
    using assms(3) by (simp_all add: scancodes_def in_flight_def)
  with assms(1,2) hlt show ?thesis
    by (intro exI [of _ Asleep] exI [of _ "[]"] exI [of _ "k\<lparr>interrupts_enabled := True, arrivals := []\<rparr>"])
      (auto simp: calm_def stream_ready_def wake_load_def will_wake_def armed_def scancodes_def)
next
  fix zs burst rest k'
  assume z: "concat zs = []" "arrivals k = zs @ burst # rest" and hlt: "enable_and_hlt P k = Ret (Woken, k')"
    and sv: "served t burst (k\<lparr>interrupts_enabled := True, arrivals := rest\<rparr>) k'"
  let ?k = "k\<lparr>interrupts_enabled := True, arrivals := burst # rest\<rparr>"
  have "pressed (concat zs) = []" using z(1) by (simp only: pressed.simps)
  then have same: "codes ?k = []" "codes (k\<lparr>interrupts_enabled := True, arrivals := rest\<rparr>) = []" "flight ?k = flight k"
    using assms(3) z(2) by (simp_all add: scancodes_def in_flight_def)
  have len: "length (pressed burst) \<le> 100" using small z(2) by simp
  have sv': "served t burst (?k\<lparr>arrivals := rest\<rparr>) k'" using sv by simp
  note room = served_room [OF _ sv'] and calm = served_quiet [OF _ sv']
  have "calm t (k\<lparr>interrupts_enabled := True\<rparr>) k'"
    using calm by (simp add: quiet_def calm_def wake_load_def will_wake_def armed_def scancodes_def)
  with room same len z(2) hlt sv show ?thesis
    by (intro exI [of _ Woken] exI [of _ "[burst]"] exI [of _ k']) (simp add: served_def suffix_def)
qed

lemma sleep_rested:
  assumes "ready t k" and "arm t k" and "load k \<le> 1" and tq: "task_contents (task_queue k) = []" and "interrupts_enabled k"
    and small: "\<forall>b\<in>set (arrivals k). length (pressed b) \<le> 100"
  shows "\<exists>r k'. sleep_if_idle P k = Ret (r, k') \<and> rested t (arrivals k) k' \<and> flight k' = flight k \<and> shown [] k k' \<and>
    length (arrivals k') \<le> length (arrivals k) \<and> length (task_contents (task_queue k')) \<le> length (codes k') \<and>
    (r = Asleep \<longrightarrow> flight k' = [])"
proof -
  have c: "codes k = []" "load k \<le> 100" using assms(2,3) tq by (auto simp: armed_def)
  from interrupt_room [OF assms(1) c(2,1) small] obtain h k1 where
    k1: "interrupt_point P k = Ret k1" "calm t k k1" "flight k1 = flight k" "shown [] k k1" "length h \<le> 1"
    "codes k1 = pressed (concat h)" "h @ arrivals k1 = arrivals k"
    "length (task_contents (task_queue k1)) \<le> length (codes k1)" unfolding tq by auto
  note sl = sleep_law [OF k1(1)]
  have r: "ready t k1" "load k1 \<le> 1" "arm t k1" "set (task_contents (task_queue k1)) \<subseteq> {t}" "length (arrivals k1) \<le> length (arrivals k)"
    using k1(2) assms(2,3) tq arg_cong [OF k1(7), of length] by (auto simp: calm_def)
  show ?thesis
  proof (cases "task_contents (task_queue k1) = []")
    case False
    let ?k = "k1\<lparr>interrupts_enabled := True\<rparr>"
    have "rested t (arrivals k) ?k" using r k1(5-7) unfolding rested_def by (auto intro!: exI [of _ h])
    with False sl k1(3,4,8) r(5) show ?thesis by (intro exI [of _ Busy] exI [of _ ?k]) simp
  next
    case True
    then have c1: "codes k1 = []" using r(3) by (simp add: armed_def)
    let ?k = "k1\<lparr>interrupts_enabled := False\<rparr>"
    have "\<forall>b\<in>set (arrivals ?k). length (pressed b) \<le> 100" using small by (auto simp: k1(7) [symmetric])
    from hlt_room [of t ?k, OF _ _ _ this] r(1,2) c1 obtain z g k2 where
      k2: "enable_and_hlt P ?k = Ret (z, k2)" "calm t (k1\<lparr>interrupts_enabled := True\<rparr>) k2" "flight k2 = flight k1" "shown [] k1 k2"
      "length g \<le> 1" "codes k2 = pressed (concat g)" "suffix (g @ arrivals k2) (arrivals k1)"
      "length (task_contents (task_queue k2)) \<le> length (codes k2)" "z = Asleep \<longrightarrow> arrivals k2 = [] \<and> codes k2 = []"
      using True by auto
    have "suffix (g @ arrivals k2) (arrivals k)" using k2(7) k1(7) by (metis suffix_appendI)
    moreover from this have "length (arrivals k2) \<le> length (arrivals k)" using suffix_length_le by fastforce
    moreover have "ready t k2" "arm t k2" "set (task_contents (task_queue k2)) \<subseteq> {t}" "load k2 \<le> 1" "interrupts_enabled k2"
      using k2(2) r(2-4) by (auto simp: calm_def)
    ultimately show ?thesis using k2(1,3-6,8,9) k1(3) True sl shown_amid_quiet(1) [OF k1(4) k2(4)]
      by (intro exI [of _ z] exI [of _ k2]) (auto simp: rested_def in_flight_def intro!: exI [of _ g])
  qed
qed

text \<open>The ready tasks run within the window, the halt may go beyond.\<close>

lemma rested_ready:
  assumes poll: "polls_keyboard P K F pollf" "\<And>f cx k. local_code whole third (pollf f cx) k"
    and e: "keyboard_host F t kb e" and k: "rested t as k" and as: "paced as"
  shows "\<exists>cs e' k'. run_ready_tasks P pollf e k = Ret (e', k') \<and> keyboard_host F t (snd (decode_all K kb cs)) e' \<and>
    ready t k' \<and> arm t k' \<and> load k' \<le> 1 \<and> task_contents (task_queue k') = [] \<and> interrupts_enabled k' \<and>
    flight k = cs @ flight k' \<and> suffix (arrivals k') (arrivals k) \<and> length (arrivals k') \<le> length (arrivals k) - 1 \<and>
    shown (key_texts K kb cs) k k'"
proof -
  let ?w = "window k" and ?n = "length (pressed (concat (take 998 (arrivals k))))"
  obtain h where h: "length h \<le> 2" "codes k = pressed (concat h)" "suffix (h @ arrivals k) as"
    using k by (auto simp: rested_def)
  have few: "length (codes k) + ?n < 99" using paced_window [OF paced_suffix [OF h(3) as] h(1)] h(2) by simp
  have load: "load k \<le> 1" "interrupts_enabled ?w" using k by (auto simp: rested_def)
  have "sound t ?w" using k few load(1) by (simp add: sound_def rested_def in_flight_def window_arrivals)
  from ready_loop_keyboard [OF poll(1) e this] obtain cs e1 k1 where
    r: "ready_loop P pollf e ?w = Some (Ret (e1, k1))" "keyboard_host F t (snd (decode_all K kb cs)) e1" "sound t k1"
    "task_contents (task_queue k1) = []" "flight ?w = cs @ flight k1" "interrupts_enabled k1"
    "length (arrivals k1) \<le> length (arrivals ?w) - 1" "shown (key_texts K kb cs) ?w k1"
    "length (arrivals ?w) \<le> length (arrivals k1) + (1 + 5 * work ?w + 4 * length cs)"
    using load(2) by auto
  have "work ?w \<le> ?n + 1" using load(1) by (simp add: work_ahead_def wake_load_def window_arrivals)
  moreover have "length cs \<le> length (codes k) + ?n" using arg_cong [OF r(5), of length] by (simp add: in_flight_def window_arrivals)
  ultimately have n: "1 + 5 * work ?w + 4 * length cs < 998" using few by simp
  note loc = ready_loop_local [where pollf = pollf and P = P and e = e, OF poll(2)]
  have run: "run_ready_tasks P pollf e k = Ret (e1, longer (beyond k) k1)"
    unfolding run_ready_tasks_def by (rule window_run [OF loc _ r(9) n]) (simp add: r(1))
  have "suffix (arrivals k1) (arrivals ?w)" using local_second_D(1) [OF loc [of ?w], of e1 k1] r(1) by simp
  then have "suffix (arrivals (longer (beyond k) k1)) (arrivals k)" using window_suffix [of "[]" k1 k] by simp
  moreover have "flight k = flight ?w @ pressed (concat (beyond k))"
    using longer_simps(5) [of "beyond k" ?w] by (simp add: window_longer)
  moreover have "length (arrivals (longer (beyond k) k1)) \<le> length (arrivals k) - 1"
    using r(7) by (auto simp: window_arrivals beyond_def)
  moreover have "load k1 \<le> 1" using r(4) by (simp add: wake_load_def)
  ultimately show ?thesis using run r(2-6,8)
    by (intro exI [of _ cs] exI [of _ e1] exI [of _ "longer (beyond k) k1"]) (simp add: sound_def)
qed

text \<open>One turn of the loop, and how it goes on.\<close>

lemma rested_turn:
  assumes poll: "polls_keyboard P K F pollf" "\<And>f cx k. local_code whole third (pollf f cx) k"
    and e: "keyboard_host F t kb e" and k: "rested t as k" and as: "paced as"
  shows "\<exists>cs r e' k'. (\<forall>n. run_turns P pollf (Suc n) e k = (if r = Asleep then Ret (e', k') else run_turns P pollf n e' k')) \<and>
    keyboard_host F t (snd (decode_all K kb cs)) e' \<and>
    rested t (arrivals k) k' \<and> flight k = cs @ flight k' \<and> length (arrivals k') \<le> length (arrivals k) - 1 \<and>
    shown (key_texts K kb cs) k k' \<and> length (task_contents (task_queue k')) \<le> length (codes k') \<and> (r = Asleep \<longrightarrow> flight k' = [])"
proof -
  from rested_ready [OF assms] obtain cs e1 k1 where
    r: "run_ready_tasks P pollf e k = Ret (e1, k1)" "keyboard_host F t (snd (decode_all K kb cs)) e1"
    "ready t k1" "arm t k1" "load k1 \<le> 1" "task_contents (task_queue k1) = []" "interrupts_enabled k1" "flight k = cs @ flight k1"
    "suffix (arrivals k1) (arrivals k)" "length (arrivals k1) \<le> length (arrivals k) - 1" "shown (key_texts K kb cs) k k1" by blast
  have "suffix (arrivals k1) as" using k r(9) unfolding rested_def by (meson suffix_appendD suffix_order.trans)
  from paced_suffix [OF this as] have "\<forall>b\<in>set (arrivals k1). length (pressed b) \<le> 100" using paced_burst by blast
  from sleep_rested [OF r(3-7) this] obtain z k2 where
    k2: "sleep_if_idle P k1 = Ret (z, k2)" "rested t (arrivals k1) k2" "flight k2 = flight k1" "shown [] k1 k2"
    "length (arrivals k2) \<le> length (arrivals k1)" "length (task_contents (task_queue k2)) \<le> length (codes k2)"
    "z = Asleep \<longrightarrow> flight k2 = []" by blast
  have "rested t (arrivals k) k2" using k2(2) r(9) unfolding rested_def by (blast intro: suffix_order.trans)
  then show ?thesis using r(1,2,8,10) k2 shown_amid_quiet(2) [OF r(11) k2(4)]
    by (intro exI [of _ cs] exI [of _ z] exI [of _ e1] exI [of _ k2]) auto
qed

lemma run_turns_paced:
  assumes poll: "polls_keyboard P K F pollf" "\<And>f cx k. local_code whole third (pollf f cx) k"
    and "keyboard_host F t kb e" and "rested t as k" and "paced as"
  shows "\<exists>cs e' k'. run_turns P pollf n e k = Ret (e', k') \<and> keyboard_host F t (snd (decode_all K kb cs)) e' \<and>
    arm t k' \<and> flight k = cs @ flight k' \<and> (length (arrivals k) < n \<longrightarrow> flight k' = [] \<and> task_contents (task_queue k') = []) \<and>
    shown (key_texts K kb cs) k k'"
  using assms(3-)
proof (induction n arbitrary: kb e k as)
  case 0
  then show ?case by (intro exI [of _ "[]"] exI [of _ e] exI [of _ k]) (simp add: rested_def)
next
  case (Suc n)
  from rested_turn [OF poll Suc.prems] obtain cs z e1 k1 where
    r: "run_turns P pollf (Suc n) e k = (if z = Asleep then Ret (e1, k1) else run_turns P pollf n e1 k1)"
    "keyboard_host F t (snd (decode_all K kb cs)) e1" "rested t (arrivals k) k1"
    "flight k = cs @ flight k1" "length (arrivals k1) \<le> length (arrivals k) - 1" "shown (key_texts K kb cs) k k1"
    "length (task_contents (task_queue k1)) \<le> length (codes k1)" "z = Asleep \<longrightarrow> flight k1 = []" by blast
  have "paced (arrivals k)" using Suc.prems(2,3) paced_suffix suffix_appendD unfolding rested_def by blast
  from Suc.IH [OF r(2,3) this] obtain ds e' k' where
    IH: "run_turns P pollf n e1 k1 = Ret (e', k')" "keyboard_host F t (snd (decode_all K (snd (decode_all K kb cs)) ds)) e'"
    "arm t k'" "flight k1 = ds @ flight k'" "length (arrivals k1) < n \<longrightarrow> flight k' = [] \<and> task_contents (task_queue k') = []"
    "shown (key_texts K (snd (decode_all K kb cs)) ds) k1 k'" by blast
  show ?case
  proof (cases "z = Asleep")
    case True
    with r show ?thesis by (intro exI [of _ cs] exI [of _ e1] exI [of _ k1]) (auto simp: rested_def in_flight_def)
  next
    case False
    have "flight k' = [] \<and> task_contents (task_queue k') = []" if "length (arrivals k) < Suc n"
    proof (cases n)
      case 0
      with that r(3,7) IH(1) show ?thesis by (auto simp: rested_def in_flight_def)
    next
      case (Suc m)
      with that r(5) IH(5) show ?thesis by auto
    qed
    with False show ?thesis
      using IH(1-4) r(1,4) decode_all_append [of K kb cs ds] shown_amid_trans [OF r(6) IH(6)]
      by (intro exI [of _ "cs @ ds"] exI [of _ e'] exI [of _ k']) (simp add: key_texts_append)
  qed
qed

end

subsection \<open>Properties\<close>

lemma pressed_map [simp]: "pressed (map KeyPressed cs) = cs"
  by (induction cs) simp_all

text \<open>
  C3. Everything typed is printed, for ever. An executor that runs the keyboard task, from
  a state in which the task sleeps correctly, processes every schedule of keyboard and
  timer interrupts, however long, in which fewer than 99 scancodes arrive at any 1000
  points in a row (those in the queue counted as one point): after any number of turns
  of \<open>run\<close>, halts included, nothing has panicked, a prefix of the scancodes has been decoded and printed
  in the order of arrival, each once, with nothing on the screen in between but the dots
  of the timer, the rest is still in flight, and the task is asleep with its waker
  registered or queued. After one more turn than the schedule has points, or when the
  processor has gone to sleep for ever before, no scancode and no wake-up is left.
\<close>

theorem executor_prints_all_keys:
  assumes "kernel_prims P scon scap tcon tcap slot" and "keyboard_executor t kb e"
    and "stream_ready P scap tcap slot t k" and "armed P scon tcon slot t k"
    and "set (tcon (task_queue k)) \<subseteq> {t}" and "interrupts_enabled k" and "wake_load tcon slot k \<le> 1"
    and "paced (map KeyPressed (scancodes P scon k) # arrivals k)"
  shows "\<exists>cs e' k'. run_turns P (print_keypresses P K) n e k = Ret (e', k') \<and>
    in_flight P scon k = cs @ in_flight P scon k' \<and>
    (length (arrivals k) < n \<longrightarrow> in_flight P scon k' = [] \<and> tcon (task_queue k') = []) \<and>
    shown_amid {tick_text} (vga_ops P) (key_texts K kb cs) (vga_writer k) (vga_writer k') \<and>
    keyboard_executor t (snd (decode_all K kb cs)) e' \<and> armed P scon tcon slot t k'"
proof -
  have "kernel_prims.rested P scon scap tcon tcap slot t (map KeyPressed (scancodes P scon k) # arrivals k) k"
    using assms(3-7) unfolding kernel_prims.rested_def [OF assms(1)]
    by (auto intro!: exI [of _ "[map KeyPressed (scancodes P scon k)]"])
  from kernel_prims.run_turns_paced [OF assms(1) polls_keyboard_id print_keypresses_local assms(2) this assms(8), of K n]
  show ?thesis by blast
qed

text \<open>Bursts with a pause of 999 points after each.\<close>

definition spread :: "irq list list \<Rightarrow> irq list list" where
  "spread bs = concat (map (\<lambda>b. b # replicate 999 []) bs)"

lemma spread_take: "j \<le> 1000 \<Longrightarrow> \<exists>b\<in>set bs \<union> {[]}. pressed (concat (take j (spread bs))) = pressed b"
proof (cases "j = 0 \<or> bs = []")
  case False
  assume "j \<le> 1000"
  moreover obtain b bs' where "bs = b # bs'" using False by (cases bs) auto
  ultimately show ?thesis using False by (cases j) (auto simp: spread_def)
qed (auto simp: spread_def)

lemma spread_window: "\<exists>b\<in>set bs \<union> {[]}. pressed (concat (take 1000 (drop j (spread bs)))) = pressed b"
proof (induction bs arbitrary: j)
  case (Cons b bs)
  have split: "spread (b # bs) = (b # replicate 999 []) @ spread bs" by (simp add: spread_def)
  show ?case
  proof (cases "j = 0 \<or> 1000 \<le> j")
    case True
    moreover have "drop j (spread (b # bs)) = drop (j - 1000) (spread bs)" if "1000 \<le> j"
      using that unfolding split drop_append by simp
    ultimately show ?thesis using Cons.IH [of "j - 1000"] by (auto simp: split)
  next
    case False
    then have "pressed (concat (take 1000 (drop j (spread (b # bs))))) = pressed (concat (take j (spread bs)))"
      by (cases j) (simp_all add: split)
    with spread_take [of j bs] False show ?thesis by auto
  qed
qed (simp add: spread_def)

lemma spread_paced:
  assumes "\<forall>b\<in>set bs. length (pressed b) < 99"
  shows "paced (spread bs)"
proof -
  have "length (pressed (concat (take 1000 (drop j (spread bs))))) < 99" for j
    using spread_window [of bs j] assms by auto
  then show ?thesis by (simp add: paced_def)
qed

lemma spread_pressed: "pressed (concat (spread bs)) = pressed (concat bs)"
proof (induction bs)
  case (Cons b bs)
  have "concat (replicate 999 []) = []" by (simp add: concat_replicate_trivial)
  with Cons show ?case by (simp add: spread_def)
qed (simp add: spread_def)

text \<open>Three bursts of 98 keys are more than the queue holds; all of them are printed.\<close>

theorem executor_prints_all_keys_witness:
  "\<exists>as e' k'. length (pressed (concat as)) = 294 \<and>
    run_turns list_prims (print_keypresses list_prims echo_keyboard) (Suc (length as))
      \<lparr>tasks = [7 \<mapsto> \<lparr>task_id = 7, future = KeypressesWait ()\<rparr>], waker_cache = Map.empty\<rparr>
      ((example_kernel as)\<lparr>keyboard_waker := Some (TaskWaker 7)\<rparr>) = Ret (e', k') \<and>
    in_flight list_prims snd k' = [] \<and>
    shown_amid {tick_text} vga_cell (replicate 294 [[65]]) (writer_static (replicate 25 (replicate 80 (0, 0)))) (vga_writer k')"
proof -
  let ?bs = "replicate 3 (replicate 98 (KeyPressed 65))" and ?as = "replicate 999 [] @ spread (replicate 3 (replicate 98 (KeyPressed 65)))"
  let ?k = "(example_kernel ?as)\<lparr>keyboard_waker := Some (TaskWaker 7)\<rparr>"
  let ?e = "\<lparr>tasks = [7 \<mapsto> \<lparr>task_id = 7, future = KeypressesWait ()\<rparr>], waker_cache = Map.empty\<rparr>"
  have rep: "pressed (replicate n (KeyPressed c)) = replicate n c" for n c by (induction n) simp_all
  have keys: "pressed (concat ?as) = replicate 294 65"
    by (simp add: spread_pressed numeral_3_eq_3 rep concat_replicate_trivial replicate_add [symmetric])
  have f: "in_flight list_prims snd ?k = replicate 294 65" "arrivals ?k = ?as" "scancodes list_prims snd ?k = []"
    "vga_writer ?k = writer_static (replicate 25 (replicate 80 (0, 0)))" "vga_ops list_prims = vga_cell"
    using keys by (simp_all add: in_flight_def scancodes_def example_kernel_def list_prims_def option_cell_def)
  have d: "key_texts echo_keyboard () (replicate n 65) = replicate n [[65]]" for n
    by (induction n) (simp_all add: key_texts_def decode_def echo_keyboard_def case_prod_beta)
  have b: "stream_ready list_prims fst fst id 7 ?k" "armed list_prims snd snd id 7 ?k" "set (snd (task_queue ?k)) \<subseteq> {7}"
    "interrupts_enabled ?k" "wake_load snd id ?k \<le> 1"
    using example_ready [of 7 ?as]
    by (simp_all add: stream_ready_def armed_def scancodes_def wake_load_def example_kernel_def list_prims_def option_cell_def)
  have a: "keyboard_executor 7 () ?e" by (simp add: keyboard_host_def)
  have "map KeyPressed (scancodes list_prims snd ?k) # arrivals ?k = spread ([] # ?bs)"
    unfolding f(2,3) by (simp add: spread_def)
  then have "paced (map KeyPressed (scancodes list_prims snd ?k) # arrivals ?k)"
    using spread_paced [of "[] # ?bs"] by (simp add: rep)
  from executor_prints_all_keys [OF list_prims.kernel_prims_axioms a b this, of echo_keyboard "Suc (length ?as)"]
  obtain cs e' k' where "run_turns list_prims (print_keypresses list_prims echo_keyboard) (Suc (length ?as)) ?e ?k = Ret (e', k')"
    "in_flight list_prims snd k' = []" "cs = replicate 294 65"
    "shown_amid {tick_text} vga_cell (key_texts echo_keyboard () cs) (writer_static (replicate 25 (replicate 80 (0, 0)))) (vga_writer k')"
    unfolding f by auto
  then show ?thesis using keys d by (intro exI [of _ ?as]) auto
qed

end
