(* ===== verification/Main_Tasks.thy ===== *)
theory Main_Tasks
  imports Key_Rate
begin

text \<open>
  The tasks of \<open>kernel_main\<close>, \<open>src/main.rs\<close>: \<open>async_number\<close>, \<open>example_task\<close> and
  the executor that runs it beside the keyboard task, from the moment the executor is
  created. The scancode stream does not exist until the keyboard task is polled for the
  first time, so what is typed before is reported and dropped.
\<close>

text \<open>
  An \<open>async fn\<close> without an \<open>await\<close> is ready at its first poll. The future of
  \<open>example_task\<close> runs to its end in its first poll, unless that of
  \<open>async_number\<close> is pending.
\<close>

definition async_number :: "u32 poll" where
  "async_number = Ready 89"

datatype 'kb main_future = ExampleStart | ExampleDone | KeyboardTask "'kb keypresses"

fun main_poll ::
  "('q, 'cell, 'aw, 'tq, 'c) prims \<Rightarrow> ('kb, 'ev, 'ch, 'kc) keyboard_ops \<Rightarrow>
   ('kb main_future, ('cell, 'aw, 'tq, 'c) kernel) poll_fn" where
  "main_poll P K ExampleStart cx k =
     (case async_number of
        Pending \<Rightarrow> Ret (Pending, ExampleStart, k)
      | Ready number \<Rightarrow>
          and_then (println (vga_ops P) (vga_writer k) [str_bytes ''async number: '', decimal (unat number)]) (\<lambda>w.
          Ret (Ready (), ExampleDone, k\<lparr>vga_writer := w\<rparr>)))"
| "main_poll P K ExampleDone cx k = Panic (ExplicitPanic ''`async fn` resumed after completion'')"
| "main_poll P K (KeyboardTask f) cx k =
     and_then (print_keypresses P K f cx k) (\<lambda>(r, f, k). Ret (r, KeyboardTask f, k))"

text \<open>\<open>NEXT_ID\<close> of \<open>TaskId::new\<close> starts at 0.\<close>

definition spawn_tasks ::
  "('q, 'cell, 'aw, 'tq, 'c) prims \<Rightarrow> ('cell, 'aw, 'tq, 'c) kernel \<Rightarrow>
   ('kb main_future executor \<times> ('cell, 'aw, 'tq, 'c) kernel) outcome" where
  "spawn_tasks P k =
     (let (executor, k) = executor_new P k;
          (task, next_id) = task_new ExampleStart 0
      in and_then (spawn P task executor k) (\<lambda>(executor, k).
         let (task, next_id) = task_new (KeyboardTask KeypressesStart) next_id
         in spawn P task executor k))"

text \<open>\<open>executor.run()\<close>, which does not return, after \<open>n\<close> turns of its loop.\<close>

definition main_tasks ::
  "('q, 'cell, 'aw, 'tq, 'c) prims \<Rightarrow> ('kb, 'ev, 'ch, 'kc) keyboard_ops \<Rightarrow> nat \<Rightarrow> ('cell, 'aw, 'tq, 'c) kernel \<Rightarrow>
   ('kb main_future executor \<times> ('cell, 'aw, 'tq, 'c) kernel) outcome" where
  "main_tasks P K n k = and_then (spawn_tasks P k) (\<lambda>(executor, k). run_turns P (main_poll P K) n executor k)"

text \<open>The kernel's shared state when \<open>kernel_main\<close> creates the executor.\<close>

definition booted ::
  "('q, 'cell, 'aw, 'tq, 'c) prims \<Rightarrow> ('aw \<Rightarrow> waker option) \<Rightarrow> ('cell, 'aw, 'tq, 'c) kernel \<Rightarrow> bool" where
  "booted P slot k \<longleftrightarrow> try_get (cell_ops P) (scancode_queue k) = None \<and> slot (keyboard_waker k) = None \<and>
     writer_wf (vga_writer k) \<and> interrupts_enabled k"

text \<open>What the interrupt handler prints for scancodes that no stream takes.\<close>

definition warning_text :: "u8 list list" where
  "warning_text = [str_bytes ''WARNING: scancode queue uninitialized'', [0x0A]]"

definition warnings :: "irq list \<Rightarrow> u8 list list list" where
  "warnings burst = map (\<lambda>_. warning_text) (pressed burst)"

text \<open>The interrupts at the \<open>n\<close>-th point of a schedule.\<close>

definition burst_at :: "nat \<Rightarrow> irq list list \<Rightarrow> irq list" where
  "burst_at n as = (if n < length as then as ! n else [])"

lemma burst_at_Nil [simp]: "burst_at n [] = []"
  by (simp add: burst_at_def)

lemma burst_at_tl: "burst_at n (tl as) = burst_at (Suc n) as"
  by (cases as) (simp_all add: burst_at_def)

definition async_text :: "u8 list list" where
  "async_text = [str_bytes ''async number: '', decimal 89, [0x0A]]"

lemma polls_keyboard_main: "polls_keyboard P K KeyboardTask (main_poll P K)"
  by (simp add: polls_keyboard_def)

context kernel_prims
begin

text \<open>Interrupts before the stream exists only print.\<close>

lemma early_irq:
  assumes "try_get (cell_ops P) (scancode_queue k) = None" and "writer_wf (vga_writer k)"
  shows "\<exists>w. serve_irq P i k = Ret (k\<lparr>vga_writer := w\<rparr>) \<and> writer_wf w \<and> shown (warnings [i]) k (k\<lparr>vga_writer := w\<rparr>)"
proof (cases i)
  case TimerTick
  from print_ready [OF assms(2), of tick_text] obtain w where w: "print_args (vga_ops P) (vga_writer k) tick_text = Ret w" "writer_wf w"
    by blast
  then have "shown [] k (k\<lparr>vga_writer := w\<rparr>)" by (intro shown_amid_noise [of _ _ "[tick_text]"]) simp_all
  with w TimerTick show ?thesis by (auto simp: kernel_print_def warnings_def tick_text_def)
next
  case (KeyPressed c)
  from print_ready [OF assms(2), of warning_text] obtain w where
    w: "print_args (vga_ops P) (vga_writer k) warning_text = Ret w" "writer_wf w" by blast
  then have "shown [warning_text] k (k\<lparr>vga_writer := w\<rparr>)" by (intro shown_amid_texts) simp
  with w KeyPressed assms(1) show ?thesis
    by (auto simp: add_scancode_def kernel_println_def println_def warnings_def warning_text_def)
qed

lemma early_burst:
  assumes "try_get (cell_ops P) (scancode_queue k) = None" and "writer_wf (vga_writer k)"
  shows "\<exists>w. for_each burst (serve_irq P) k = Ret (k\<lparr>vga_writer := w\<rparr>) \<and> writer_wf w \<and>
    shown (warnings burst) k (k\<lparr>vga_writer := w\<rparr>)"
  using assms
proof (induction burst arbitrary: k)
  case Nil
  then show ?case by (intro exI [of _ "vga_writer k"]) (simp add: warnings_def)
next
  case (Cons i burst)
  from early_irq [OF Cons.prems, of i] obtain w where
    w: "serve_irq P i k = Ret (k\<lparr>vga_writer := w\<rparr>)" "writer_wf w" "shown (warnings [i]) k (k\<lparr>vga_writer := w\<rparr>)" by blast
  from Cons.IH [of "k\<lparr>vga_writer := w\<rparr>"] Cons.prems(1) w(2) obtain w' where
    "for_each burst (serve_irq P) (k\<lparr>vga_writer := w\<rparr>) = Ret (k\<lparr>vga_writer := w'\<rparr>)" "writer_wf w'"
    "shown (warnings burst) (k\<lparr>vga_writer := w\<rparr>) (k\<lparr>vga_writer := w'\<rparr>)" by auto
  moreover have "warnings (i # burst) = warnings [i] @ warnings burst" by (simp add: warnings_def pressed_Cons [of i burst])
  ultimately show ?case using w(1) shown_amid_trans [OF w(3)] by (intro exI [of _ w']) simp
qed

lemma early_interrupt:
  assumes "booted P slot k"
  shows "\<exists>w. interrupt_point P k = Ret (k\<lparr>arrivals := tl (arrivals k), vga_writer := w\<rparr>) \<and>
    booted P slot (k\<lparr>arrivals := tl (arrivals k), vga_writer := w\<rparr>) \<and>
    shown (warnings (burst_at 0 (arrivals k))) k (k\<lparr>vga_writer := w\<rparr>)"
proof (cases "arrivals k")
  case Nil
  with assms show ?thesis
    by (intro exI [of _ "vga_writer k"]) (simp add: interrupt_point_def booted_def warnings_def)
next
  case (Cons burst rest)
  with early_burst [of "k\<lparr>arrivals := rest\<rparr>" burst] assms show ?thesis
    by (auto simp: interrupt_point_def booted_def burst_at_def)
qed

text \<open>The tasks are local code.\<close>

lemma main_poll_local: "local_code whole third (main_poll P K f cx) k"
proof (cases f)
  case ExampleStart
  have "local_code whole third (main_poll P K ExampleStart cx) k"
    by (rule local_plain) (auto simp: views longer_upd async_number_def)
  with ExampleStart show ?thesis by simp
next
  case (KeyboardTask g)
  have "local_code whole third (\<lambda>k. and_then (print_keypresses P K g cx k) (\<lambda>(r, f, k). Ret (r, KeyboardTask f, k))) k"
    by (rule local_bind_triple [OF print_keypresses_local]) simp
  with KeyboardTask show ?thesis by (simp add: main_poll.simps [abs_def])
qed (simp add: main_poll.simps [abs_def])

text \<open>From the creation of the executor to the first time its queue is empty.\<close>

definition first_ready ::
  "('kb, 'ev, 'ch, 'kc) keyboard_ops \<Rightarrow> ('cell, 'aw, 'tq, 'c) kernel \<Rightarrow>
   ('kb main_future executor \<times> ('cell, 'aw, 'tq, 'c) kernel) outcome" where
  "first_ready K k = and_then (spawn_tasks P k) (\<lambda>(e, k). run_ready_tasks P (main_poll P K) e k)"

lemma first_ready_local: "local_code whole second (first_ready K) k"
proof -
  have spawn: "local_code whole second (spawn P t e) k" for t e k
    by (rule local_plain) (auto simp: views longer_upd spawn_def Let_def split: if_splits)
  have "local_code whole second (\<lambda>k. spawn P t e (k\<lparr>task_queue := tq\<rparr>)) k" for t e tq
    by (rule local_upd [OF spawn]) (simp_all add: longer_upd)
  from local_bind_pair [OF this spawn] have "local_code whole second (spawn_tasks P) k"
    by (simp add: spawn_tasks_def [abs_def] executor_new_def task_new_def task_id_new_def Let_def)
  then show ?thesis
    unfolding first_ready_def [abs_def] run_ready_tasks_def
    by (rule local_bind_pair [OF _ ready_loop_local [OF main_poll_local]])
qed

lemma main_tasks_first:
  assumes "first_ready K k = Ret (e, k1)" and "sleep_if_idle P k1 = Ret (r, k2)"
  shows "main_tasks P K (Suc n) k = (if r = Asleep then Ret (e, k2) else run_turns P (main_poll P K) n e k2)"
  using assms by (auto simp: main_tasks_def first_ready_def and_then_assoc)

lemma spawn_tasks_law:
  "\<exists>tq. spawn_tasks P k = Ret (\<lparr>tasks = [0 \<mapsto> \<lparr>task_id = 0, future = ExampleStart\<rparr>,
      1 \<mapsto> \<lparr>task_id = 1, future = KeyboardTask KeypressesStart\<rparr>], waker_cache = Map.empty\<rparr>, k\<lparr>task_queue := tq\<rparr>) \<and>
    task_contents tq = [0, 1] \<and> task_capacity tq = 100"
proof -
  let ?q = "queue_new (task_ops P) 100"
  have q: "task_contents ?q = []" "task_capacity ?q = 100" using tasks.queue_new_law [of 100] by auto
  obtain q1 where q1: "queue_push (task_ops P) 0 ?q = Some q1" "task_contents q1 = [0]" "task_capacity q1 = 100"
    using tasks.queue_push_ok [of ?q 0] q by auto
  obtain q2 where q2: "queue_push (task_ops P) 1 q1 = Some q2" "task_contents q2 = [0, 1]" "task_capacity q2 = 100"
    using tasks.queue_push_ok [of q1 1] q1 by auto
  from q1 q2 show ?thesis
    by (intro exI [of _ q2]) (simp add: spawn_tasks_def executor_new_def task_new_def task_id_new_def spawn_def Let_def)
qed

text \<open>The turn of the loop in which \<open>example_task\<close> runs to its end.\<close>

lemma example_turn:
  assumes irq: "interrupt_point P k = Ret k1" and wf: "writer_wf (vga_writer k1)"
    and tq: "task_contents (task_queue k1) = t # ts" and t: "tasks e t = Some \<lparr>task_id = t, future = ExampleStart\<rparr>"
    and wc: "waker_cache e t = None"
  shows "\<exists>tq w. ready_loop P (main_poll P K) e k =
      ready_loop P (main_poll P K) (e\<lparr>tasks := (tasks e)(t := None)\<rparr>) (k1\<lparr>task_queue := tq, vga_writer := w\<rparr>) \<and>
    task_contents tq = ts \<and> task_capacity tq = task_capacity (task_queue k1) \<and> writer_wf w \<and>
    shown [async_text] k1 (k1\<lparr>vga_writer := w\<rparr>)"
proof -
  obtain q where q: "queue_pop (task_ops P) (task_queue k1) = Some (t, q)" "task_contents q = ts"
    "task_capacity q = task_capacity (task_queue k1)" using tasks.queue_pop_ok [OF tq] by blast
  obtain w where w: "print_args (vga_ops P) (vga_writer k1) async_text = Ret w" "writer_wf w"
    using print_ready [OF wf] by blast
  have "(waker_cache e)(t := None) = waker_cache e" using wc by (simp add: fun_upd_idem_iff)
  then have "ready_turn (main_poll P K) t e (k1\<lparr>task_queue := q\<rparr>) (e\<lparr>tasks := (tasks e)(t := None)\<rparr>) (k1\<lparr>task_queue := q, vga_writer := w\<rparr>)"
    using turn_ready [OF t, of "main_poll P K" "k1\<lparr>task_queue := q\<rparr>"] w(1)
    by (simp add: task_poll_def async_number_def async_text_def println_def)
  from ready_loop_turn [OF irq q(1) this] have "ready_loop P (main_poll P K) e k =
      ready_loop P (main_poll P K) (e\<lparr>tasks := (tasks e)(t := None)\<rparr>) (k1\<lparr>task_queue := q, vga_writer := w\<rparr>)" .
  moreover have "shown [async_text] k1 (k1\<lparr>vga_writer := w\<rparr>)" using w(1) by (intro shown_amid_texts) simp
  ultimately show ?thesis using q(2,3) w(2) by blast
qed

text \<open>The turn in which the keyboard task creates the stream and first waits.\<close>

lemma keyboard_start_turn:
  assumes irq: "interrupt_point P k = Ret k1" and b: "booted P slot k1"
    and tq: "task_contents (task_queue k1) = [t]" "task_capacity (task_queue k1) = 100"
    and e: "tasks e = [t \<mapsto> \<lparr>task_id = t, future = KeyboardTask KeypressesStart\<rparr>]" "waker_cache e t = None"
    and len: "length (pressed (concat (arrivals k1))) < 99"
  shows "\<exists>cs e2 k2. ready_loop P (main_poll P K) e k = ready_loop P (main_poll P K) e2 k2 \<and>
    keyboard_host KeyboardTask t (snd (decode_all K (keyboard_new K) cs)) e2 \<and> sound t k2 \<and>
    pressed (concat (arrivals k1)) = cs @ flight k2 \<and> interrupts_enabled k2 \<and> suffix (arrivals k2) (arrivals k1) \<and>
    shown (key_texts K (keyboard_new K) cs) k1 k2 \<and>
    work k2 \<le> length (pressed (concat (arrivals k1))) \<and> length (arrivals k1) \<le> length (arrivals k2) + 4 * (length cs + 1)"
proof -
  obtain q where q: "queue_pop (task_ops P) (task_queue k1) = Some (t, q)" "task_contents q = []" "task_capacity q = 100"
    using tasks.queue_pop_ok [OF tq(1)] tq(2) by auto
  obtain c where c: "try_init_once (cell_ops P) (queue_new (scan_ops P) 100) (scancode_queue k1) = Some c"
    "try_get (cell_ops P) c = Some (queue_new (scan_ops P) 100)"
    using once_init_law b by (auto simp: booted_def)
  let ?k = "k1\<lparr>task_queue := q, scancode_queue := c\<rparr>"
  have r: "ready t ?k" "load ?k = 0" "flight ?k = pressed (concat (arrivals k1))"
    using b q c(2) scan.queue_new_law [of 100]
    by (auto simp: booted_def stream_ready_def wake_load_def in_flight_def scancodes_def)
  have "load ?k + length (flight ?k) < 100" using r(2,3) len by simp
  from keypresses_loop_law [OF r(1) this, of K "keyboard_new K"] obtain cs k2 where
    k2: "keypresses_loop P K (TaskWaker t) (keyboard_new K) ?k =
      Some (Ret (Pending, KeypressesWait (snd (decode_all K (keyboard_new K) cs)), k2))"
    "flight ?k = cs @ flight k2" "arm t k2" "ready t k2" "load k2 \<le> load ?k + length cs + 1"
    "work k2 \<le> work ?k"
    "set (task_contents (task_queue k2)) \<subseteq> insert t (set (task_contents (task_queue ?k)))"
    "interrupts_enabled k2 = interrupts_enabled ?k"
    "shown (key_texts K (keyboard_new K) cs) ?k k2" "length (arrivals ?k) \<le> length (arrivals k2) + 4 * (length cs + 1)" by blast
  have "suffix (arrivals k2) (arrivals k1)"
    using local_third_D(1) [OF keypresses_loop_local, of P K "TaskWaker t" "keyboard_new K" ?k] k2(1) by simp
  let ?kb = "snd (decode_all K (keyboard_new K) cs)"
  let ?e = "e\<lparr>waker_cache := (waker_cache e)(t \<mapsto> TaskWaker t),
    tasks := (tasks e)(t \<mapsto> \<lparr>task_id = t, future = KeyboardTask (KeypressesWait ?kb)\<rparr>)\<rparr>"
  have "ready_turn (main_poll P K) t e (k1\<lparr>task_queue := q\<rparr>) ?e k2"
    using turn_pending [of e t _ "main_poll P K" "k1\<lparr>task_queue := q\<rparr>"] e c(1) k2(1)
    by (simp add: task_poll_def task_waker_new_def scancode_stream_new_def)
  from ready_loop_turn [OF irq q(1) this] have "ready_loop P (main_poll P K) e k = ready_loop P (main_poll P K) ?e k2" .
  moreover note \<open>suffix (arrivals k2) (arrivals k1)\<close>
  moreover have "keyboard_host KeyboardTask t ?kb ?e" using e by (simp add: keyboard_host_def)
  moreover have "sound t k2" using k2(2-5,7) r(2,3) len q(2) by (auto simp: sound_def)
  moreover have "work k2 \<le> length (pressed (concat (arrivals k1)))" using k2(6) q(2) by (simp add: work_ahead_def)
  ultimately show ?thesis using k2(2,8-10) r(3) b
    by (intro exI [of _ cs] exI [of _ ?e] exI [of _ k2]) (auto simp: booted_def)
qed

text \<open>From the spawned tasks to the first wait of the keyboard task.\<close>

lemma main_start:
  fixes K :: "('kb, 'ev, 'ch, 'kc) keyboard_ops"
  assumes b: "booted P slot k" and len: "length (pressed (concat (drop 2 (arrivals k)))) < 99"
  shows "\<exists>e k1 cs e2 k2. spawn_tasks P k = Ret (e, k1) \<and>
    ready_loop P (main_poll P K) e k1 = ready_loop P (main_poll P K) e2 k2 \<and>
    keyboard_host KeyboardTask 1 (snd (decode_all K (keyboard_new K) cs)) e2 \<and> sound 1 k2 \<and>
    pressed (concat (drop 2 (arrivals k))) = cs @ flight k2 \<and> interrupts_enabled k2 \<and>
    suffix (arrivals k2) (drop 2 (arrivals k)) \<and>
    shown (warnings (burst_at 0 (arrivals k)) @ [async_text] @ warnings (burst_at 1 (arrivals k)) @
      key_texts K (keyboard_new K) cs) k k2 \<and>
    work k2 \<le> length (pressed (concat (drop 2 (arrivals k)))) \<and> length (arrivals k) \<le> length (arrivals k2) + 4 * (length cs + 1) + 2"
proof -
  let ?poll = "main_poll P K" and ?as = "arrivals k"
  define e :: "'kb main_future executor" where "e = \<lparr>tasks = [0 \<mapsto> \<lparr>task_id = 0, future = ExampleStart\<rparr>,
      1 \<mapsto> \<lparr>task_id = 1, future = KeyboardTask KeypressesStart\<rparr>], waker_cache = Map.empty\<rparr>"
  obtain tq where s: "spawn_tasks P k = Ret (e, k\<lparr>task_queue := tq\<rparr>)" "task_contents tq = [0, 1]" "task_capacity tq = 100"
    unfolding e_def using spawn_tasks_law by blast
  have e: "tasks e 0 = Some \<lparr>task_id = 0, future = ExampleStart\<rparr>"
    "(tasks e)(0 := None) = [1 \<mapsto> \<lparr>task_id = 1, future = KeyboardTask KeypressesStart\<rparr>]" "waker_cache e = Map.empty"
    by (auto simp: e_def fun_eq_iff)
  let ?k = "k\<lparr>task_queue := tq\<rparr>" and ?e = "e\<lparr>tasks := (tasks e)(0 := None)\<rparr>"
  have "booted P slot ?k" using b by (simp add: booted_def)
  from early_interrupt [OF this] obtain w1 where w1: "interrupt_point P ?k = Ret (?k\<lparr>arrivals := tl ?as, vga_writer := w1\<rparr>)"
    "booted P slot (?k\<lparr>arrivals := tl ?as, vga_writer := w1\<rparr>)" "shown (warnings (burst_at 0 ?as)) k (k\<lparr>vga_writer := w1\<rparr>)"
    by auto
  from example_turn [OF w1(1), of 0 "[1]" e K] s(2,3) e w1(2) obtain tq2 w2 where
    t1: "ready_loop P ?poll e ?k = ready_loop P ?poll ?e (k\<lparr>arrivals := tl ?as, task_queue := tq2, vga_writer := w2\<rparr>)"
    and q2: "task_contents tq2 = [1]" "task_capacity tq2 = 100" "writer_wf w2"
      "shown [async_text] (k\<lparr>vga_writer := w1\<rparr>) (k\<lparr>vga_writer := w2\<rparr>)" by (auto simp: booted_def)
  let ?k2 = "k\<lparr>arrivals := tl ?as, task_queue := tq2, vga_writer := w2\<rparr>"
  have "booted P slot ?k2" using w1(2) q2(3) by (simp add: booted_def)
  from early_interrupt [OF this] obtain w3 where w3: "interrupt_point P ?k2 = Ret (?k2\<lparr>arrivals := drop 2 ?as, vga_writer := w3\<rparr>)"
    "booted P slot (?k2\<lparr>arrivals := drop 2 ?as, vga_writer := w3\<rparr>)"
    "shown (warnings (burst_at 1 ?as)) (k\<lparr>vga_writer := w2\<rparr>) (k\<lparr>vga_writer := w3\<rparr>)"
    by (auto simp: burst_at_tl numeral_2_eq_2 drop_Suc tl_drop)
  from keyboard_start_turn [OF w3(1,2), of 1 ?e K] q2(1,2) e(2,3) len obtain cs e2 k4 where
    t2: "ready_loop P ?poll ?e ?k2 = ready_loop P ?poll e2 k4"
    "keyboard_host KeyboardTask 1 (snd (decode_all K (keyboard_new K) cs)) e2" "sound 1 k4"
    "pressed (concat (drop 2 ?as)) = cs @ flight k4" "interrupts_enabled k4" "suffix (arrivals k4) (drop 2 ?as)"
    "shown (key_texts K (keyboard_new K) cs) (k\<lparr>vga_writer := w3\<rparr>) k4"
    "work k4 \<le> length (pressed (concat (drop 2 ?as)))" "length (drop 2 ?as) \<le> length (arrivals k4) + 4 * (length cs + 1)" by auto
  from shown_amid_trans [OF w1(3) shown_amid_trans [OF q2(4) shown_amid_trans [OF w3(3) t2(7)]]] s(1) t1 t2(1-6,8,9)
  show ?thesis by (intro exI [of _ e] exI [of _ ?k] exI [of _ cs] exI [of _ e2] exI [of _ k4]) simp
qed

text \<open>The first turn of the executor's loop until its halt, on a schedule with few scancodes.\<close>

lemma main_first_ready:
  fixes K :: "('kb, 'ev, 'ch, 'kc) keyboard_ops"
  assumes "booted P slot k" and len: "length (pressed (concat (drop 2 (arrivals k)))) < 99"
  shows "\<exists>cs e' k'. first_ready K k = Ret (e', k') \<and>
    keyboard_host KeyboardTask 1 (snd (decode_all K (keyboard_new K) cs)) e' \<and> sound 1 k' \<and>
    task_contents (task_queue k') = [] \<and> interrupts_enabled k' \<and>
    pressed (concat (drop 2 (arrivals k))) = cs @ flight k' \<and>
    shown (warnings (burst_at 0 (arrivals k)) @ [async_text] @ warnings (burst_at 1 (arrivals k)) @
      key_texts K (keyboard_new K) cs) k k' \<and>
    suffix (arrivals k') (drop 2 (arrivals k)) \<and> length (arrivals k) \<le> length (arrivals k') + 900"
proof -
  let ?poll = "main_poll P K" and ?kb = "\<lambda>cs. snd (decode_all K (keyboard_new K) cs)" and ?as = "drop 2 (arrivals k)"
  from main_start [OF assms, of K] obtain e k1 cs e2 k2 where
    m: "spawn_tasks P k = Ret (e, k1)" "ready_loop P ?poll e k1 = ready_loop P ?poll e2 k2"
    "keyboard_host KeyboardTask 1 (?kb cs) e2" "sound 1 k2" "pressed (concat ?as) = cs @ flight k2"
    "interrupts_enabled k2" "suffix (arrivals k2) ?as"
    "shown (warnings (burst_at 0 (arrivals k)) @ [async_text] @ warnings (burst_at 1 (arrivals k)) @
      key_texts K (keyboard_new K) cs) k k2"
    "work k2 \<le> length (pressed (concat ?as))" "length (arrivals k) \<le> length (arrivals k2) + 4 * (length cs + 1) + 2" by blast
  from ready_loop_keyboard [OF polls_keyboard_main m(3,4), of K] obtain ds e' k' where
    r: "ready_loop P ?poll e2 k2 = Some (Ret (e', k'))" "keyboard_host KeyboardTask 1 (snd (decode_all K (?kb cs) ds)) e'"
    "sound 1 k'" "task_contents (task_queue k') = []" "flight k2 = ds @ flight k'" "interrupts_enabled k'"
    "shown (key_texts K (?kb cs) ds) k2 k'" "length (arrivals k2) \<le> length (arrivals k') + (1 + 5 * work k2 + 4 * length ds)"
    using m(6) by auto
  have "first_ready K k = Ret (e', k')" using m(1,2) r(1) by (simp add: first_ready_def run_ready_tasks_def)
  moreover have "suffix (arrivals k') (arrivals k2)"
    using ready_loop_longer [OF main_poll_local r(1)] by simp
  then have "suffix (arrivals k') ?as" using m(7) by (rule suffix_order.trans)
  moreover have "length cs + length ds < 99" using arg_cong [OF m(5), of length] r(5) len by simp
  ultimately show ?thesis using r(2-6,8) m(5,9,10) len shown_amid_trans [OF m(8) r(7)]
    by (intro exI [of _ "cs @ ds"] exI [of _ e'] exI [of _ k']) (simp add: decode_all_append key_texts_append)
qed

text \<open>The first turn, with its halt, on every paced schedule.\<close>

lemma main_first_turn:
  fixes K :: "('kb, 'ev, 'ch, 'kc) keyboard_ops"
  assumes b: "booted P slot k" and as: "paced (arrivals k)"
  shows "\<exists>cs r e' k'. (\<forall>n. main_tasks P K (Suc n) k = (if r = Asleep then Ret (e', k') else run_turns P (main_poll P K) n e' k')) \<and>
    keyboard_host KeyboardTask 1 (snd (decode_all K (keyboard_new K) cs)) e' \<and> rested 1 (arrivals k) k' \<and>
    pressed (concat (drop 2 (arrivals k))) = cs @ flight k' \<and>
    shown (warnings (burst_at 0 (arrivals k)) @ [async_text] @ warnings (burst_at 1 (arrivals k)) @
      key_texts K (keyboard_new K) cs) k k' \<and>
    length (arrivals k') \<le> length (arrivals k) - 1 \<and>
    length (task_contents (task_queue k')) \<le> length (codes k') \<and> (r = Asleep \<longrightarrow> flight k' = [])"
proof -
  let ?w = "window k" and ?as = "arrivals k"
  have "booted P slot ?w" using b by (simp add: booted_def)
  moreover have "length (pressed (concat (drop 2 (arrivals ?w)))) < 99"
    using pacedD [OF as, of 2] presses_take [of 996 "take 1000 (drop 2 ?as)"] by (simp add: window_arrivals drop_take)
  ultimately obtain cs e1 k1 where
    m: "first_ready K ?w = Ret (e1, k1)" "keyboard_host KeyboardTask 1 (snd (decode_all K (keyboard_new K) cs)) e1" "sound 1 k1"
    "task_contents (task_queue k1) = []" "interrupts_enabled k1" "pressed (concat (drop 2 (arrivals ?w))) = cs @ flight k1"
    "shown (warnings (burst_at 0 (arrivals ?w)) @ [async_text] @ warnings (burst_at 1 (arrivals ?w)) @
      key_texts K (keyboard_new K) cs) ?w k1"
    "suffix (arrivals k1) (drop 2 (arrivals ?w))" "length (arrivals ?w) \<le> length (arrivals k1) + 900"
    using main_first_ready [of ?w K] by blast
  let ?k1 = "longer (beyond k) k1"
  from window_run [OF first_ready_local m(1,9)] have run: "first_ready K k = Ret (e1, ?k1)" by simp
  have s: "suffix (arrivals ?k1) (drop 2 ?as)" using m(8) window_drop [of 2 k, symmetric] by (auto simp: suffix_def)
  then have "paced (arrivals ?k1)" using as paced_suffix suffix_drop suffix_order.trans by blast
  then have small: "\<forall>b\<in>set (arrivals ?k1). length (pressed b) \<le> 100" using paced_burst by blast
  have "ready 1 ?k1" "arm 1 ?k1" "load ?k1 \<le> 1" "task_contents (task_queue ?k1) = []" "interrupts_enabled ?k1"
    using m(3-5) by (auto simp: sound_def wake_load_def)
  from sleep_rested [OF this small] obtain r k2 where
    k2: "sleep_if_idle P ?k1 = Ret (r, k2)" "rested 1 (arrivals ?k1) k2" "flight k2 = flight ?k1" "shown [] ?k1 k2"
    "length (arrivals k2) \<le> length (arrivals ?k1)" "length (task_contents (task_queue k2)) \<le> length (codes k2)"
    "r = Asleep \<longrightarrow> flight k2 = []" by blast
  have "rested 1 ?as k2" using k2(2) suffix_order.trans [OF s suffix_drop] unfolding rested_def by (blast intro: suffix_order.trans)
  moreover have "pressed (concat (drop 2 ?as)) = cs @ flight k2"
    using m(6) k2(3) arg_cong [OF window_drop [of 2 k], of "\<lambda>as. pressed (concat as)"] by simp
  moreover have "length (arrivals k2) \<le> length ?as - 1" using k2(5) suffix_length_le [OF s] by simp
  moreover have "burst_at i (arrivals ?w) = burst_at i ?as" if "i < 998" for i using that by (simp add: burst_at_def window_arrivals)
  ultimately show ?thesis using m(2) k2(4,6,7) main_tasks_first [OF run k2(1)] m(7) shown_amid_quiet(2) [OF m(7), of "vga_writer k2"]
    by (intro exI [of _ cs] exI [of _ r] exI [of _ e1] exI [of _ k2]) auto
qed

lemma main_tasks_law:
  fixes K :: "('kb, 'ev, 'ch, 'kc) keyboard_ops"
  assumes b: "booted P slot k" and as: "paced (arrivals k)" and n: "length (arrivals k) < n"
  shows "\<exists>e' k'. main_tasks P K n k = Ret (e', k') \<and> flight k' = [] \<and>
    keyboard_host KeyboardTask 1 (snd (decode_all K (keyboard_new K) (pressed (concat (drop 2 (arrivals k)))))) e' \<and>
    task_contents (task_queue k') = [] \<and> slot (keyboard_waker k') = Some (TaskWaker 1) \<and>
    shown (warnings (burst_at 0 (arrivals k)) @ [async_text] @ warnings (burst_at 1 (arrivals k)) @
      key_texts K (keyboard_new K) (pressed (concat (drop 2 (arrivals k))))) k k'"
proof -
  let ?kb = "\<lambda>cs. snd (decode_all K (keyboard_new K) cs)" and ?as = "arrivals k"
  obtain m where m: "n = Suc m" using n by (cases n) auto
  from main_first_turn [OF b as, of K] obtain cs z e1 k1 where
    r: "main_tasks P K n k = (if z = Asleep then Ret (e1, k1) else run_turns P (main_poll P K) m e1 k1)"
    "keyboard_host KeyboardTask 1 (?kb cs) e1" "rested 1 ?as k1" "pressed (concat (drop 2 ?as)) = cs @ flight k1"
    "shown (warnings (burst_at 0 ?as) @ [async_text] @ warnings (burst_at 1 ?as) @ key_texts K (keyboard_new K) cs) k k1"
    "length (arrivals k1) \<le> length ?as - 1" "length (task_contents (task_queue k1)) \<le> length (codes k1)"
    "z = Asleep \<longrightarrow> flight k1 = []" unfolding m by blast
  from run_turns_paced [OF polls_keyboard_main main_poll_local r(2,3) as, where n = m and K = K] obtain ds e' k' where
    t: "run_turns P (main_poll P K) m e1 k1 = Ret (e', k')" "keyboard_host KeyboardTask 1 (snd (decode_all K (?kb cs) ds)) e'"
    "arm 1 k'" "flight k1 = ds @ flight k'" "length (arrivals k1) < m \<longrightarrow> flight k' = [] \<and> task_contents (task_queue k') = []"
    "shown (key_texts K (?kb cs) ds) k1 k'" by blast
  show ?thesis
  proof (cases "z = Asleep \<or> m = 0")
    case True
    then have "flight k1 = []" "main_tasks P K n k = Ret (e1, k1)"
      using n m r(1,6,8) r(3) t(1) by (auto simp: rested_def in_flight_def)
    moreover from this r(7) have "task_contents (task_queue k1) = []" by (simp add: in_flight_def)
    moreover from this r(3) have "slot (keyboard_waker k1) = Some (TaskWaker 1)" by (simp add: rested_def armed_def)
    ultimately show ?thesis using r(2,4,5) by simp
  next
    case False
    then have "length (arrivals k1) < m" using n m r(6) by (cases ?as) auto
    with t(5) have last: "flight k' = []" "task_contents (task_queue k') = []" by simp_all
    have keys: "pressed (concat (drop 2 ?as)) = cs @ ds" using r(4) t(4) last(1) by simp
    have "slot (keyboard_waker k') = Some (TaskWaker 1)" using t(3) last(2) by (simp add: armed_def)
    with False last t(1,2) r(1) shown_amid_trans [OF r(5) t(6)] show ?thesis
      unfolding keys by (simp add: decode_all_append key_texts_append)
  qed
qed

end

subsection \<open>Properties\<close>

text \<open>
  C15. The two tasks of \<open>kernel_main\<close>: from the state the boot leaves, the executor spawns
  \<open>example_task\<close> and the keyboard task, and its loop prints, for every schedule of
  keyboard and timer interrupts, however long, in which fewer than 99 scancodes arrive at
  any 1000 points in a row, exactly this, amid the dots of the timer: a warning for
  each scancode that arrives before the two tasks are first polled, the line of
  \<open>example_task\<close>, once, and then every key typed after the stream exists, decoded in
  order. Nothing panics, \<open>example_task\<close> is gone, no task is queued, and the keyboard task sleeps
  with its waker registered.
\<close>

theorem main_tasks_print:
  assumes "kernel_prims P scon scap tcon tcap slot" and "booted P slot k"
    and "paced (arrivals k)" and "length (arrivals k) < n"
  shows "\<exists>e' k'. main_tasks P K n k = Ret (e', k') \<and> in_flight P scon k' = [] \<and>
    keyboard_host KeyboardTask 1 (snd (decode_all K (keyboard_new K) (pressed (concat (drop 2 (arrivals k)))))) e' \<and>
    tcon (task_queue k') = [] \<and> slot (keyboard_waker k') = Some (TaskWaker 1) \<and>
    shown_amid {tick_text} (vga_ops P)
      (warnings (burst_at 0 (arrivals k)) @ [async_text] @ warnings (burst_at 1 (arrivals k)) @
       key_texts K (keyboard_new K) (pressed (concat (drop 2 (arrivals k)))))
      (vga_writer k) (vga_writer k')"
  using assms by (rule kernel_prims.main_tasks_law)

theorem main_tasks_print_witness:
  "\<exists>e' k'. main_tasks list_prims echo_keyboard 4
      ((example_kernel [[KeyPressed 30], [TimerTick], [KeyPressed 65, TimerTick, KeyPressed 66]])\<lparr>scancode_queue := None\<rparr>) = Ret (e', k') \<and>
    in_flight list_prims snd k' = [] \<and>
    shown_amid {tick_text} vga_cell [warning_text, async_text, [[65]], [[66]]]
      (writer_static (replicate 25 (replicate 80 (0, 0)))) (vga_writer k')"
proof -
  let ?as = "[[KeyPressed 30], [TimerTick], [KeyPressed 65, TimerTick, KeyPressed 66]]"
  let ?k = "(example_kernel ?as)\<lparr>scancode_queue := None\<rparr>"
  have b: "booted list_prims id ?k" and as: "arrivals ?k = ?as"
    using example_writer_wf by (simp_all add: booted_def example_kernel_def list_prims_def option_cell_def)
  have "paced (arrivals ?k)" unfolding as by (rule paced_few) simp
  from main_tasks_print [OF list_prims.kernel_prims_axioms b this, of 4 echo_keyboard] show ?thesis
    unfolding as
    by (auto simp: example_kernel_def list_prims_def warnings_def burst_at_def key_texts_def decode_def echo_keyboard_def)
qed

end
