(* ===== verification/Kernel_Main.thy ===== *)
theory Kernel_Main
  imports Test_Runner Kernel_Boot Heap_Rc Main_Tasks Heap_Tests
begin

text \<open>
  The entry point of the kernel, \<open>kernel_main\<close> of \<open>src/main.rs\<close>, up to the executor,
  with its panic handlers and its test. The output, the initialisation and the
  demonstrations of heap values are in the order of the source, and interrupts may
  strike between them. It is shown that this part returns, what it leaves on the heap and
  what it has put on the screen, and that it leaves the state from which
  \<open>Main_Tasks\<close> continues.
\<close>

subsection \<open>Definitions\<close>

text \<open>\<open>{:p}\<close>: the address in hexadecimal.\<close>

fun hexadecimal :: "nat \<Rightarrow> u8 list" where
  "hexadecimal n = (if n < 16 then [] else hexadecimal (n div 16)) @
     [if n mod 16 < 10 then 0x30 + of_nat (n mod 16) else 0x57 + of_nat (n mod 16)]"

declare hexadecimal.simps [simp del]

definition pointer_text :: "usize \<Rightarrow> u8 list" where
  "pointer_text p = str_bytes ''0x'' @ hexadecimal (unat p)"

text \<open>An operation on the heap with a result; interrupts may strike before it.\<close>

definition with_heap ::
  "('sp, 'q, 'cell, 'aw, 'tq, 'c, 'gdt, 'sel, 'idt, 'pics) devices \<Rightarrow> ('hp \<Rightarrow> ('x \<times> 'hp) outcome) \<Rightarrow>
   ('x, ('sp, ('cell, 'aw, 'tq, 'c) kernel, ('gdt, 'sel, 'idt, 'pics) cpu, 'hp) machine) action" where
  "with_heap D f s =
     run_bind (irq_point D s) (\<lambda>_.
     run_lift (\<lambda>s. and_then (f (heap s)) (\<lambda>(x, h). Ret (x, s\<lparr>heap := h\<rparr>))))"

text \<open>The first lines of output. The o-umlaut is two bytes.\<close>

definition greet ::
  "('sp, 'q, 'cell, 'aw, 'tq, 'c, 'gdt, 'sel, 'idt, 'pics) devices \<Rightarrow>
   (unit, ('sp, ('cell, 'aw, 'tq, 'c) kernel, ('gdt, 'sel, 'idt, 'pics) cpu, 'hp) machine) action" where
  "greet D s =
     run_bind (print_out D [str_bytes ''H''] s) (\<lambda>_ s.
     run_bind (print_out D [str_bytes ''ello ''] s) (\<lambda>_ s.
     run_bind (println_out D [str_bytes ''W'' @ [0xC3, 0xB6] @ str_bytes ''rld!''] s) (\<lambda>_.
     println_out D [str_bytes ''The numbers are '', decimal 42, str_bytes '' and '', str_bytes ''0.3333333333333333''])))"

text \<open>The variables of \<open>kernel_main\<close> that are never dropped, since it does not return.\<close>

record main_locals =
  heap_value :: usize
  main_vec :: vec
  cloned_reference :: usize

text \<open>The range \<open>0..500\<close>.\<close>

definition main_numbers :: "u32 list" where
  "main_numbers = map of_nat [0..<500]"

definition heap_demo ::
  "('sp, 'q, 'cell, 'aw, 'tq, 'c, 'gdt, 'sel, 'idt, 'pics) devices \<Rightarrow> 's alloc_fn \<Rightarrow> 's dealloc_fn \<Rightarrow>
   (main_locals, ('sp, ('cell, 'aw, 'tq, 'c) kernel, ('gdt, 'sel, 'idt, 'pics) cpu, 's \<times> mem) machine) action" where
  "heap_demo D alloc dealloc s =
     run_bind (with_heap D (box_new alloc (42 :: u32)) s) (\<lambda>heap_value s.
     run_bind (println_out D [str_bytes ''heap_value at '', pointer_text heap_value] s) (\<lambda>_ s.
     run_bind (with_heap D (\<lambda>h. for_each main_numbers (vec_push alloc dealloc) (vec_new, h)) s) (\<lambda>vec s.
     run_bind (println_out D [str_bytes ''vec at '', pointer_text (vec_ptr vec)] s) (\<lambda>_ s.
     run_bind (with_heap D (\<lambda>h. and_then (vec_of alloc [1, 2, 3 :: u32] h) (\<lambda>(v, h). rc_new alloc v h)) s) (\<lambda>reference_counted s.
     run_bind (with_heap D (rc_clone reference_counted) s) (\<lambda>cloned_reference s.
     run_bind (with_heap D (\<lambda>h. Ret (rc_strong (snd h) cloned_reference, h)) s) (\<lambda>count s.
     run_bind (println_out D [str_bytes ''current reference count is '', decimal (unat count)] s) (\<lambda>_ s.
     run_bind (with_heap D (\<lambda>h. and_then (rc_drop TYPE(32) dealloc reference_counted h) (\<lambda>h. Ret ((), h))) s) (\<lambda>_ s.
     run_bind (with_heap D (\<lambda>h. Ret (rc_strong (snd h) cloned_reference, h)) s) (\<lambda>count s.
     run_bind (println_out D [str_bytes ''reference count is '', decimal (unat count), str_bytes '' now''] s) (\<lambda>_.
     Returned \<lparr>heap_value = heap_value, main_vec = vec, cloned_reference = cloned_reference\<rparr>)))))))))))"

text \<open>
  \<open>kernel_main\<close> until the executor is created. \<open>test_main\<close> is called in test builds
  only; in other builds it is \<open>Returned ()\<close>.
\<close>

definition kernel_main ::
  "('sp, 'q, 'cell, 'aw, 'tq, 'c, 'gdt, 'sel, 'idt, 'pics) devices \<Rightarrow> ('gdt, 'd, 'sel, 'tss, 'w, 'idt, 'pics) init_ops \<Rightarrow>
   ('a, 'f, 'v, 'p, 'ptr, 'pt, 'm, 'r, 'e, 'h) boot_ops \<Rightarrow> 'm boot_info \<Rightarrow>
   (unit, ('sp, ('cell, 'aw, 'tq, 'c) kernel, ('gdt, 'sel, 'idt, 'pics) cpu, 'h fixed_size_block_allocator \<times> mem) machine) action \<Rightarrow>
   (main_locals, ('sp, ('cell, 'aw, 'tq, 'c) kernel, ('gdt, 'sel, 'idt, 'pics) cpu, 'h fixed_size_block_allocator \<times> mem) machine) action" where
  "kernel_main D N B boot_info test_main s =
     run_bind (greet D s) (\<lambda>_ s.
     run_bind (lib_init D N s) (\<lambda>_ s.
     run_bind (with_heap D (\<lambda>h. and_then (setup_heap B boot_info h) (\<lambda>h. Ret ((), h))) s) (\<lambda>_ s.
     run_bind (heap_demo D (fsb_alloc (boot_heap B)) (fsb_dealloc (boot_heap B)) s) (\<lambda>locals s.
     run_bind (test_main s) (\<lambda>_ s.
     run_bind (println_out D [str_bytes ''It did not crash!''] s) (\<lambda>_.
     Returned locals))))))"

text \<open>The panic handler of the kernel; in test builds it is \<open>test_panic_handler\<close>.\<close>

definition kernel_panic ::
  "('sp, 'q, 'cell, 'aw, 'tq, 'c, 'gdt, 'sel, 'idt, 'pics) devices \<Rightarrow> panic \<Rightarrow>
   ('x, ('sp, ('cell, 'aw, 'tq, 'c) kernel, ('gdt, 'sel, 'idt, 'pics) cpu, 'hp) machine) action" where
  "kernel_panic D info s = run_bind (println_out D [info_text D info] s) (\<lambda>_. hlt_loop (irq_point D))"

definition trivial_assertion :: "(unit, 's) action" where
  "trivial_assertion = run_assert ((1 :: int) = 1)"

text \<open>The test build: \<open>test_main\<close> is generated and calls the test runner with the one test of the file.\<close>

definition main_test_build ::
  "('sp, 'q, 'cell, 'aw, 'tq, 'c, 'gdt, 'sel, 'idt, 'pics) devices \<Rightarrow> ('gdt, 'd, 'sel, 'tss, 'w, 'idt, 'pics) init_ops \<Rightarrow>
   ('a, 'f, 'v, 'p, 'ptr, 'pt, 'm, 'r, 'e, 'h) boot_ops \<Rightarrow> 'm boot_info \<Rightarrow>
   (main_locals, ('sp, ('cell, 'aw, 'tq, 'c) kernel, ('gdt, 'sel, 'idt, 'pics) cpu, 'h fixed_size_block_allocator \<times> mem) machine) action" where
  "main_test_build D N B boot_info s =
     with_panic_handler (test_panic_handler D)
       (kernel_main D N B boot_info (test_runner D [(str_bytes ''tiny_os::trivial_assertion'', trivial_assertion)]) s)"

text \<open>
  The whole of \<open>kernel_main\<close>, with \<open>n\<close> turns of the executor's loop, under the
  kernel's panic handler. The executor runs on the part of the machine that tasks and
  interrupt handlers share, with the interrupts that are still to come; what it allocates
  for itself is not modelled, so it leaves the heap alone.
\<close>

definition kernel_run ::
  "('sp, 'q, 'cell, 'aw, 'tq, 'c, 'gdt, 'sel, 'idt, 'pics) devices \<Rightarrow> ('gdt, 'd, 'sel, 'tss, 'w, 'idt, 'pics) init_ops \<Rightarrow>
   ('a, 'f, 'v, 'p, 'ptr, 'pt, 'm, 'r, 'e, 'h) boot_ops \<Rightarrow> ('kb, 'ev, 'ch, 'kc) keyboard_ops \<Rightarrow> 'm boot_info \<Rightarrow> nat \<Rightarrow>
   (main_locals \<times> 'kb main_future executor,
    ('sp, ('cell, 'aw, 'tq, 'c) kernel, ('gdt, 'sel, 'idt, 'pics) cpu, 'h fixed_size_block_allocator \<times> mem) machine) action" where
  "kernel_run D N B K boot_info n s =
     with_panic_handler (kernel_panic D)
       (run_bind (kernel_main D N B boot_info (Returned ()) s) (\<lambda>locals.
        run_lift (\<lambda>s.
          and_then (main_tasks (shared D) K n
            ((kern s)\<lparr>interrupts_enabled := interrupt_flag (processor s), arrivals := pending s\<rparr>)) (\<lambda>(executor, k).
          Ret ((locals, executor), s\<lparr>kern := k, pending := arrivals k\<rparr>)))))"

subsection \<open>Triples\<close>

context platform
begin

text \<open>
  A program with the texts it displays: from a machine whose heap has the property
  \<open>J t\<close>, where \<open>t\<close> is what was displayed so far, it returns a result \<open>x\<close> on a
  machine whose heap has the property \<open>Q x\<close> with the texts that are displayed then.
\<close>

definition displaying ::
  "bool \<Rightarrow> (u8 list list list \<Rightarrow> 'hp \<Rightarrow> bool) \<Rightarrow>
   ('x, ('sp, ('cell, 'aw, 'tq, 'c) kernel, ('gdt, 'sel, 'idt, 'pics) cpu, 'hp) machine) action \<Rightarrow>
   ('x \<Rightarrow> u8 list list list \<Rightarrow> 'hp \<Rightarrow> bool) \<Rightarrow> bool" where
  "displaying b J f Q \<longleftrightarrow> (\<forall>s t. machine_ready D b (J t) s \<longrightarrow>
     (\<exists>x s' t'. f s = Returned x s' \<and> machine_ready D b (Q x (t @ t')) s' \<and> sends sent [] s s' \<and>
        displays (vga_ops (shared D)) t' (vga_writer (kern s)) (vga_writer (kern s'))))"

lemma displayingI:
  "(\<And>s t. machine_ready D b (J t) s \<Longrightarrow>
      \<exists>x s' t'. f s = Returned x s' \<and> machine_ready D b (Q x (t @ t')) s' \<and> sends sent [] s s' \<and>
        displays (vga_ops (shared D)) t' (vga_writer (kern s)) (vga_writer (kern s'))) \<Longrightarrow> displaying b J f Q"
  by (simp add: displaying_def)

lemma displayingD:
  "displaying b J f Q \<Longrightarrow> machine_ready D b (J t) s \<Longrightarrow>
   \<exists>x s' t'. f s = Returned x s' \<and> machine_ready D b (Q x (t @ t')) s' \<and> sends sent [] s s' \<and>
     displays (vga_ops (shared D)) t' (vga_writer (kern s)) (vga_writer (kern s'))"
  by (simp add: displaying_def)

lemma displaying_bind:
  assumes "displaying b J f Q" and "\<And>x. displaying b (Q x) (g x) R"
  shows "displaying b J (\<lambda>s. run_bind (f s) g) R"
proof (rule displayingI, goal_cases)
  case (1 s t)
  from displayingD [OF assms(1) 1] obtain x s1 t1 where
    f: "f s = Returned x s1" "machine_ready D b (Q x (t @ t1)) s1" "sends sent [] s s1"
    "displays (vga_ops (shared D)) t1 (vga_writer (kern s)) (vga_writer (kern s1))" by blast
  from displayingD [OF assms(2) f(2)] obtain y s2 t2 where
    g: "g x s1 = Returned y s2" "machine_ready D b (R y (t @ t1 @ t2)) s2" "sends sent [] s1 s2"
    "displays (vga_ops (shared D)) t2 (vga_writer (kern s1)) (vga_writer (kern s2))" by auto
  from f(1) g(1,2) sends_trans [OF f(3) g(3)] displays_trans [OF f(4) g(4)] show ?case by auto
qed

lemma displaying_returned: "(\<And>t h. J t h \<Longrightarrow> Q x t h) \<Longrightarrow> displaying b J (Returned x) Q"
  by (rule displayingI, rule exI [of _ x], rule exI, rule exI [of _ "[]"])
    (auto simp: machine_ready_def sends_def displays_refl)

lemma displaying_print: "(\<And>t h. J t h \<Longrightarrow> Q () (t @ [args]) h) \<Longrightarrow> displaying b J (print_out D args) Q"
proof (rule displayingI, goal_cases)
  case (1 s t)
  from irq_point_ready [OF 1(2)] obtain s1 where
    s1: "irq_point D s = Returned () s1" "machine_ready D b (J t) s1" "sends sent [] s s1"
    "displays (vga_ops (shared D)) [] (vga_writer (kern s)) (vga_writer (kern s1))" by blast
  from screen_print [OF s1(2), of args] obtain w where
    w: "print_args (vga_ops (shared D)) (vga_writer (kern s1)) args = Ret w" "writer_wf w" by blast
  let ?m = "set_interrupts False s1" let ?s = "?m\<lparr>kern := (kern s1)\<lparr>vga_writer := w\<rparr>\<rparr>"
  let ?f = "on_kernel (\<lambda>k. and_then (print_args (vga_ops (shared D)) (vga_writer k) args) (\<lambda>w. Ret (k\<lparr>vga_writer := w\<rparr>)))"
  have "?f ?m = Returned () ?s" using w(1) by (simp add: on_kernel_def run_lift_def set_interrupts_def)
  moreover have "machine_ready D b (Q () (t @ [args])) ?s" "sends sent [] ?m ?s"
    using s1(2) w(2) 1(1) by (auto simp: machine_ready_def sends_def set_interrupts_def)
  ultimately obtain s2 where "without_interrupts ?f s1 = Returned () s2" "machine_ready D b (Q () (t @ [args])) s2"
    "sends sent [] s1 s2" "kern s2 = kern ?s" using uninterrupted [where f = ?f, OF s1(2)] by blast
  moreover have "displays (vga_ops (shared D)) [args] (vga_writer (kern s)) w"
    using displays_trans [OF s1(4) displays_text [OF w(1)]] by simp
  ultimately show ?case using s1(1) sends_trans [OF s1(3)] by (fastforce simp: print_out_def)
qed

lemma displaying_println:
  "(\<And>t h. J t h \<Longrightarrow> Q () (t @ [args @ [[0x0A]]]) h) \<Longrightarrow> displaying b J (println_out D args) Q"
  unfolding println_out_def by (rule displaying_print)

lemma displaying_line:
  "displaying b (\<lambda>t h. t = t1 \<and> H h) (println_out D args) (\<lambda>_ t h. t = t1 @ [args @ [[0x0A]]] \<and> H h)"
  by (rule displaying_println) simp

lemma displaying_heap:
  assumes "\<And>t h. J t h \<Longrightarrow> \<exists>x h'. f h = Ret (x, h') \<and> Q x t h'"
  shows "displaying b J (with_heap D f) Q"
proof (rule displayingI, goal_cases)
  case (1 s t)
  from irq_point_ready [OF 1] obtain s1 where
    s1: "irq_point D s = Returned () s1" "machine_ready D b (J t) s1" "sends sent [] s s1"
    "displays (vga_ops (shared D)) [] (vga_writer (kern s)) (vga_writer (kern s1))" by blast
  from assms [of t "heap s1"] s1(2) obtain x h' where h: "f (heap s1) = Ret (x, h')" "Q x t h'"
    by (auto simp: machine_ready_def)
  with s1 show ?case
    by (intro exI [of _ x] exI [of _ "s1\<lparr>heap := h'\<rparr>"] exI [of _ "[]"])
      (simp add: with_heap_def run_lift_def machine_ready_def sends_def)
qed

end

subsection \<open>The demonstrations\<close>

text \<open>The lines they print, and the values they leave on the heap.\<close>

definition demo_texts :: "main_locals \<Rightarrow> u8 list list list" where
  "demo_texts L =
     [[str_bytes ''heap_value at '', pointer_text (heap_value L), [0x0A]],
      [str_bytes ''vec at '', pointer_text (vec_ptr (main_vec L)), [0x0A]],
      [str_bytes ''current reference count is '', decimal 2, [0x0A]],
      [str_bytes ''reference count is '', decimal 1, str_bytes '' now'', [0x0A]]]"

definition demo_values :: "mem \<Rightarrow> main_locals \<Rightarrow> bool" where
  "demo_values m L \<longleftrightarrow> box_read m (heap_value L) = (42 :: u32) \<and>
     vec_elems m (main_vec L) = main_numbers \<and>
     rc_strong m (cloned_reference L) = 1 \<and>
     vec_elems m (rc_value m (cloned_reference L)) = [1, 2, 3 :: u32]"

definition demo_layouts :: "layout set" where
  "demo_layouts = {word_layout TYPE(32), array_block TYPE(32) 3, rc_layout} \<union> (\<lambda>i. array_block TYPE(32) (grown_cap (Suc i))) ` {..<8}"

definition demo_need :: "(layout \<Rightarrow> nat) \<Rightarrow> nat" where
  "demo_need need = need (word_layout TYPE(32)) + growth_need need TYPE(32) 8 + need (array_block TYPE(32) 3) + need rc_layout"

text \<open>The blocks and values after the box and the vector.\<close>

definition demo_blocks :: "usize \<Rightarrow> vec \<Rightarrow> block multiset" where
  "demo_blocks p v = {#(vec_ptr v, array_block TYPE(32) (vec_cap v)), (p, word_layout TYPE(32))#}"

definition demo_bytes :: "usize \<Rightarrow> vec \<Rightarrow> (usize \<times> u8 list) list" where
  "demo_bytes p v = [(vec_ptr v, concat (map le_bytes main_numbers)), (p, le_bytes (42 :: u32))]"

lemma length_main_numbers [simp]: "length main_numbers = 500"
  by (simp add: main_numbers_def)

context roomy_alloc
begin

text \<open>With the reference-counted vector and its count \<open>c\<close>.\<close>

definition counted :: "nat \<Rightarrow> nat \<Rightarrow> u64 \<Rightarrow> usize \<Rightarrow> vec \<Rightarrow> usize \<Rightarrow> 's \<times> mem \<Rightarrow> bool" where
  "counted lo hi c p v q h \<longleftrightarrow> vec_len v = 500 \<and>
     (\<exists>u k h0. heap_has lo hi k (add_mset (u, array_block TYPE(32) 3) (demo_blocks p v))
          ((u, concat (map le_bytes [1, 2, 3 :: u32])) # demo_bytes p v) h0 \<and>
        heap_has lo hi k (add_mset (q, rc_layout) (add_mset (u, array_block TYPE(32) 3) (demo_blocks p v)))
          ((q, rc_bytes c 1 \<lparr>vec_ptr = u, vec_cap = 3, vec_len = 3\<rparr>) # (u, concat (map le_bytes [1, 2, 3 :: u32])) # demo_bytes p v) h)"

lemma counted_loads:
  assumes "counted lo hi c p v q h"
  shows "\<exists>u. load_bytes (snd h) q 40 = rc_bytes c 1 \<lparr>vec_ptr = u, vec_cap = 3, vec_len = 3\<rparr> \<and>
    load_bytes (snd h) u (length [1, 2, 3 :: u32] * 4) = concat (map le_bytes [1, 2, 3 :: u32]) \<and>
    load_bytes (snd h) p 4 = le_bytes (42 :: u32) \<and>
    load_bytes (snd h) (vec_ptr v) (length main_numbers * 4) = concat (map le_bytes main_numbers)"
proof -
  obtain u k where u: "heap_has lo hi k (add_mset (q, rc_layout) (add_mset (u, array_block TYPE(32) 3) (demo_blocks p v)))
      ((q, rc_bytes c 1 \<lparr>vec_ptr = u, vec_cap = 3, vec_len = 3\<rparr>) # (u, concat (map le_bytes [1, 2, 3 :: u32])) # demo_bytes p v) h"
    using assms unfolding counted_def by blast
  have "load_bytes (snd h) (vec_ptr v) (length (concat (map le_bytes main_numbers))) = concat (map le_bytes main_numbers)"
    by (rule heap_hasD [OF u]) (simp add: demo_bytes_def)
  moreover have "load_bytes (snd h) p (length (le_bytes (42 :: u32))) = le_bytes (42 :: u32)"
    by (rule heap_hasD [OF u]) (simp add: demo_bytes_def)
  ultimately show ?thesis
    using heap_hasD [OF u, of q "rc_bytes c 1 \<lparr>vec_ptr = u, vec_cap = 3, vec_len = 3\<rparr>"]
      heap_hasD [OF u, of u "concat (map le_bytes [1, 2, 3 :: u32])"]
    by (intro exI [of _ u]) (simp add: concat_le_bytes_length)
qed

lemma counted_strong: "counted lo hi c p v q h \<Longrightarrow> rc_strong (snd h) q = c"
  using counted_loads rc_bytes_read(1) by blast

lemma counted_values:
  assumes "counted lo hi 1 p v q h"
  shows "demo_values (snd h) \<lparr>heap_value = p, main_vec = v, cloned_reference = q\<rparr>"
proof -
  from counted_loads [OF assms] obtain u where
    u: "load_bytes (snd h) q 40 = rc_bytes 1 1 \<lparr>vec_ptr = u, vec_cap = 3, vec_len = 3\<rparr>"
    "load_bytes (snd h) u (length [1, 2, 3 :: u32] * 4) = concat (map le_bytes [1, 2, 3 :: u32])"
    "load_bytes (snd h) p 4 = le_bytes (42 :: u32)"
    "load_bytes (snd h) (vec_ptr v) (length main_numbers * 4) = concat (map le_bytes main_numbers)" by blast
  have "vec_elems (snd h) v = main_numbers"
    using u(4) assms by (intro vec_elems_load) (simp_all add: counted_def)
  moreover have "vec_elems (snd h) \<lparr>vec_ptr = u, vec_cap = 3, vec_len = 3\<rparr> = [1, 2, 3 :: u32]"
    using u(2) by (intro vec_elems_load) simp_all
  ultimately show ?thesis
    using rc_bytes_read(1,3) [OF u(1)] u(3) by (simp add: demo_values_def box_read_load)
qed

lemma numbers_pushed:
  assumes H: "heap_has lo hi n {#(p, word_layout TYPE(32))#} [(p, le_bytes (42 :: u32))] h" and hi: "hi \<le> 2 ^ 64"
    and req: "\<And>i. i < 8 \<Longrightarrow> req (array_block TYPE(32) (grown_cap (Suc i)))" and n: "growth_need need TYPE(32) 8 \<le> n"
  shows "\<exists>v h'. for_each main_numbers (vec_push alloc dealloc) (vec_new, h) = Ret (v, h') \<and> vec_len v = 500 \<and>
    heap_has lo hi (n - growth_need need TYPE(32) 8) (demo_blocks p v) (demo_bytes p v) h'"
proof -
  have c: "length main_numbers \<le> grown_cap 8" "main_numbers \<noteq> []" "array_ok TYPE(32) (grown_cap 8)"
    using array_ok_numerals(1) [of "grown_cap 8"] length_main_numbers by (auto simp: grown_cap_def simp del: length_main_numbers)
  from vec_pushes_has [OF _ hi c req n, of lo "{#(p, word_layout TYPE(32))#}" "[(p, le_bytes (42 :: u32))]" "fst h" "snd h"] H
  show ?thesis by (auto simp: demo_blocks_def demo_bytes_def)
qed

lemma rc_created:
  assumes H: "heap_has lo hi n (demo_blocks p v) (demo_bytes p v) h" and hi: "hi \<le> 2 ^ 64" and v: "vec_len v = 500"
    and req: "req (array_block TYPE(32) 3)" "req rc_layout" and n: "need (array_block TYPE(32) 3) + need rc_layout \<le> n"
  shows "\<exists>q h'. and_then (vec_of alloc [1, 2, 3 :: u32] h) (\<lambda>(v, h). rc_new alloc v h) = Ret (q, h') \<and> counted lo hi 1 p v q h'"
proof -
  let ?xs = "[1, 2, 3 :: u32]"
  have "array_ok TYPE(32) (length ?xs)" by (rule array_ok_numerals) simp
  from vec_of_has [OF H hi _ _ this] req(1) n obtain u h1 where
    u: "vec_of alloc ?xs h = Ret (\<lparr>vec_ptr = u, vec_cap = 3, vec_len = 3\<rparr>, h1)"
    "heap_has lo hi (n - need (array_block TYPE(32) 3)) (add_mset (u, array_block TYPE(32) 3) (demo_blocks p v))
      ((u, concat (map le_bytes ?xs)) # demo_bytes p v) h1" by (auto simp: eval_nat_numeral)
  have n2: "need rc_layout \<le> n - need (array_block TYPE(32) 3)" using n by simp
  from rc_new_has [OF u(2) hi req(2) n2, of "\<lparr>vec_ptr = u, vec_cap = 3, vec_len = 3\<rparr>"] obtain q h2 where
    q: "rc_new alloc \<lparr>vec_ptr = u, vec_cap = 3, vec_len = 3\<rparr> h1 = Ret (q, h2)"
    "heap_has lo hi (n - need (array_block TYPE(32) 3) - need rc_layout) (add_mset (q, rc_layout) (add_mset (u, array_block TYPE(32) 3) (demo_blocks p v)))
      ((q, rc_bytes 1 1 \<lparr>vec_ptr = u, vec_cap = 3, vec_len = 3\<rparr>) # (u, concat (map le_bytes ?xs)) # demo_bytes p v) h2" by auto
  have "heap_has lo hi (n - need (array_block TYPE(32) 3) - need rc_layout) (add_mset (u, array_block TYPE(32) 3) (demo_blocks p v))
      ((u, concat (map le_bytes ?xs)) # demo_bytes p v) h1"
    using u(2) room_mono by (auto simp: heap_has_def)
  with q(2) v have "counted lo hi 1 p v q h2" unfolding counted_def by blast
  with u(1) q(1) show ?thesis by auto
qed

lemma counted_beside:
  assumes "counted lo hi c p v q h"
  shows "\<exists>u k bs vs. heap_has lo hi k (add_mset (q, rc_layout) bs) ((q, rc_bytes c 1 \<lparr>vec_ptr = u, vec_cap = 3, vec_len = 3\<rparr>) # vs) h \<and>
    (\<forall>x xs. (x, xs) \<in> set vs \<longrightarrow> (\<exists>l. (x, l) \<in># bs \<and> length xs \<le> unat (layout_size l))) \<and>
    (\<forall>c' h'. heap_has lo hi k (add_mset (q, rc_layout) bs) ((q, rc_bytes c' 1 \<lparr>vec_ptr = u, vec_cap = 3, vec_len = 3\<rparr>) # vs) h' \<longrightarrow>
      counted lo hi c' p v q h')"
proof -
  obtain u k h0 where u: "heap_has lo hi k (add_mset (u, array_block TYPE(32) 3) (demo_blocks p v))
      ((u, concat (map le_bytes [1, 2, 3 :: u32])) # demo_bytes p v) h0"
    "heap_has lo hi k (add_mset (q, rc_layout) (add_mset (u, array_block TYPE(32) 3) (demo_blocks p v)))
      ((q, rc_bytes c 1 \<lparr>vec_ptr = u, vec_cap = 3, vec_len = 3\<rparr>) # (u, concat (map le_bytes [1, 2, 3 :: u32])) # demo_bytes p v) h"
    and v: "vec_len v = 500" using assms unfolding counted_def by blast
  have "\<exists>l. (x, l) \<in># add_mset (u, array_block TYPE(32) 3) (demo_blocks p v) \<and> length xs \<le> unat (layout_size l)"
    if "(x, xs) \<in> set ((u, concat (map le_bytes [1, 2, 3 :: u32])) # demo_bytes p v)" for x xs
    using u(1) that unfolding heap_has_def by blast
  with u v show ?thesis unfolding counted_def by blast
qed

lemma counted_clone:
  assumes "counted lo hi 1 p v q h" and "hi \<le> 2 ^ 64"
  shows "\<exists>h'. rc_clone q h = Ret (q, h') \<and> counted lo hi 2 p v q h'"
proof -
  from counted_beside [OF assms(1)] obtain u k bs vs where
    b: "heap_has lo hi k (add_mset (q, rc_layout) bs) ((q, rc_bytes 1 1 \<lparr>vec_ptr = u, vec_cap = 3, vec_len = 3\<rparr>) # vs) h"
    "\<And>x xs. (x, xs) \<in> set vs \<Longrightarrow> \<exists>l. (x, l) \<in># bs \<and> length xs \<le> unat (layout_size l)"
    "\<And>c' h'. heap_has lo hi k (add_mset (q, rc_layout) bs) ((q, rc_bytes c' 1 \<lparr>vec_ptr = u, vec_cap = 3, vec_len = 3\<rparr>) # vs) h' \<Longrightarrow>
      counted lo hi c' p v q h'" by blast
  from rc_clone_has [OF b(1) assms(2) b(2)] b(3) show ?thesis by auto
qed

lemma counted_drop:
  assumes "counted lo hi 2 p v q h" and "hi \<le> 2 ^ 64"
  shows "\<exists>h'. rc_drop TYPE(32) dealloc q h = Ret h' \<and> counted lo hi 1 p v q h'"
proof -
  from counted_beside [OF assms(1)] obtain u k bs vs where
    b: "heap_has lo hi k (add_mset (q, rc_layout) bs) ((q, rc_bytes 2 1 \<lparr>vec_ptr = u, vec_cap = 3, vec_len = 3\<rparr>) # vs) h"
    "\<And>x xs. (x, xs) \<in> set vs \<Longrightarrow> \<exists>l. (x, l) \<in># bs \<and> length xs \<le> unat (layout_size l)"
    "\<And>c' h'. heap_has lo hi k (add_mset (q, rc_layout) bs) ((q, rc_bytes c' 1 \<lparr>vec_ptr = u, vec_cap = 3, vec_len = 3\<rparr>) # vs) h' \<Longrightarrow>
      counted lo hi c' p v q h'" by blast
  from rc_drop_has [OF b(1) assms(2) b(2), of "TYPE(32)"] b(3) show ?thesis by auto
qed

end

context platform
begin

lemma heap_demo_displaying:
  assumes ra: "roomy_alloc req al de hinv need room" and hi: "hi \<le> 2 ^ 64"
    and req: "\<forall>l\<in>demo_layouts. req l" and n: "demo_need need \<le> n"
  shows "displaying b (\<lambda>t h. t = t0 \<and> roomy_alloc.heap_has room lo hi n {#} [] h) (heap_demo D al de)
    (\<lambda>L t h. t = t0 @ demo_texts L \<and> demo_values (snd h) L)"
proof -
  let ?has = "roomy_alloc.heap_has room lo hi" and ?cnt = "roomy_alloc.counted room lo hi"
  let ?a = "need (word_layout TYPE(32))" and ?g = "growth_need need TYPE(32) 8"
  let ?t1 = "\<lambda>p. t0 @ [[str_bytes ''heap_value at '', pointer_text p, [0x0A]]]"
  let ?t2 = "\<lambda>p v. t0 @ [[str_bytes ''heap_value at '', pointer_text p, [0x0A]], [str_bytes ''vec at '', pointer_text (vec_ptr v), [0x0A]]]"
  let ?t3 = "\<lambda>p v. ?t2 p v @ [[str_bytes ''current reference count is '', decimal 2, [0x0A]]]"
  let ?t4 = "\<lambda>p v. ?t3 p v @ [[str_bytes ''reference count is '', decimal 1, str_bytes '' now'', [0x0A]]]"
  have req': "req (word_layout TYPE(32))" "req (array_block TYPE(32) 3)" "req rc_layout"
    "\<And>i. i < 8 \<Longrightarrow> req (array_block TYPE(32) (grown_cap (Suc i)))" using req by (auto simp: demo_layouts_def)
  have n': "?a \<le> n" "?g \<le> n - ?a" "need (array_block TYPE(32) 3) + need rc_layout \<le> n - ?a - ?g"
    using n by (auto simp: demo_need_def)
  have box: "displaying b (\<lambda>t h. t = t0 \<and> ?has n {#} [] h) (with_heap D (box_new al (42 :: u32)))
      (\<lambda>p t h. t = t0 \<and> ?has (n - ?a) {#(p, word_layout TYPE(32))#} [(p, le_bytes (42 :: u32))] h)"
    using roomy_alloc.box_new_has [OF ra _ hi req'(1) n'(1), of lo "{#}" "[]" _ 42] by (intro displaying_heap) simp
  note line1 = displaying_line [of b t0 _ "[str_bytes ''heap_value at '', pointer_text p]" for p, simplified]
  have vec: "displaying b (\<lambda>t h. t = ?t1 p \<and> ?has (n - ?a) {#(p, word_layout TYPE(32))#} [(p, le_bytes (42 :: u32))] h)
      (with_heap D (\<lambda>h. for_each main_numbers (vec_push al de) (vec_new, h)))
      (\<lambda>v t h. t = ?t1 p \<and> vec_len v = 500 \<and> ?has (n - ?a - ?g) (demo_blocks p v) (demo_bytes p v) h)" for p
    using roomy_alloc.numbers_pushed [OF ra _ hi req'(4) n'(2)] by (intro displaying_heap) blast
  note line2 = displaying_line [of b "?t1 p" _ "[str_bytes ''vec at '', pointer_text (vec_ptr v)]" for p v, simplified]
  have rc: "displaying b (\<lambda>t h. t = ?t2 p v \<and> vec_len v = 500 \<and> ?has (n - ?a - ?g) (demo_blocks p v) (demo_bytes p v) h)
      (with_heap D (\<lambda>h. and_then (vec_of al [1, 2, 3 :: u32] h) (\<lambda>(v, h). rc_new al v h)))
      (\<lambda>q t h. t = ?t2 p v \<and> ?cnt 1 p v q h)" for p v
    using roomy_alloc.rc_created [OF ra _ hi _ req'(2,3) n'(3)] by (intro displaying_heap) blast
  have clone: "displaying b (\<lambda>t h. t = ?t2 p v \<and> ?cnt 1 p v q h) (with_heap D (rc_clone q)) (\<lambda>q' t h. t = ?t2 p v \<and> q' = q \<and> ?cnt 2 p v q h)"
    for p v q using roomy_alloc.counted_clone [OF ra _ hi] by (intro displaying_heap) blast
  have count: "displaying b (\<lambda>t h. t = t' \<and> q' = q \<and> ?cnt c p v q h) (with_heap D (\<lambda>h. Ret (rc_strong (snd h) q', h)))
      (\<lambda>k t h. t = t' \<and> q' = q \<and> k = c \<and> ?cnt c p v q h)" for p v q q' c t'
    using roomy_alloc.counted_strong [OF ra] by (intro displaying_heap) auto
  have line3: "displaying b (\<lambda>t h. t = ?t2 p v \<and> q' = q \<and> k = 2 \<and> ?cnt 2 p v q h)
      (println_out D [str_bytes ''current reference count is '', decimal (unat k)]) (\<lambda>_ t h. t = ?t3 p v \<and> q' = q \<and> ?cnt 2 p v q h)"
    for p v q q' and k :: u64 by (rule displaying_println) simp
  have drop: "displaying b (\<lambda>t h. t = ?t3 p v \<and> q' = q \<and> ?cnt 2 p v q h)
      (with_heap D (\<lambda>h. and_then (rc_drop TYPE(32) de q h) (\<lambda>h. Ret ((), h)))) (\<lambda>_ t h. t = ?t3 p v \<and> q' = q \<and> ?cnt 1 p v q h)"
    for p v q q' using roomy_alloc.counted_drop [OF ra _ hi] by (intro displaying_heap) fastforce
  have line4: "displaying b (\<lambda>t h. t = ?t3 p v \<and> q' = q \<and> k = 1 \<and> ?cnt 1 p v q h)
      (println_out D [str_bytes ''reference count is '', decimal (unat k), str_bytes '' now'']) (\<lambda>_ t h. t = ?t4 p v \<and> q' = q \<and> ?cnt 1 p v q h)"
    for p v q q' and k :: u64 by (rule displaying_println) simp
  have ret: "displaying b (\<lambda>t h. t = ?t4 p v \<and> q' = q \<and> ?cnt 1 p v q h)
      (Returned \<lparr>heap_value = p, main_vec = v, cloned_reference = q'\<rparr>) (\<lambda>L t h. t = t0 @ demo_texts L \<and> demo_values (snd h) L)" for p v q q'
    using roomy_alloc.counted_values [OF ra] by (intro displaying_returned) (auto simp: demo_texts_def)
  show ?thesis
    unfolding heap_demo_def [abs_def]
    by (rule displaying_bind [OF box] displaying_bind [OF line1] displaying_bind [OF vec] displaying_bind [OF line2]
        displaying_bind [OF rc] displaying_bind [OF clone] displaying_bind [OF count] displaying_bind [OF line3]
        displaying_bind [OF drop] displaying_bind [OF line4] ret)+
qed

end

subsection \<open>The whole boot\<close>

definition greeting :: "u8 list list list" where
  "greeting = [[str_bytes ''H''], [str_bytes ''ello ''], [str_bytes ''W'' @ [0xC3, 0xB6] @ str_bytes ''rld!'', [0x0A]],
     [str_bytes ''The numbers are '', decimal 42, str_bytes '' and '', str_bytes ''0.3333333333333333'', [0x0A]]]"

context roomy_fallback
begin

lemma fsb_roomy:
  "roomy_alloc (fsb_request req) (fsb_alloc ops) (fsb_dealloc ops) (fsb_inv inv) (fsb_need need) (fsb_room room)"
  by (rule fsb.roomy_alloc_axioms)

lemma fsb_init_has:
  assumes "fsb_init ops (fsb_new ops) m HEAP_START HEAP_SIZE = Ret h"
  shows "roomy_alloc.heap_has (fsb_room room) (unat HEAP_START) (unat HEAP_START + unat HEAP_SIZE) (unat HEAP_SIZE) {#} [] h"
  using fsb_init_room [OF heap_region_ok_HEAP, of m] assms by (auto simp: roomy_alloc.heap_has_def [OF fsb_roomy])

end

context platform
begin

lemma greet_displaying:
  "displaying b (\<lambda>t h. t = t0 \<and> H h) (greet D) (\<lambda>_ t h. t = t0 @ greeting \<and> H h)"
proof -
  have step: "displaying b (\<lambda>t h. t = t1 \<and> H h) (print_out D args) (\<lambda>_ t h. t = t1 @ [args] \<and> H h)" for t1 args
    by (rule displaying_print) simp
  from displaying_bind [OF step [of t0 "[str_bytes ''H'']"] displaying_bind [OF step [of _ "[str_bytes ''ello '']"]
      displaying_bind [OF displaying_line [of _ _ H "[str_bytes ''W'' @ [0xC3, 0xB6] @ str_bytes ''rld!'']"]
        displaying_line [of _ _ H "[str_bytes ''The numbers are '', decimal 42, str_bytes '' and '', str_bytes ''0.3333333333333333'']"]]]]
  show ?thesis unfolding greet_def [abs_def] greeting_def by simp
qed

lemma boot_displaying:
  assumes be: "boot_env B addr page_no mapping" and rf: "roomy_fallback req (boot_heap B) hinv need room"
    and req: "\<forall>l\<in>demo_layouts. fsb_request req l" and need: "demo_need (fsb_need need) \<le> unat HEAP_SIZE"
    and boot: "bootable B addr page_no mapping boot_info"
  shows "displaying b (\<lambda>t h. t = t0 \<and> fst h = fsb_new (boot_heap B))
    (\<lambda>s. run_bind (with_heap D (\<lambda>h. and_then (setup_heap B boot_info h) (\<lambda>h. Ret ((), h))) s) (\<lambda>_.
      heap_demo D (fsb_alloc (boot_heap B)) (fsb_dealloc (boot_heap B))))
    (\<lambda>L t h. t = t0 @ demo_texts L \<and> demo_values (snd h) L)"
proof (rule displaying_bind)
  let ?has = "roomy_alloc.heap_has (fsb_room room) (unat HEAP_START) (unat HEAP_START + unat HEAP_SIZE) (unat HEAP_SIZE) {#} []"
  show "displaying b (\<lambda>t h. t = t0 \<and> fst h = fsb_new (boot_heap B))
      (with_heap D (\<lambda>h. and_then (setup_heap B boot_info h) (\<lambda>h. Ret ((), h)))) (\<lambda>_ t h. t = t0 \<and> ?has h)"
  proof (rule displaying_heap, goal_cases)
    case (1 t h)
    then have h: "t = t0" "h = (fsb_new (boot_heap B), snd h)" by (auto intro: prod_eqI)
    from boot_env.setup_heap_law [OF be roomy_fallback.axioms(1) [OF rf] boot, of "snd h"] obtain h' where
      "setup_heap B boot_info h = Ret h'" "fsb_init (boot_heap B) (fsb_new (boot_heap B)) (snd h) HEAP_START HEAP_SIZE = Ret h'"
      using h(2) by auto
    with roomy_fallback.fsb_init_has [OF rf this(2)] h(1)
    show ?case by auto
  qed
  have "unat HEAP_START + unat HEAP_SIZE \<le> 2 ^ 64" by (simp add: HEAP_START_def HEAP_SIZE_def)
  from heap_demo_displaying [OF roomy_fallback.fsb_roomy [OF rf] this req need]
  show "displaying b (\<lambda>t h. t = t0 \<and> ?has h) (heap_demo D (fsb_alloc (boot_heap B)) (fsb_dealloc (boot_heap B)))
      (\<lambda>L t h. t = t0 @ demo_texts L \<and> demo_values (snd h) L)" .
qed

text \<open>The state in which the test framework is called, or the boot goes on.\<close>

lemma kernel_main_law:
  assumes it: "init_tables N (idt_gate D) stack_table descriptor entries stack_end"
    and be: "boot_env B addr page_no mapping" and rf: "roomy_fallback req (boot_heap B) hinv need room"
    and req: "\<forall>l\<in>demo_layouts. fsb_request req l" and need: "demo_need (fsb_need need) \<le> unat HEAP_SIZE"
    and boot: "bootable B addr page_no mapping boot_info"
    and ready: "machine_ready D False (\<lambda>h. fst h = fsb_new (boot_heap B)) s"
  shows "\<exists>L s'. kernel_main D N B boot_info test_main s = run_bind (test_main s') (\<lambda>_ s.
      run_bind (println_out D [str_bytes ''It did not crash!''] s) (\<lambda>_. Returned L)) \<and>
    machine_ready D True (\<lambda>h. demo_values (snd h) L) s' \<and> interrupt_flag (processor s') \<and>
    keyboard_waker (kern s') = keyboard_waker (kern s) \<and> suffix (pending s') (pending s) \<and> line_log sent (serial1 s') = line_log sent (serial1 s) \<and>
    displays (vga_ops (shared D)) (greeting @ demo_texts L) (vga_writer (kern s)) (vga_writer (kern s'))"
proof -
  let ?H = "\<lambda>h. fst h = fsb_new (boot_heap B)" and ?v = "vga_ops (shared D)"
  have "machine_ready D False ((\<lambda>t h. t = [] \<and> ?H h) []) s" using ready by simp
  from displayingD [OF greet_displaying this] obtain s1 where
    s1: "greet D s = Returned () s1" "machine_ready D False ?H s1" "sends sent [] s s1"
    "displays ?v greeting (vga_writer (kern s)) (vga_writer (kern s1))" by (auto simp: machine_ready_def)
  from lib_init_ready [OF it s1(2)] obtain s2 where
    s2: "lib_init D N s1 = Returned () s2" "machine_ready D True ?H s2" "interrupt_flag (processor s2)" "undisturbed D sent s1 s2"
    by blast
  have "machine_ready D True ((\<lambda>t h. t = [] \<and> ?H h) []) s2" using s2(2) by simp
  from displayingD [OF boot_displaying [OF be rf req need boot] this] obtain L s3 where
    s3: "run_bind (with_heap D (\<lambda>h. and_then (setup_heap B boot_info h) (\<lambda>h. Ret ((), h))) s2) (\<lambda>_.
      heap_demo D (fsb_alloc (boot_heap B)) (fsb_dealloc (boot_heap B))) = Returned L s3"
    "machine_ready D True (\<lambda>h. demo_values (snd h) L) s3" "sends sent [] s2 s3"
    "displays ?v (demo_texts L) (vga_writer (kern s2)) (vga_writer (kern s3))" by (auto simp: machine_ready_def)
  have "kernel_main D N B boot_info test_main s = run_bind (test_main s3) (\<lambda>_ s.
      run_bind (println_out D [str_bytes ''It did not crash!''] s) (\<lambda>_. Returned L))"
    using s1(1) s2(1) s3(1) by (auto simp: kernel_main_def run_bind_Returned)
  moreover have "displays ?v (greeting @ demo_texts L) (vga_writer (kern s)) (vga_writer (kern s3))"
    using displays_trans [OF s1(4) displays_trans [OF _ s3(4), of "[]"]] s2(4) by (simp add: undisturbed_def)
  moreover have "suffix (pending s3) (pending s)"
    using s1(3) s2(4) s3(3) by (auto simp: sends_def undisturbed_def intro: suffix_order.trans)
  ultimately show ?thesis using s1(3) s2(3,4) s3(2,3) by (auto simp: sends_def undisturbed_def)
qed

text \<open>
  A panic of the kernel shows its message and halts for ever; nothing but the output of
  interrupt handlers follows.
\<close>

lemma hlt_loop_ready:
  assumes "machine_ready D b J s"
  shows "\<exists>s'. hlt_loop (irq_point D) s = Looping s' \<and> displays (vga_ops (shared D)) [] (vga_writer (kern s)) (vga_writer (kern s'))"
proof -
  have "\<exists>s'. hlt_each (irq_point D) bs s = Looping s' \<and> displays (vga_ops (shared D)) [] (vga_writer (kern s)) (vga_writer (kern s'))" for bs
    using assms
  proof (induction bs arbitrary: s)
    case Nil
    then show ?case by (simp add: displays_refl)
  next
    case (Cons b' bs)
    from irq_point_ready [OF Cons.prems] obtain s1 where
      s1: "irq_point D s = Returned () s1" "machine_ready D b J s1"
      "displays (vga_ops (shared D)) [] (vga_writer (kern s)) (vga_writer (kern s1))" by blast
    from Cons.IH [OF s1(2)] s1(1) displays_trans [OF s1(3)] show ?case by auto
  qed
  then show ?thesis by (simp add: hlt_loop_def)
qed

lemma kernel_panic_halts:
  assumes "machine_ready D b J s"
  shows "\<exists>s'. kernel_panic D info s = Looping s' \<and>
    displays (vga_ops (shared D)) [[info_text D info, [0x0A]]] (vga_writer (kern s)) (vga_writer (kern s'))"
proof -
  let ?t = "[[info_text D info, [0x0A]]]"
  have d: "displaying b (\<lambda>t h. t = [] \<and> J h) (println_out D [info_text D info]) (\<lambda>_ t h. t = ?t)"
    by (rule displaying_println) simp
  have "machine_ready D b ((\<lambda>t h. t = [] \<and> J h) []) s" using assms by simp
  from displayingD [OF d this] obtain s1 where
    s1: "println_out D [info_text D info] s = Returned () s1" "machine_ready D b (\<lambda>_. True) s1"
    "displays (vga_ops (shared D)) ?t (vga_writer (kern s)) (vga_writer (kern s1))" by (auto simp: machine_ready_def)
  from hlt_loop_ready [OF s1(2)] s1(1) displays_trans [OF s1(3)] show ?thesis by (fastforce simp: kernel_panic_def)
qed

end

context platform
begin

lemma boot_law:
  assumes it: "init_tables N (idt_gate D) stack_table descriptor entries stack_end"
    and be: "boot_env B addr page_no mapping" and rf: "roomy_fallback req (boot_heap B) hinv need room"
    and req: "\<forall>l\<in>demo_layouts. fsb_request req l" and need: "demo_need (fsb_need need) \<le> unat HEAP_SIZE"
    and boot: "bootable B addr page_no mapping boot_info"
    and ready: "machine_ready D False (\<lambda>h. fst h = fsb_new (boot_heap B)) s" and waker: "slot (keyboard_waker (kern s)) = None"
  shows "\<exists>L s'. kernel_main D N B boot_info (Returned ()) s = Returned L s' \<and>
    displays (vga_ops (shared D)) (greeting @ demo_texts L @ [[str_bytes ''It did not crash!'', [0x0A]]])
      (vga_writer (kern s)) (vga_writer (kern s')) \<and>
    demo_values (snd (heap s')) L \<and> interrupt_flag (processor s') \<and> suffix (pending s') (pending s) \<and>
    booted (shared D) slot ((kern s')\<lparr>interrupts_enabled := True\<rparr>)"
proof -
  from kernel_main_law [OF it be rf req need boot ready, of "Returned ()"] obtain L s1 where
    s1: "kernel_main D N B boot_info (Returned ()) s =
      run_bind (println_out D [str_bytes ''It did not crash!''] s1) (\<lambda>_. Returned L)"
    "machine_ready D True (\<lambda>h. demo_values (snd h) L) s1" "interrupt_flag (processor s1)"
    "keyboard_waker (kern s1) = keyboard_waker (kern s)" "suffix (pending s1) (pending s)"
    "displays (vga_ops (shared D)) (greeting @ demo_texts L) (vga_writer (kern s)) (vga_writer (kern s1))" by auto
  let ?t = "[[str_bytes ''It did not crash!'', [0x0A]]]"
  have d: "displaying True (\<lambda>t h. t = [] \<and> demo_values (snd h) L) (println_out D [str_bytes ''It did not crash!''])
      (\<lambda>_ t h. t = ?t \<and> demo_values (snd h) L)"
    by (rule displaying_println) simp
  have "machine_ready D True ((\<lambda>t h. t = [] \<and> demo_values (snd h) L) []) s1" using s1(2) by simp
  from displayingD [OF d this] obtain s2 where
    s2: "println_out D [str_bytes ''It did not crash!''] s1 = Returned () s2" "machine_ready D True (\<lambda>h. demo_values (snd h) L) s2"
    "sends sent [] s1 s2" "displays (vga_ops (shared D)) ?t (vga_writer (kern s1)) (vga_writer (kern s2))"
    by (auto simp: machine_ready_def)
  have "suffix (pending s2) (pending s)"
    using s1(5) s2(3) suffix_order.trans [of "pending s2" "pending s1" "pending s"] by (simp add: sends_def)
  with displays_trans [OF s1(6) s2(4)] s1(1,3,4) s2(1-3) waker show ?thesis
    by (intro exI [of _ L] exI [of _ s2]) (simp add: machine_ready_def sends_def booted_def)
qed

text \<open>The test build runs its test and reports success.\<close>

lemma main_test_law:
  assumes it: "init_tables N (idt_gate D) stack_table descriptor entries stack_end"
    and be: "boot_env B addr page_no mapping" and rf: "roomy_fallback req (boot_heap B) hinv need room"
    and req: "\<forall>l\<in>demo_layouts. fsb_request req l" and need: "demo_need (fsb_need need) \<le> unat HEAP_SIZE"
    and boot: "bootable B addr page_no mapping boot_info"
    and ready: "machine_ready D False (\<lambda>h. fst h = fsb_new (boot_heap B)) s"
  shows "\<exists>s'. main_test_build D N B boot_info s = Exited 33 s' \<and>
    line_log sent (serial1 s') = line_log sent (serial1 s) @
      test_transcript (info_text D) [(str_bytes ''tiny_os::trivial_assertion'', [], None)]"
proof -
  let ?ts = "[(str_bytes ''tiny_os::trivial_assertion'', trivial_assertion)]"
  from kernel_main_law [OF it be rf req need boot ready, of "test_runner D ?ts"] obtain L s1 where
    s1: "kernel_main D N B boot_info (test_runner D ?ts) s = run_bind (test_runner D ?ts s1) (\<lambda>_ s.
      run_bind (println_out D [str_bytes ''It did not crash!''] s) (\<lambda>_. Returned L))"
    "machine_ready D True (\<lambda>h. demo_values (snd h) L) s1" "line_log sent (serial1 s1) = line_log sent (serial1 s)" by blast
  have "completes D sent True J J trivial_assertion []" for J
    by (auto simp: completes_def trivial_assertion_def run_assert_def sends_def)
  then have "\<forall>i<length ?ts. plain (fst (?ts ! i)) \<and>
      behaves D sent True (\<lambda>h. demo_values (snd h) L) (\<lambda>h. demo_values (snd h) L) (snd (?ts ! i)) ([], None)"
    by (simp add: behaves_def plain_text)
  from test_runner_verdict_law [where J = "\<lambda>_ h. demo_values (snd h) L", OF this s1(2)] s1(1,3) show ?thesis
    by (auto simp: main_test_build_def test_status_def)
qed

end

subsection \<open>Properties\<close>

text \<open>The demonstrations fit on the registered allocator: they take less than 10 KiB of the heap.\<close>

lemma demo_layouts_valid:
  assumes "l \<in> demo_layouts"
  shows "valid_request l" and "unat (layout_size l) \<le> 4096"
proof -
  have "valid_request (array_block TYPE(32) n)" "unat (layout_size (array_block TYPE(32) n)) \<le> 4096" if "0 < n" "n \<le> 1024" for n
    using array_block_valid [where 'a = 32, of n] array_ok_size(2) [where 'a = 32, of n] that by (simp_all add: array_ok_numerals)
  moreover have "valid_request rc_layout" by (simp add: rc_layout_def valid_request_def layout_wf_def isize_max_def power_of_two_exp [of 3, simplified])
  ultimately show "valid_request l" "unat (layout_size l) \<le> 4096"
    using assms word_layout_valid(1) grown_cap_bounds
    by (auto simp: demo_layouts_def word_layout_def rc_layout_def)
qed

lemma demo_fsb_request: "\<forall>l\<in>demo_layouts. fsb_request ll_request l"
  using demo_layouts_valid by (force simp: fsb_request_def ll_request_def isize_max_def)

lemma sum_8: "(\<Sum>i<8. f i) = f 0 + f 1 + f 2 + f 3 + f 4 + f 5 + f 6 + (f (7 :: nat) :: nat)"
  by (simp add: eval_nat_numeral)

lemma fsb_need_demo:
  "fsb_need ll_need (array_block TYPE(32) 3) = 48" "fsb_need ll_need rc_layout = 144"
  "fsb_need ll_need (array_block TYPE(32) 4) = 48" "fsb_need ll_need (array_block TYPE(32) 8) = 80"
  "fsb_need ll_need (array_block TYPE(32) 16) = 144" "fsb_need ll_need (array_block TYPE(32) 32) = 272"
  "fsb_need ll_need (array_block TYPE(32) 64) = 528" "fsb_need ll_need (array_block TYPE(32) 128) = 1040"
  "fsb_need ll_need (array_block TYPE(32) 256) = 2064" "fsb_need ll_need (array_block TYPE(32) 512) = 4112"
  by (simp_all add: fsb_need_def list_index_def BLOCK_SIZES_def array_block_def rc_layout_def max_def ll_need_def padded_size_def
      padded_align_def LIST_NODE_SIZE_def LIST_NODE_ALIGN_def round_up_def)

lemma demo_need_ll: "demo_need (fsb_need ll_need) \<le> unat HEAP_SIZE"
  by (simp add: demo_need_def growth_need_def sum_8 grown_cap_def fsb_need_word fsb_need_demo HEAP_SIZE_def)

text \<open>The machine, the boot operations and the heap of the examples.\<close>

abbreviation example_start where
  "example_start \<equiv> example_machine [[TimerTick], [KeyPressed 30]] (fsb_new ll_heap_ops, \<lambda>_. 0)"

lemma example_fallback: "roomy_fallback ll_request (boot_heap example_boot) ll_inv ll_need ll_room"
  using ll_fallback.roomy_fallback_axioms by (simp add: example_boot_def)

lemma example_start_ready: "machine_ready list_devices False (\<lambda>h. fst h = fsb_new (boot_heap example_boot)) example_start"
  by (rule example_machine_ready) (simp add: example_boot_def)

lemma list_devices_prims: "kernel_prims (shared list_devices) snd fst snd fst id"
  using list_prims.kernel_prims_axioms by (simp add: devices_with_def)

lemma example_waker: "id (keyboard_waker (kern example_start)) = None"
  by (simp add: example_machine_def example_kernel_def)

text \<open>
  C4. The kernel from its first line to the idle keyboard task: for every schedule of
  timer and keyboard interrupts, however long, in which fewer than 99 scancodes arrive at
  any 1000 points in a row, \<open>kernel_main\<close> does not panic. Its boot returns in a machine
  \<open>s1\<close>; the screen shows its lines in order, with the reference counts 2 and then 1,
  and the boxed number, the 500 elements of the vector and the shared
  vector are on the heap, all at once. What arrives from then on, \<open>pending s1\<close>, is
  met by the executor: of the scancodes, those at its first two points are reported
  and all others, which come after the keyboard task has started, are decoded and
  printed in order, once, after the one line of \<open>example_task\<close> and amid nothing
  but the output of the interrupt handlers. In the end the keyboard task is asleep
  and no scancode is unread. (The executor's own allocations are not modelled; its part
  of the run does not touch the modelled heap.)
\<close>

theorem kernel_runs:
  assumes pl: "platform D sent" and kp: "kernel_prims (shared D) scon scap tcon tcap slot"
    and it: "init_tables N (idt_gate D) stack_table descriptor entries stack_end"
    and be: "boot_env B addr page_no mapping" and rf: "roomy_fallback req (boot_heap B) hinv need room"
    and req: "\<forall>l\<in>demo_layouts. fsb_request req l" and need: "demo_need (fsb_need need) \<le> unat HEAP_SIZE"
    and boot: "bootable B addr page_no mapping boot_info"
    and ready: "machine_ready D False (\<lambda>h. fst h = fsb_new (boot_heap B)) s" and waker: "slot (keyboard_waker (kern s)) = None"
    and typed: "paced (pending s)" and n: "length (pending s) < n"
  shows "\<exists>L s1 e' s'. kernel_main D N B boot_info (Returned ()) s = Returned L s1 \<and> suffix (pending s1) (pending s) \<and>
    demo_values (snd (heap s1)) L \<and>
    displays (vga_ops (shared D)) (greeting @ demo_texts L @ [[str_bytes ''It did not crash!'', [0x0A]]])
      (vga_writer (kern s)) (vga_writer (kern s1)) \<and>
    kernel_run D N B K boot_info n s = Returned (L, e') s' \<and>
    displays (vga_ops (shared D)) (greeting @ demo_texts L @ [[str_bytes ''It did not crash!'', [0x0A]]] @
      warnings (burst_at 0 (pending s1)) @ [async_text] @ warnings (burst_at 1 (pending s1)) @
      key_texts K (keyboard_new K) (pressed (concat (drop 2 (pending s1)))))
      (vga_writer (kern s)) (vga_writer (kern s')) \<and>
    demo_values (snd (heap s')) L \<and> in_flight (shared D) scon (kern s') = [] \<and>
    keyboard_host KeyboardTask 1 (snd (decode_all K (keyboard_new K) (pressed (concat (drop 2 (pending s1)))))) e' \<and>
    tcon (task_queue (kern s')) = [] \<and> slot (keyboard_waker (kern s')) = Some (TaskWaker 1)"
proof -
  from platform.boot_law [where slot = slot, OF pl it be rf req need boot ready waker] obtain L s1 where
    s1: "kernel_main D N B boot_info (Returned ()) s = Returned L s1"
    "displays (vga_ops (shared D)) (greeting @ demo_texts L @ [[str_bytes ''It did not crash!'', [0x0A]]])
      (vga_writer (kern s)) (vga_writer (kern s1))"
    "demo_values (snd (heap s1)) L" "interrupt_flag (processor s1)" "suffix (pending s1) (pending s)"
    "booted (shared D) slot ((kern s1)\<lparr>interrupts_enabled := True\<rparr>)" by blast
  let ?as = "pending s1" let ?k = "(kern s1)\<lparr>interrupts_enabled := True, arrivals := ?as\<rparr>"
  let ?tasks = "warnings (burst_at 0 ?as) @ [async_text] @ warnings (burst_at 1 ?as) @
    key_texts K (keyboard_new K) (pressed (concat (drop 2 ?as)))"
  have "paced (arrivals ?k)" "length (arrivals ?k) < n" using paced_suffix [OF s1(5) typed] suffix_length_le [OF s1(5)] n by simp_all
  moreover have "booted (shared D) slot ?k" using s1(6) by (simp add: booted_def)
  ultimately obtain e' k' where
    k': "main_tasks (shared D) K n ?k = Ret (e', k')" "in_flight (shared D) scon k' = []"
    "keyboard_host KeyboardTask 1 (snd (decode_all K (keyboard_new K) (pressed (concat (drop 2 ?as))))) e'"
    "tcon (task_queue k') = []" "slot (keyboard_waker k') = Some (TaskWaker 1)"
    "shown_amid {tick_text} (vga_ops (shared D)) ?tasks (vga_writer (kern s1)) (vga_writer k')"
    using kernel_prims.main_tasks_law [OF kp, of ?k n K] by auto
  have "displays (vga_ops (shared D)) ?tasks (vga_writer (kern s1)) (vga_writer k')"
    unfolding displays_def by (rule shown_amid_mono [OF k'(6)]) (simp add: irq_texts_def)
  from displays_trans [OF s1(2) this] s1 k'(1-5) show ?thesis
    by (intro exI [of _ L] exI [of _ s1] exI [of _ e'] exI [of _ "s1\<lparr>kern := k', pending := arrivals k'\<rparr>"])
      (simp add: kernel_run_def in_flight_def scancodes_def)
qed

theorem kernel_runs_witness:
  "\<exists>L s1 e' s'. kernel_main list_devices example_init example_boot
      \<lparr>boot_memory_map = large_map, physical_memory_offset = 0x10000000\<rparr> (Returned ()) example_start = Returned L s1 \<and>
    kernel_run list_devices example_init example_boot echo_keyboard
      \<lparr>boot_memory_map = large_map, physical_memory_offset = 0x10000000\<rparr> 3 example_start = Returned (L, e') s' \<and>
    demo_values (snd (heap s1)) L \<and> in_flight list_prims snd (kern s') = [] \<and>
    keyboard_host KeyboardTask 1 (snd (decode_all echo_keyboard () (pressed (concat (drop 2 (pending s1)))))) e'"
proof -
  have "paced (pending example_start)" "length (pending example_start) < 3"
    by (rule paced_few) (simp_all add: example_machine_def)
  from kernel_runs [where slot = id, OF list_platform.platform_axioms list_devices_prims example_tables example_boot.boot_env_axioms
      example_fallback demo_fsb_request demo_need_ll example_bootable example_start_ready example_waker this, of echo_keyboard]
  show ?thesis by (simp add: devices_with_def) blast
qed

end
