(* ===== verification/Kernel_Faults.thy ===== *)
theory Kernel_Faults
  imports Kernel_Main
begin

text \<open>
  What the kernel does when something goes wrong: every exception of the processor, through
  the loaded tables and the kernel's panic handler, and a boot without usable memory.
\<close>

subsection \<open>Exceptions\<close>

text \<open>The texts of the handlers.\<close>

definition breakpoint_text :: "('sp, 'q, 'cell, 'aw, 'tq, 'c, 'gdt, 'sel, 'idt, 'pics) devices \<Rightarrow> u8 list list" where
  "breakpoint_text D = [str_bytes ''EXCEPTION: BREAKPOINT'' @ [0x0A], frame_text D, [0x0A]]"

definition page_fault_texts :: "('sp, 'q, 'cell, 'aw, 'tq, 'c, 'gdt, 'sel, 'idt, 'pics) devices \<Rightarrow> u8 list list list" where
  "page_fault_texts D = map (\<lambda>msg. [msg, [0x0A]])
     [str_bytes ''EXCEPTION: PAGE FAULT'', str_bytes ''Accessed Address: '' @ cr2_text D,
      str_bytes ''Error Code: '' @ error_code_text D, frame_text D]"

text \<open>
  A vector without a gate raises \<open>#NP\<close>, which has no gate either; both end as a double
  fault.
\<close>

lemma unhandled_to_double_fault:
  assumes "v \<notin> {3, 14, 32, 33}" and "usable (stacks (unat DOUBLE_FAULT_IST_INDEX))"
  shows "raise_exception kernel_gates stacks usable sp v = Some (double_fault_handler, stacks (unat DOUBLE_FAULT_IST_INDEX))"
proof -
  have 8: "raise_exception kernel_gates stacks usable sp 8 = Some (double_fault_handler, stacks (unat DOUBLE_FAULT_IST_INDEX))"
    using assms(2) by (subst raise_exception.simps) (simp add: enter_handler_def)
  have np: "enter_handler kernel_gates stacks usable sp v = Inl 11" if "v \<notin> {3, 8, 14, 32, 33}" for v
    using that by (simp add: enter_handler_def)
  have 11: "raise_exception kernel_gates stacks usable sp 11 = raise_exception kernel_gates stacks usable sp 8"
    by (subst raise_exception.simps) (simp add: np double_fault_pair_def exception_class_def)
  show ?thesis
  proof (cases "v = 8")
    case False
    with assms(1) have "raise_exception kernel_gates stacks usable sp v \<in>
        {raise_exception kernel_gates stacks usable sp 8, raise_exception kernel_gates stacks usable sp 11}"
      by (subst raise_exception.simps) (simp add: np)
    with 8 11 show ?thesis by auto
  qed (simp add: 8)
qed

text \<open>The screen is well formed and the kernel's gates are loaded.\<close>

definition tables_ready ::
  "('sp, 'q, 'cell, 'aw, 'tq, 'c, 'gdt, 'sel, 'idt, 'pics) devices \<Rightarrow>
   ('sp, ('cell, 'aw, 'tq, 'c) kernel, ('gdt, 'sel, 'idt, 'pics) cpu, 'hp) machine \<Rightarrow> bool" where
  "tables_ready D s \<longleftrightarrow> writer_wf (vga_writer (kern s)) \<and>
     (\<exists>idt. loaded_idt (processor s) = Some idt \<and> idt_gate D idt = kernel_gates)"

context platform
begin

lemma kernel_println_exact:
  assumes "writer_wf (vga_writer k)"
  shows "\<exists>w. kernel_println (shared D) msg k = Ret (k\<lparr>vga_writer := w\<rparr>) \<and> writer_wf w \<and>
    print_args (vga_ops (shared D)) (vga_writer k) [msg, [0x0A]] = Ret w"
  using print_args_wf [OF volatile_cell_axioms assms, of "[msg, [0x0A]]"] by (auto simp: kernel_println_def println_def)

lemma page_fault_report_exact:
  assumes "writer_wf (vga_writer k)"
  shows "\<exists>w. page_fault_report (shared D) (cr2_text D) (error_code_text D) (frame_text D) k = Ret (k\<lparr>vga_writer := w\<rparr>) \<and>
    print_args (vga_ops (shared D)) (vga_writer k) (concat (page_fault_texts D)) = Ret w"
proof -
  have step: "\<exists>w'. kernel_println (shared D) msg (k\<lparr>vga_writer := w\<rparr>) = Ret (k\<lparr>vga_writer := w'\<rparr>) \<and> writer_wf w' \<and>
      print_args (vga_ops (shared D)) w [msg, [0x0A]] = Ret w'" if "writer_wf w" for msg w
    using kernel_println_exact [of "k\<lparr>vga_writer := w\<rparr>" msg] that by auto
  obtain w1 where w1: "kernel_println (shared D) (str_bytes ''EXCEPTION: PAGE FAULT'') k = Ret (k\<lparr>vga_writer := w1\<rparr>)" "writer_wf w1"
    "print_args (vga_ops (shared D)) (vga_writer k) [str_bytes ''EXCEPTION: PAGE FAULT'', [0x0A]] = Ret w1"
    using kernel_println_exact [OF assms] by blast
  from step [OF w1(2), of "str_bytes ''Accessed Address: '' @ cr2_text D"] obtain w2 where
    w2: "kernel_println (shared D) (str_bytes ''Accessed Address: '' @ cr2_text D) (k\<lparr>vga_writer := w1\<rparr>) = Ret (k\<lparr>vga_writer := w2\<rparr>)"
    "writer_wf w2" "print_args (vga_ops (shared D)) w1 [str_bytes ''Accessed Address: '' @ cr2_text D, [0x0A]] = Ret w2" by blast
  from step [OF w2(2), of "str_bytes ''Error Code: '' @ error_code_text D"] obtain w3 where
    w3: "kernel_println (shared D) (str_bytes ''Error Code: '' @ error_code_text D) (k\<lparr>vga_writer := w2\<rparr>) = Ret (k\<lparr>vga_writer := w3\<rparr>)"
    "writer_wf w3" "print_args (vga_ops (shared D)) w2 [str_bytes ''Error Code: '' @ error_code_text D, [0x0A]] = Ret w3" by blast
  from step [OF w3(2), of "frame_text D"] obtain w4 where
    w4: "kernel_println (shared D) (frame_text D) (k\<lparr>vga_writer := w3\<rparr>) = Ret (k\<lparr>vga_writer := w4\<rparr>)"
    "print_args (vga_ops (shared D)) w3 [frame_text D, [0x0A]] = Ret w4" by blast
  have "concat (page_fault_texts D) = [str_bytes ''EXCEPTION: PAGE FAULT'', [0x0A]] @
      [str_bytes ''Accessed Address: '' @ cr2_text D, [0x0A]] @ [str_bytes ''Error Code: '' @ error_code_text D, [0x0A]] @
      [frame_text D, [0x0A]]" by (simp add: page_fault_texts_def)
  then have "print_args (vga_ops (shared D)) (vga_writer k) (concat (page_fault_texts D)) = Ret w4"
    using w1(3) w2(3) w3(3) w4(2) by (simp only: print_args_append and_then.simps)
  with w1(1) w2(1) w3(1) w4(1) show ?thesis by (auto simp: page_fault_report_def)
qed

text \<open>With interrupts off, a panic shows its message and nothing else.\<close>

lemma kernel_panic_exact:
  assumes "writer_wf (vga_writer (kern s))" and "\<not> interrupt_flag (processor s)"
  shows "\<exists>s'. kernel_panic D info s = Looping s' \<and>
    print_args (vga_ops (shared D)) (vga_writer (kern s)) [info_text D info, [0x0A]] = Ret (vga_writer (kern s'))"
proof -
  from print_args_wf [OF volatile_cell_axioms assms(1)] obtain w where
    w: "print_args (vga_ops (shared D)) (vga_writer (kern s)) [info_text D info, [0x0A]] = Ret w" by blast
  let ?s = "set_interrupts False s"
  have "println_out D [info_text D info] s = Returned () (?s\<lparr>kern := (kern s)\<lparr>vga_writer := w\<rparr>\<rparr>)"
    using w assms(2) by (simp add: println_out_def print_out_def irq_point_masked without_interrupts_def on_kernel_def
        run_lift_def set_interrupts_def)
  with w show ?thesis by (simp add: kernel_panic_def hlt_loop_masked set_interrupts_def)
qed

lemma exceptions_law:
  assumes r: "tables_ready D s"
    and stack: "stack_usable D (interrupt_stacks (ist_stack D) (processor s) (unat DOUBLE_FAULT_IST_INDEX))"
    and v: "v \<notin> {3, 32, 33}"
  shows "\<exists>s'. with_panic_handler (kernel_panic D) (deliver D v s) = Looping s' \<and>
    print_args (vga_ops (shared D)) (vga_writer (kern s))
      (if v = 14 then concat (page_fault_texts D)
       else [info_text D (ExplicitPanic ''EXCEPTION: DOUBLE FAULT''), [0x0A]]) = Ret (vga_writer (kern s'))"
proof -
  obtain idt where i: "loaded_idt (processor s) = Some idt" "idt_gate D idt = kernel_gates"
    and wf: "writer_wf (vga_writer (kern s))" using r by (auto simp: tables_ready_def)
  let ?s = "set_interrupts False s"
  have m: "kern ?s = kern s" "\<not> interrupt_flag (processor ?s)" by (simp_all add: set_interrupts_def)
  show ?thesis
  proof (cases "v = 14")
    case True
    from page_fault_report_exact [OF wf] obtain w where
      w: "page_fault_report (shared D) (cr2_text D) (error_code_text D) (frame_text D) (kern s) = Ret ((kern s)\<lparr>vga_writer := w\<rparr>)"
      "print_args (vga_ops (shared D)) (vga_writer (kern s)) (concat (page_fault_texts D)) = Ret w" by blast
    have "deliver D 14 s = without_interrupts (run_handler D page_fault_handler) s"
      by (rule deliver_handler [OF _ i]) simp
    then have "deliver D 14 s = Looping (?s\<lparr>kern := (kern s)\<lparr>vga_writer := w\<rparr>\<rparr>)"
      using w(1) m(1) by (simp add: without_interrupts_def on_kernel_def run_lift_def hlt_loop_masked)
    with w(2) True show ?thesis by simp
  next
    case False
    with v have "v \<notin> {3, 14, 32, 33}" by simp
    from unhandled_to_double_fault [where usable = "stack_usable D" and stacks = "interrupt_stacks (ist_stack D) (processor s)", OF this stack] i
    have "deliver D v s = Panicked (ExplicitPanic ''EXCEPTION: DOUBLE FAULT'') ?s"
      by (simp add: deliver_def without_interrupts_def)
    with kernel_panic_exact [of ?s "ExplicitPanic ''EXCEPTION: DOUBLE FAULT''"] m wf False show ?thesis by auto
  qed
qed

lemma breakpoint_law:
  assumes r: "tables_ready D s"
  shows "\<exists>w. deliver D 3 s = Returned () (s\<lparr>kern := (kern s)\<lparr>vga_writer := w\<rparr>\<rparr>) \<and>
    print_args (vga_ops (shared D)) (vga_writer (kern s)) (breakpoint_text D) = Ret w"
proof -
  obtain idt where i: "loaded_idt (processor s) = Some idt" "idt_gate D idt = kernel_gates"
    and wf: "writer_wf (vga_writer (kern s))" using r by (auto simp: tables_ready_def)
  from print_args_wf [OF volatile_cell_axioms wf, of "breakpoint_text D"] obtain w where
    w: "print_args (vga_ops (shared D)) (vga_writer (kern s)) (breakpoint_text D) = Ret w" by blast
  have "deliver D 3 s = without_interrupts (run_handler D breakpoint_handler) s"
    by (rule deliver_handler [OF _ i]) simp
  with w show ?thesis
    by (auto simp: without_interrupts_def on_kernel_def run_lift_def breakpoint_run_def println_def breakpoint_text_def
        set_interrupts_def)
qed

end

subsection \<open>Boot without memory\<close>

context boot_env
begin

lemma setup_heap_no_frames:
  assumes "unat (physical_memory_offset boot_info) + unat (frame_start (boot_frames B) (cr3_frame B)) < 2 ^ 47"
    and "frame_addresses (boot_regions B) (boot_memory_map boot_info) = []"
  shows "setup_heap B boot_info h = Panic (ExpectFailed ''heap initialization failed'')"
proof -
  obtain v where v: "virt_new (boot_virt B) (physical_memory_offset boot_info) = Ret v"
    "addr v = unat (physical_memory_offset boot_info)"
    using virt_new_law [of "physical_memory_offset boot_info"] assms(1) by auto
  obtain w where w: "virt_add (boot_virt B) v (frame_start (boot_frames B) (cr3_frame B)) = Ret w"
    using virt_add_law [of v "frame_start (boot_frames B) (cr3_frame B)"] v assms(1) by auto
  obtain ps where ps: "heap_pages (boot_virt B) = Ret ps"
    "map page_no ps = map (\<lambda>i. unat HEAP_START div 4096 + i) [0..<25]" using heap_pages_law by blast
  have "length ps = 25" using arg_cong [OF ps(2), of length] by simp
  then obtain p ps' where "ps = p # ps'" by (cases ps) auto
  with v(1) w ps(1) assms(2) show ?thesis
    by (simp add: setup_heap_def memory_init_def active_level_4_table_def init_heap_def allocate_frame_def
        boot_info_init_def add_usize_def Let_def)
qed

end

context platform
begin

lemma boot_failure_law:
  assumes it: "init_tables N (idt_gate D) stack_table descriptor entries stack_end" and be: "boot_env B addr page_no mapping"
    and off: "unat (physical_memory_offset boot_info) + unat (frame_start (boot_frames B) (cr3_frame B)) < 2 ^ 47"
    and empty: "frame_addresses (boot_regions B) (boot_memory_map boot_info) = []"
    and ready: "machine_ready D False (\<lambda>h. fst h = fsb_new (boot_heap B)) s"
  shows "\<exists>s'. kernel_run D N B K boot_info n s = Looping s' \<and>
    displays (vga_ops (shared D)) (greeting @ [[info_text D (ExpectFailed ''heap initialization failed''), [0x0A]]])
      (vga_writer (kern s)) (vga_writer (kern s'))"
proof -
  let ?H = "\<lambda>h. fst h = fsb_new (boot_heap B)" and ?v = "vga_ops (shared D)" and ?p = "ExpectFailed ''heap initialization failed''"
  have "machine_ready D False ((\<lambda>t h. t = [] \<and> ?H h) []) s" using ready by simp
  from displayingD [OF greet_displaying this] obtain s1 where
    s1: "greet D s = Returned () s1" "machine_ready D False ?H s1"
    "displays ?v greeting (vga_writer (kern s)) (vga_writer (kern s1))" by (auto simp: machine_ready_def)
  from lib_init_ready [OF it s1(2)] obtain s2 where
    s2: "lib_init D N s1 = Returned () s2" "machine_ready D True ?H s2"
    "displays ?v [] (vga_writer (kern s1)) (vga_writer (kern s2))" by (auto simp: undisturbed_def)
  from irq_point_ready [OF s2(2)] obtain s3 where
    s3: "irq_point D s2 = Returned () s3" "machine_ready D True ?H s3"
    "displays ?v [] (vga_writer (kern s2)) (vga_writer (kern s3))" by blast
  have "kernel_main D N B boot_info (Returned ()) s = Panicked ?p s3"
    using s1(1) s2(1) s3(1) boot_env.setup_heap_no_frames [OF be off empty, of "heap s3"]
    by (simp add: kernel_main_def with_heap_def run_lift_def)
  then have "kernel_run D N B K boot_info n s = kernel_panic D ?p s3" by (simp add: kernel_run_def)
  with kernel_panic_halts [OF s3(2), of ?p] obtain s4 where "kernel_run D N B K boot_info n s = Looping s4"
    "displays ?v [[info_text D ?p, [0x0A]]] (vga_writer (kern s3)) (vga_writer (kern s4))" by auto
  then show ?thesis using displays_trans [OF s1(3) displays_trans [OF s2(3) displays_trans [OF s3(3)]]] by auto
qed

end

subsection \<open>Properties\<close>




text \<open>
  C18. A boot without usable memory fails visibly: if the memory map has no usable frame,
  \<open>init_heap\<close> reports an error and \<open>kernel_main\<close> panics; under every schedule of
  interrupts the screen shows the greeting and then the panic message, and the kernel
  halts for ever.
\<close>

theorem boot_without_memory:
  assumes "platform D sent" and "init_tables N (idt_gate D) stack_table descriptor entries stack_end"
    and "boot_env B addr page_no mapping"
    and "unat (physical_memory_offset boot_info) + unat (frame_start (boot_frames B) (cr3_frame B)) < 2 ^ 47"
    and "frame_addresses (boot_regions B) (boot_memory_map boot_info) = []"
    and "machine_ready D False (\<lambda>h. fst h = fsb_new (boot_heap B)) s"
  shows "\<exists>s'. kernel_run D N B K boot_info n s = Looping s' \<and>
    displays (vga_ops (shared D)) (greeting @ [[info_text D (ExpectFailed ''heap initialization failed''), [0x0A]]])
      (vga_writer (kern s)) (vga_writer (kern s'))"
  using assms by (rule platform.boot_failure_law)

theorem boot_without_memory_witness:
  "\<exists>s'. kernel_run list_devices example_init example_boot echo_keyboard
      \<lparr>boot_memory_map = [(False, 0x1000, 0x80000)], physical_memory_offset = 0x10000000\<rparr> 3 example_start = Looping s' \<and>
    displays vga_cell (greeting @ [[str_bytes ''panicked'', [0x0A]]])
      (writer_static (replicate 25 (replicate 80 (0, 0)))) (vga_writer (kern s'))"
proof -
  let ?b = "\<lparr>boot_memory_map = [(False, 0x1000, 0x80000)], physical_memory_offset = 0x10000000\<rparr>"
  have "unat (physical_memory_offset ?b) + unat (frame_start (boot_frames example_boot) (cr3_frame example_boot)) < 2 ^ 47"
    using example_bootable by (simp add: bootable_def)
  moreover have "frame_addresses (boot_regions example_boot) (boot_memory_map ?b) = []"
    by (simp add: example_boot_def frame_addresses_def region_list_ops_def)
  ultimately show ?thesis
    using boot_without_memory [OF list_platform.platform_axioms example_tables example_boot.boot_env_axioms _ _ example_start_ready,
        of ?b echo_keyboard 3]
    by (simp add: devices_with_def list_prims_def example_machine_def example_kernel_def)
qed

end
