(* ===== verification/Lock_Steps.thy ===== *)
theory Lock_Steps
  imports Prelude
begin

text \<open>
  Spin locks and interrupts on one processor. The kernel's code is reduced to what it
  does to the interrupt flag and to the four spin locks, \<open>WRITER\<close>
  (\<open>vga_buffer.rs\<close>), \<open>SERIAL1\<close> (\<open>serial.rs\<close>), \<open>PICS\<close> (\<open>interrupts.rs\<close>)
  and \<open>ALLOCATOR\<close> (\<open>allocator.rs\<close>). An interrupt can strike before every
  instruction while the flag is set, and a handler that spins on a lock held by the code
  it interrupted spins for ever. It is shown that this never happens.
\<close>

datatype lock = WRITER | SERIAL1 | PICS | ALLOCATOR

text \<open>
  \<open>Disable\<close> and \<open>Restore\<close> bracket the closure of \<open>without_interrupts\<close>, which saves
  the flag, clears it, and sets it again afterwards only if it was set; \<open>Sti\<close> and
  \<open>Cli\<close> are \<open>interrupts::enable\<close> and \<open>disable\<close>.
\<close>

datatype instr = Disable | Restore | Sti | Cli | Acquire lock | Release lock | Work

subsection \<open>The code\<close>

definition vga_print_code :: "instr list" where
  "vga_print_code = [Disable, Acquire WRITER, Work, Release WRITER, Restore]"

definition serial_print_code :: "instr list" where
  "serial_print_code = [Disable, Acquire SERIAL1, Work, Release SERIAL1, Restore]"

text \<open>\<open>alloc\<close> and \<open>dealloc\<close> of the global allocator lock it for their whole body.\<close>

definition alloc_code :: "instr list" where
  "alloc_code = [Acquire ALLOCATOR, Work, Release ALLOCATOR]"

definition lib_init_code :: "instr list" where
  "lib_init_code = [Work, Work, Acquire PICS, Work, Release PICS, Sti]"

definition sleep_code :: "instr list" where
  "sleep_code = [Cli, Work, Sti]"

definition end_of_interrupt_code :: "instr list" where
  "end_of_interrupt_code = [Acquire PICS, Work, Release PICS]"

definition timer_code :: "instr list" where
  "timer_code = vga_print_code @ end_of_interrupt_code"

text \<open>The keyboard handler prints a warning if the scancode cannot be queued.\<close>

definition keyboard_code :: "bool \<Rightarrow> instr list" where
  "keyboard_code warn = [Work] @ (if warn then vga_print_code else [Work]) @ end_of_interrupt_code"

text \<open>
  \<open>kernel_main\<close> up to the demonstrations of the heap: four prints, \<open>init\<close>, the
  page tables, \<open>init_heap\<close> with its lock of the allocator, a \<open>Box\<close>, a vector that
  grows \<open>n\<close> times, a reference-counted vector, and the prints between them.
\<close>

definition kernel_main_boot :: "nat \<Rightarrow> instr list" where
  "kernel_main_boot n =
     vga_print_code @ vga_print_code @ vga_print_code @ vga_print_code @
     lib_init_code @ [Work, Work] @ alloc_code @
     alloc_code @ vga_print_code @
     concat (replicate n alloc_code) @ vga_print_code @
     alloc_code @ alloc_code @ vga_print_code @ [Work] @ vga_print_code"

text \<open>What the running kernel is made of.\<close>

definition main_segments :: "instr list list" where
  "main_segments = [vga_print_code, serial_print_code, alloc_code, sleep_code, [Work]]"

text \<open>
  The end of \<open>kernel_main\<close>: a print, and the executor, which never returns; \<open>segs\<close>
  is what it and its tasks do, in any order.
\<close>

definition kernel_main_code :: "nat \<Rightarrow> instr list list \<Rightarrow> instr list" where
  "kernel_main_code n segs = kernel_main_boot n @ vga_print_code @ concat segs"

definition irq_handlers :: "instr list list" where
  "irq_handlers = [timer_code, keyboard_code False, keyboard_code True]"

subsection \<open>The processor\<close>

text \<open>
  A context is the code it has still to run and the flags its \<open>Disable\<close>s saved; the
  first context of the stack runs, the others are interrupted.
\<close>

record system =
  flag :: bool
  held :: "lock set"
  stack :: "(instr list \<times> bool list) list"

inductive sys_step :: "instr list list \<Rightarrow> system \<Rightarrow> system \<Rightarrow> bool" for H where
  step_work: "stack s = (Work # c, sv) # st \<Longrightarrow> sys_step H s (s\<lparr>stack := (c, sv) # st\<rparr>)"
| step_cli: "stack s = (Cli # c, sv) # st \<Longrightarrow> sys_step H s (s\<lparr>flag := False, stack := (c, sv) # st\<rparr>)"
| step_sti: "stack s = (Sti # c, sv) # st \<Longrightarrow> sys_step H s (s\<lparr>flag := True, stack := (c, sv) # st\<rparr>)"
| step_disable: "stack s = (Disable # c, sv) # st \<Longrightarrow>
    sys_step H s (s\<lparr>flag := False, stack := (c, flag s # sv) # st\<rparr>)"
| step_restore: "stack s = (Restore # c, b # sv) # st \<Longrightarrow>
    sys_step H s (s\<lparr>flag := (if b then True else flag s), stack := (c, sv) # st\<rparr>)"
| step_acquire: "stack s = (Acquire l # c, sv) # st \<Longrightarrow> l \<notin> held s \<Longrightarrow>
    sys_step H s (s\<lparr>held := insert l (held s), stack := (c, sv) # st\<rparr>)"
| step_release: "stack s = (Release l # c, sv) # st \<Longrightarrow>
    sys_step H s (s\<lparr>held := held s - {l}, stack := (c, sv) # st\<rparr>)"
| step_interrupt: "flag s \<Longrightarrow> h \<in> set H \<Longrightarrow> stack s \<noteq> [] \<Longrightarrow>
    sys_step H s (s\<lparr>flag := False, stack := (h, []) # stack s\<rparr>)"
| step_iret: "stack s = ([], sv) # ctx # st \<Longrightarrow> sys_step H s (s\<lparr>flag := True, stack := ctx # st\<rparr>)"

definition boot_state :: "instr list \<Rightarrow> system" where
  "boot_state main = \<lparr>flag = False, held = {}, stack = [(main, [])]\<rparr>"

text \<open>The running context spins on a lock that is held.\<close>

fun spinning :: "system \<Rightarrow> bool" where
  "spinning s = (case stack s of (Acquire l # _, _) # _ \<Rightarrow> l \<in> held s | _ \<Rightarrow> False)"

subsection \<open>Lock discipline\<close>

text \<open>
  The discipline of one context with flag \<open>i\<close>, saved flags \<open>sv\<close> and locks \<open>L\<close>:
  a lock that handlers use is taken and held only while interrupts are off.
\<close>

fun disciplined :: "bool \<Rightarrow> bool list \<Rightarrow> lock set \<Rightarrow> instr list \<Rightarrow> bool" where
  "disciplined i sv L [] \<longleftrightarrow> L = {}"
| "disciplined i sv L (Work # c) \<longleftrightarrow> disciplined i sv L c"
| "disciplined i sv L (Cli # c) \<longleftrightarrow> disciplined False sv L c"
| "disciplined i sv L (Sti # c) \<longleftrightarrow> L \<subseteq> {ALLOCATOR} \<and> disciplined True sv L c"
| "disciplined i sv L (Disable # c) \<longleftrightarrow> disciplined False (i # sv) L c"
| "disciplined i sv L (Restore # c) \<longleftrightarrow> (case sv of [] \<Rightarrow> False
     | b # sv \<Rightarrow> (b \<longrightarrow> L \<subseteq> {ALLOCATOR}) \<and> disciplined (if b then True else i) sv L c)"
| "disciplined i sv L (Acquire l # c) \<longleftrightarrow>
     l \<notin> L \<and> (i \<longrightarrow> l = ALLOCATOR) \<and> disciplined i sv (insert l L) c"
| "disciplined i sv L (Release l # c) \<longleftrightarrow> l \<in> L \<and> disciplined i sv (L - {l}) c"

text \<open>A handler runs with interrupts off, never sets the flag and never allocates.\<close>

definition handler_disciplined :: "bool list \<Rightarrow> lock set \<Rightarrow> instr list \<Rightarrow> bool" where
  "handler_disciplined sv L c \<longleftrightarrow> disciplined False sv L c \<and> Sti \<notin> set c \<and> Acquire ALLOCATOR \<notin> set c \<and>
     True \<notin> set sv \<and> ALLOCATOR \<notin> L"

definition lock_inv :: "system \<Rightarrow> bool" where
  "lock_inv s \<longleftrightarrow>
     (\<exists>c sv. stack s = [(c, sv)] \<and> disciplined (flag s) sv (held s) c \<and> (flag s \<longrightarrow> held s \<subseteq> {ALLOCATOR})) \<or>
     (\<exists>h svh c sv L M. stack s = [(h, svh), (c, sv)] \<and> \<not> flag s \<and> held s = L \<union> M \<and> M \<subseteq> {ALLOCATOR} \<and>
        handler_disciplined svh L h \<and> disciplined True sv M c)"

lemma lock_inv_not_spinning: "lock_inv s \<Longrightarrow> \<not> spinning s"
  by (auto simp: lock_inv_def handler_disciplined_def split: list.splits instr.splits)

text \<open>
  The running context can take its next step, without waiting for an interrupt, unless the
  main code has come to its end.
\<close>

definition finished :: "system \<Rightarrow> bool" where
  "finished s \<longleftrightarrow> map fst (stack s) = [[]]"

lemma running_step:
  assumes "stack s = (i # c, sv) # st" and "disciplined b sv L (i # c)" and "\<not> spinning s"
  shows "\<exists>s'. sys_step H s s'"
proof (cases i)
  case Restore
  with assms obtain b' sv' where "stack s = (Restore # c, b' # sv') # st" by (auto split: list.splits)
  then show ?thesis by (blast intro: step_restore)
next
  case (Acquire l)
  with assms show ?thesis by (auto intro: step_acquire)
qed (use assms(1) in \<open>auto intro: sys_step.intros\<close>)

lemma lock_inv_progress:
  assumes "lock_inv s"
  shows "finished s \<or> (\<exists>s'. sys_step H s s')"
proof -
  obtain c sv st b L where s: "stack s = (c, sv) # st" "disciplined b sv L c"
    using assms by (auto simp: lock_inv_def handler_disciplined_def)
  show ?thesis
  proof (cases c)
    case Nil
    then show ?thesis using s(1) by (cases st) (auto simp: finished_def intro: step_iret)
  next
    case (Cons i c')
    with running_step [of s i c' sv st b L H] s lock_inv_not_spinning [OF assms] show ?thesis by blast
  qed
qed

text \<open>A step of the main code alone, and a step while a handler runs.\<close>

lemma main_step:
  assumes "stack s = [(c, sv)]" and "disciplined (flag s) sv (held s) c" and "flag s \<longrightarrow> held s \<subseteq> {ALLOCATOR}"
    and "\<forall>h\<in>set H. handler_disciplined [] {} h" and "sys_step H s s'"
  shows "lock_inv s'"
  using assms(5)
proof (cases rule: sys_step.cases)
  case interrupt: (step_interrupt h)
  then have "held s' = {} \<union> held s" "held s \<subseteq> {ALLOCATOR}" "handler_disciplined [] {} h"
    "disciplined True sv (held s) c" using assms by auto
  moreover have "stack s' = [(h, []), (c, sv)]" "\<not> flag s'" using interrupt assms(1) by auto
  ultimately show ?thesis unfolding lock_inv_def by blast
qed (use assms in \<open>auto simp: lock_inv_def split: if_splits\<close>)

lemma handler_step:
  assumes "stack s = [(h, svh), (c, sv)]" and "\<not> flag s" and "held s = L \<union> M" and "M \<subseteq> {ALLOCATOR}"
    and "handler_disciplined svh L h" and "disciplined True sv M c" and "sys_step H s s'"
  shows "lock_inv s'"
proof -
  have two: "lock_inv s'" if "stack s' = [(h', svh'), (c, sv)]" "\<not> flag s'" "held s' = L' \<union> M"
    "handler_disciplined svh' L' h'" for h' svh' L'
    using that assms(4,6) unfolding lock_inv_def by blast
  from assms(7) show ?thesis
  proof (cases rule: sys_step.cases)
    case acquire: (step_acquire l c' sv' st)
    then show ?thesis
      using assms by (intro two [of c' svh "insert l L"]) (auto simp: handler_disciplined_def)
  next
    case release: (step_release l c' sv' st)
    moreover have "l \<notin> M" using release assms by (auto simp: handler_disciplined_def)
    ultimately show ?thesis
      using assms by (intro two [of c' svh "L - {l}"]) (auto simp: handler_disciplined_def)
  next
    case disable: (step_disable c' sv' st)
    then show ?thesis using assms by (intro two [of c' "False # svh" L]) (auto simp: handler_disciplined_def)
  next
    case restore: (step_restore c' b sv' st)
    then show ?thesis using assms by (intro two [of c' sv' L]) (auto simp: handler_disciplined_def)
  next
    case iret: (step_iret sv' ctx st)
    then have "L = {}" "held s' = M" "flag s'" "stack s' = [(c, sv)]" using assms by (auto simp: handler_disciplined_def)
    then show ?thesis using assms(4,6) by (auto simp: lock_inv_def)
  next
    case work: (step_work c' sv' st)
    then show ?thesis using assms by (intro two [of c' svh L]) (auto simp: handler_disciplined_def)
  next
    case cli: (step_cli c' sv' st)
    then show ?thesis using assms by (intro two [of c' svh L]) (auto simp: handler_disciplined_def)
  qed (use assms in \<open>auto simp: handler_disciplined_def\<close>)
qed

lemma lock_inv_step:
  assumes "\<forall>h\<in>set H. handler_disciplined [] {} h" and "lock_inv s" and "sys_step H s s'"
  shows "lock_inv s'"
  using assms(2) [unfolded lock_inv_def] main_step [OF _ _ _ assms(1,3)] handler_step [OF _ _ _ _ _ _ assms(3)] by blast

lemma lock_inv_reachable:
  assumes "\<forall>h\<in>set H. handler_disciplined [] {} h" and "(sys_step H)\<^sup>*\<^sup>* s s'" and "lock_inv s"
  shows "lock_inv s'"
  using assms(2,3) by (induction rule: rtranclp_induct) (auto intro: lock_inv_step [OF assms(1)])

text \<open>Code in segments that leave the flag and the locks as they found them.\<close>

lemma handlers_disciplined: "\<forall>h\<in>set irq_handlers. handler_disciplined [] {} h"
  by (simp add: irq_handlers_def timer_code_def keyboard_code_def vga_print_code_def end_of_interrupt_code_def
      handler_disciplined_def)

lemma segment_disciplined:
  assumes "seg \<in> set main_segments"
  shows "disciplined True [] {} (seg @ c) = disciplined True [] {} c"
  using assms by (auto simp: main_segments_def vga_print_code_def serial_print_code_def alloc_code_def sleep_code_def)

lemma segments_disciplined: "set segs \<subseteq> set main_segments \<Longrightarrow> disciplined True [] {} (concat segs)"
  by (induction segs) (simp_all add: segment_disciplined)

lemma print_segment_disciplined: "disciplined False [] {} (vga_print_code @ c) = disciplined False [] {} c"
  by (simp add: vga_print_code_def)

lemma init_segment_disciplined: "disciplined False [] {} (lib_init_code @ c) = disciplined True [] {} c"
  by (simp add: lib_init_code_def)

lemma kernel_main_inv:
  assumes "set segs \<subseteq> set main_segments"
  shows "lock_inv (boot_state (kernel_main_code n segs))"
proof -
  have seg: "disciplined True [] {} (seg @ c) = disciplined True [] {} c"
    if "seg \<in> {vga_print_code, alloc_code}" for seg c
    using that by (intro segment_disciplined) (auto simp: main_segments_def)
  have rep: "disciplined True [] {} (concat (replicate n alloc_code) @ c) = disciplined True [] {} c" for c
    by (induction n) (simp_all add: seg)
  have "disciplined False [] {} (kernel_main_code n segs)"
    using segments_disciplined [OF assms]
    by (simp add: kernel_main_code_def kernel_main_boot_def print_segment_disciplined init_segment_disciplined seg rep)
  then show ?thesis by (simp add: lock_inv_def boot_state_def)
qed

text \<open>
  Without the guard the lock would not be safe: a print that only takes the lock, struck
  by the timer, leaves the timer handler spinning.
\<close>

lemma unguarded_print_spins:
  "\<exists>s. (sys_step irq_handlers)\<^sup>*\<^sup>* (boot_state [Sti, Acquire WRITER, Work, Release WRITER]) s \<and> spinning s"
proof -
  let ?main = "([Work, Release WRITER], [])"
  let ?s = "\<lparr>flag = False, held = {WRITER}, stack = [([Acquire WRITER, Work, Release WRITER, Restore] @ end_of_interrupt_code, [False]), ?main]\<rparr>"
  have H: "timer_code \<in> set irq_handlers" by (simp add: irq_handlers_def)
  have "(sys_step irq_handlers)\<^sup>*\<^sup>* (boot_state [Sti, Acquire WRITER, Work, Release WRITER])
      \<lparr>flag = False, held = {WRITER}, stack = [(timer_code, []), ?main]\<rparr>"
    unfolding boot_state_def
    by (rule converse_rtranclp_into_rtranclp, rule step_sti, simp,
        rule converse_rtranclp_into_rtranclp, rule step_acquire, simp, simp,
        rule converse_rtranclp_into_rtranclp, rule step_interrupt [OF _ H], simp_all)
  moreover have "sys_step irq_handlers \<lparr>flag = False, held = {WRITER}, stack = [(timer_code, []), ?main]\<rparr> ?s"
    using step_disable [of "\<lparr>flag = False, held = {WRITER}, stack = [(timer_code, []), ?main]\<rparr>"]
    by (simp add: timer_code_def vga_print_code_def)
  ultimately have "(sys_step irq_handlers)\<^sup>*\<^sup>* (boot_state [Sti, Acquire WRITER, Work, Release WRITER]) ?s" by simp
  then show ?thesis by (intro exI [of _ ?s]) simp
qed

subsection \<open>Properties\<close>

text \<open>
  C7. No spin lock is ever waited for: in every state that the kernel reaches, whatever
  it prints, allocates or sleeps and wherever the timer and keyboard interrupts strike,
  the running code does not spin on a lock that is held, and it can take its next step by
  itself, without a further interrupt, unless all code has been run.
\<close>

theorem locks_never_block:
  assumes "set segs \<subseteq> set main_segments"
    and "(sys_step irq_handlers)\<^sup>*\<^sup>* (boot_state (kernel_main_code n segs)) s"
  shows "\<not> spinning s \<and> (finished s \<or> (\<exists>s'. sys_step [] s s'))"
  using lock_inv_reachable [OF handlers_disciplined assms(2) kernel_main_inv [OF assms(1)]]
  by (simp add: lock_inv_not_spinning lock_inv_progress del: spinning.simps)

text \<open>Running a context to the end of a segment, without interrupts.\<close>

fun run_code :: "nat \<Rightarrow> system \<Rightarrow> system" where
  "run_code 0 s = s"
| "run_code (Suc n) s =
     (case stack s of
        (Work # c, sv) # st \<Rightarrow> run_code n (s\<lparr>stack := (c, sv) # st\<rparr>)
      | (Cli # c, sv) # st \<Rightarrow> run_code n (s\<lparr>flag := False, stack := (c, sv) # st\<rparr>)
      | (Sti # c, sv) # st \<Rightarrow> run_code n (s\<lparr>flag := True, stack := (c, sv) # st\<rparr>)
      | (Disable # c, sv) # st \<Rightarrow> run_code n (s\<lparr>flag := False, stack := (c, flag s # sv) # st\<rparr>)
      | (Restore # c, b # sv) # st \<Rightarrow> run_code n (s\<lparr>flag := (if b then True else flag s), stack := (c, sv) # st\<rparr>)
      | (Acquire l # c, sv) # st \<Rightarrow>
          if l \<in> held s then s else run_code n (s\<lparr>held := insert l (held s), stack := (c, sv) # st\<rparr>)
      | (Release l # c, sv) # st \<Rightarrow> run_code n (s\<lparr>held := held s - {l}, stack := (c, sv) # st\<rparr>)
      | _ \<Rightarrow> s)"

lemma run_code_steps: "(sys_step H)\<^sup>*\<^sup>* s (run_code n s)"
proof (induction n s rule: run_code.induct)
  case (1 s)
  then show ?case by simp
next
  case (2 n s)
  then show ?case
    by (auto split: list.splits prod.splits instr.splits
        intro: converse_rtranclp_into_rtranclp sys_step.intros)
qed

text \<open>The timer interrupt strikes while the vector of \<open>kernel_main\<close> grows, and prints.\<close>

lemma example_reachable:
  "\<exists>s. (sys_step irq_handlers)\<^sup>*\<^sup>* (boot_state (kernel_main_code 1 [sleep_code])) s \<and>
     held s = {ALLOCATOR, WRITER} \<and> length (stack s) = 2"
proof -
  let ?s1 = "run_code 41 (boot_state (kernel_main_code 1 [sleep_code]))"
  let ?s2 = "?s1\<lparr>flag := False, stack := (timer_code, []) # stack ?s1\<rparr>"
  note code = kernel_main_code_def kernel_main_boot_def lib_init_code_def alloc_code_def vga_print_code_def
  have s1: "flag ?s1" "stack ?s1 \<noteq> []" "held ?s1 = {ALLOCATOR}" "length (stack ?s1) = 1"
    by (simp_all add: boot_state_def code eval_nat_numeral)
  have "timer_code \<in> set irq_handlers" by (simp add: irq_handlers_def)
  from step_interrupt [OF s1(1) this s1(2)] run_code_steps [where H = irq_handlers and n = 41]
  have "(sys_step irq_handlers)\<^sup>*\<^sup>* (boot_state (kernel_main_code 1 [sleep_code])) ?s2"
    by (meson rtranclp.rtrancl_into_rtrancl)
  with run_code_steps [where H = irq_handlers and n = 2 and s = ?s2]
  have "(sys_step irq_handlers)\<^sup>*\<^sup>* (boot_state (kernel_main_code 1 [sleep_code])) (run_code 2 ?s2)"
    by (meson rtranclp_trans)
  moreover have "held (run_code 2 ?s2) = {ALLOCATOR, WRITER}" "length (stack (run_code 2 ?s2)) = 2"
    using s1(3,4) by (simp_all add: timer_code_def vga_print_code_def numeral_2_eq_2 insert_commute)
  ultimately show ?thesis by blast
qed

theorem locks_never_block_witness:
  "\<exists>s s'. (sys_step irq_handlers)\<^sup>*\<^sup>* (boot_state (kernel_main_code 1 [sleep_code])) s \<and>
     held s = {ALLOCATOR, WRITER} \<and> length (stack s) = 2 \<and> \<not> spinning s \<and> sys_step [] s s'"
proof -
  obtain s where s: "(sys_step irq_handlers)\<^sup>*\<^sup>* (boot_state (kernel_main_code 1 [sleep_code])) s"
    "held s = {ALLOCATOR, WRITER}" "length (stack s) = 2" using example_reachable by blast
  have "\<not> finished s" using arg_cong [of "map fst (stack s)" "[[]]" length] s(3) by (auto simp: finished_def)
  moreover have "\<not> spinning s \<and> (finished s \<or> (\<exists>s'. sys_step [] s s'))"
    by (rule locks_never_block [OF _ s(1)]) (simp add: main_segments_def)
  ultimately show ?thesis using s by blast
qed

end
