(* ===== verification/Waker_Cache.thy ===== *)
theory Waker_Cache
  imports Main_Tasks
begin

text \<open>
  Why the executor caches wakers, \<open>src/task/executor.rs\<close>: a waker is reference-counted,
  the interrupt handler drops the reference it takes from the slot of the keyboard, and a
  handler that drops the last one would deallocate, which must not happen in a handler.
  Wakers are values here, without reference counts. What is shown is that between polls
  an equal waker is in the cache whenever one is registered, as the comment on
  \<open>waker_cache\<close> wants it; a poll registers only the waker it was given
  (\<open>print_keypresses_slot\<close>), which the loop has cached before.
\<close>

text \<open>A poll of the stream never ends it.\<close>

lemma poll_next_not_ended: "poll_next P cx k = Ret (r, k') \<Longrightarrow> r \<noteq> Ready None"
  by (auto simp: poll_next_def poll_next_second_def Let_def split: option.splits)

lemma keypresses_pending:
  assumes "keypresses_loop P K cx kb k = Some (Ret (x, f, k'))"
  shows "x = Pending"
  using assms by (induction rule: keypresses_loop_induct) (auto dest: poll_next_not_ended)

text \<open>The registered waker has a cache entry, and its task is the keyboard task.\<close>

definition wakers_cached ::
  "('aw \<Rightarrow> waker option) \<Rightarrow> 'kb main_future executor \<Rightarrow> ('cell, 'aw, 'tq, 'c) kernel \<Rightarrow> bool" where
  "wakers_cached slot e k \<longleftrightarrow> (\<forall>w. slot (keyboard_waker k) = Some w \<longrightarrow>
     (\<exists>t task f. w = TaskWaker t \<and> waker_cache e t = Some w \<and> tasks e t = Some task \<and> future task = KeyboardTask f))"

text \<open>What a part of the kernel may do to the slot: leave it, empty it, or register \<open>cx\<close>.\<close>

definition slot_moves :: "('aw \<Rightarrow> waker option) \<Rightarrow> waker set \<Rightarrow> ('cell, 'aw, 'tq, 'c) kernel \<Rightarrow> ('cell, 'aw, 'tq, 'c) kernel \<Rightarrow> bool" where
  "slot_moves slot W k k' \<longleftrightarrow> slot (keyboard_waker k') \<in> {slot (keyboard_waker k), None} \<union> Some ` W"

lemma slot_moves_refl [simp]: "slot_moves slot W k k"
  by (simp add: slot_moves_def)

lemma slot_moves_trans: "slot_moves slot W k k' \<Longrightarrow> slot_moves slot W k' k'' \<Longrightarrow> slot_moves slot W k k''"
  by (auto simp: slot_moves_def)

lemma slot_moves_mono: "slot_moves slot {} k k' \<Longrightarrow> slot_moves slot W k k'"
  by (auto simp: slot_moves_def)

context kernel_prims
begin

lemma serve_slot: "serve_irq P i k = Ret k' \<Longrightarrow> slot_moves slot {} k k'"
proof -
  have wake: "slot_moves slot {} k k'" if "keyboard_wake P k = Ret k'" for k k'
  proof -
    have "waker_wake P w j = Ret k' \<Longrightarrow> keyboard_waker k' = keyboard_waker j" for w j
      by (cases w) (auto simp: wake_task_def)
    with that waker_wake_law [of "keyboard_waker k"] show ?thesis
      by (auto simp: keyboard_wake_def slot_moves_def Let_def split: prod.splits option.splits)
  qed
  have "add_scancode P c k = Ret k' \<Longrightarrow> slot_moves slot {} k k'" for c
    using wake [of "k\<lparr>scancode_queue := _\<rparr>" k']
    by (auto simp: add_scancode_def kernel_println_def slot_moves_def split: option.splits)
  then show "serve_irq P i k = Ret k' \<Longrightarrow> slot_moves slot {} k k'"
    by (cases i) (auto simp: kernel_print_def slot_moves_def)
qed

lemma interrupt_slot: "interrupt_point P k = Ret k' \<Longrightarrow> slot_moves slot {} k k'"
proof -
  have "for_each is (serve_irq P) k = Ret k' \<Longrightarrow> slot_moves slot {} k k'" for "is" k
    by (induction "is" arbitrary: k) (auto dest!: serve_slot intro: slot_moves_trans)
  from this [of _ "k\<lparr>arrivals := _\<rparr>"] show "interrupt_point P k = Ret k' \<Longrightarrow> slot_moves slot {} k k'"
    by (auto simp: interrupt_point_def slot_moves_def split: if_splits list.splits)
qed

lemma poll_next_slot:
  assumes "poll_next P cx k = Ret (r, k')"
  shows "slot_moves slot {cx} k k'"
proof -
  have pop: "keyboard_waker k2 = keyboard_waker k1" if "scan_pop P k1 = Ret (x, k2)" for k1 k2 x
    using that by (auto simp: scan_pop_def split: option.splits)
  have second: "slot_moves slot {} k1 k2" if "poll_next_second P k1 = Ret (x, k2)" for k1 k2 x
    using that waker_take_law
    by (auto simp: poll_next_second_def slot_moves_def split: option.splits dest!: pop interrupt_slot)
  from assms waker_register_law [of cx] show ?thesis
    by (auto simp: poll_next_def slot_moves_def Let_def split: option.splits dest!: pop second interrupt_slot)
qed

lemma keypresses_slot:
  assumes "keypresses_loop P K cx kb k = Some (Ret (x, f, k'))"
  shows "slot_moves slot {cx} k k'"
  using assms
proof (induction rule: keypresses_loop_induct)
  case (key kb k c k1 kb' k2 x f k')
  have "slot_moves slot {cx} k1 k2" using key(2) by (auto simp: handle_scancode_decode slot_moves_def)
  with poll_next_slot [OF key(1)] key.IH show ?case by (blast intro: slot_moves_trans)
qed (auto dest: poll_next_slot)

lemma print_keypresses_slot:
  assumes "print_keypresses P K f cx k = Ret (r, f', k')"
  shows "r = Pending \<and> slot_moves slot {cx} k k'"
proof -
  have loop: "r = Pending \<and> slot_moves slot {cx} j k'" if "loop_outcome (keypresses_loop P K cx kb j) = Ret (r, f', k')" for kb j
    using that keypresses_pending keypresses_slot by (cases "keypresses_loop P K cx kb j") auto
  from assms loop show ?thesis
    by (cases f) (auto simp: scancode_stream_new_def slot_moves_def)
qed

text \<open>A turn of the loop keeps registered wakers cached.\<close>

lemma ready_turn_cached:
  assumes "ready_turn (main_poll P K) tid e k e2 k2" and "executor_wf e" and "wakers_cached slot e k"
  shows "wakers_cached slot e2 k2"
  using assms(1)
proof (cases rule: ready_turn.cases)
  case turn_gone
  with assms(3) show ?thesis by simp
next
  case ready: (turn_ready task u task')
  then have "future task = ExampleStart" "keyboard_waker k2 = keyboard_waker k"
    by (cases "future task"; auto simp: task_poll_def async_number_def dest!: print_keypresses_slot)+
  with assms(3) ready show ?thesis by (force simp: wakers_cached_def)
next
  case pending: (turn_pending task task')
  have "(case waker_cache e tid of Some w \<Rightarrow> w | None \<Rightarrow> task_waker_new tid) = TaskWaker tid"
    using assms(2) by (auto simp: executor_wf_def task_waker_new_def split: option.splits)
  moreover from pending this obtain f f' where "future task = KeyboardTask f" "future task' = KeyboardTask f'" "slot_moves slot {TaskWaker tid} k k2"
    by (cases "future task") (auto simp: task_poll_def async_number_def dest!: print_keypresses_slot)
  ultimately have e2: "waker_cache e2 = (waker_cache e)(tid \<mapsto> TaskWaker tid)" "tasks e2 = (tasks e)(tid \<mapsto> task')"
    "future task' = KeyboardTask f'" "slot_moves slot {TaskWaker tid} k k2" using pending by simp_all
  show ?thesis
    unfolding wakers_cached_def
  proof (intro allI impI)
    fix w assume "slot (keyboard_waker k2) = Some w"
    with e2(4) have "slot (keyboard_waker k) = Some w \<or> w = TaskWaker tid" by (auto simp: slot_moves_def)
    then consider "w = TaskWaker tid" | t task f where "w = TaskWaker t" "waker_cache e t = Some w" "tasks e t = Some task" "future task = KeyboardTask f"
      using assms(3) by (auto simp: wakers_cached_def)
    then show "\<exists>t task f. w = TaskWaker t \<and> waker_cache e2 t = Some w \<and> tasks e2 t = Some task \<and> future task = KeyboardTask f"
      using e2(1-3) by cases auto
  qed
qed

lemma slot_moves_cached: "slot_moves slot {} k k' \<Longrightarrow> wakers_cached slot e k \<Longrightarrow> wakers_cached slot e k'"
  by (auto simp: slot_moves_def wakers_cached_def)

lemma ready_loop_cached:
  assumes "ready_loop P (main_poll P K) e k = Some (Ret (e', k'))" and "executor_wf e" and "wakers_cached slot e k"
  shows "executor_wf e' \<and> wakers_cached slot e' k'"
  using assms
proof (induction rule: ready_loop_induct)
  case (turn e k k1 tid tq e2 k2 e' k')
  have "wakers_cached slot e (k1\<lparr>task_queue := tq\<rparr>)"
    using slot_moves_cached [OF interrupt_slot [OF turn(1)] turn.prems(2)] by (simp add: wakers_cached_def)
  from ready_turn_cached [OF turn(3) turn.prems(1) this] ready_turn_wf [OF turn(3) turn.prems(1)] turn.IH show ?case by blast
qed (auto dest: interrupt_slot intro: slot_moves_cached)

lemma sleep_slot:
  assumes "sleep_if_idle P k = Ret (r, k')"
  shows "slot_moves slot {} k k'"
  using assms
  by (auto simp: sleep_if_idle_def enable_and_hlt_def slot_moves_def Let_def split: if_splits dest!: interrupt_slot)

lemma run_turns_cached:
  assumes "run_turns P (main_poll P K) n e k = Ret (e', k')" and "executor_wf e" and "wakers_cached slot e k"
  shows "executor_wf e' \<and> wakers_cached slot e' k'"
  using assms
proof (induction n arbitrary: e k)
  case (Suc n)
  then obtain e1 k1 r k2 where r: "ready_loop P (main_poll P K) e k = Some (Ret (e1, k1))" "sleep_if_idle P k1 = Ret (r, k2)"
    "(if r = Asleep then Ret (e1, k2) else run_turns P (main_poll P K) n e1 k2) = Ret (e', k')"
    by (cases "ready_loop P (main_poll P K) e k") (auto simp: run_ready_tasks_def)
  from ready_loop_cached [OF r(1) Suc.prems(2,3)] slot_moves_cached [OF sleep_slot [OF r(2)]]
  have "executor_wf e1" "wakers_cached slot e1 k2" by blast+
  with Suc.IH r(3) show ?case by (auto split: if_splits)
qed simp

end

text \<open>
  C20. Why wakers are cached: after any number of turns of the kernel's executor, under
  every schedule of interrupts, the waker that the keyboard's slot holds, and that the next
  key press takes out and drops, is also in the executor's cache, under the id of its
  task, which is still there. (That the cached waker is a further reference to the same
  allocation, so that the handler does not deallocate, is not expressed: wakers are values.)
\<close>

theorem registered_wakers_cached:
  fixes K :: "('kb, 'ev, 'ch, 'kc) keyboard_ops"
  assumes "kernel_prims P scon scap tcon tcap slot" and "slot (keyboard_waker k) = None"
    and "main_tasks P K n k = Ret (e, k')" and "slot (keyboard_waker k') = Some w"
  shows "\<exists>t task. w = TaskWaker t \<and> waker_cache e t = Some w \<and> tasks e t = Some task \<and> task_id task = t"
proof -
  let ?e = "\<lparr>tasks = [0 \<mapsto> \<lparr>task_id = 0, future = ExampleStart\<rparr>, 1 \<mapsto> \<lparr>task_id = 1, future = KeyboardTask KeypressesStart\<rparr>],
    waker_cache = Map.empty\<rparr> :: 'kb main_future executor"
  from assms(3) obtain e1 k1 where s: "spawn_tasks P k = Ret (e1, k1)" "run_turns P (main_poll P K) n e1 k1 = Ret (e, k')"
    by (auto simp: main_tasks_def)
  have "\<exists>tq. spawn_tasks P k = Ret (?e, k\<lparr>task_queue := tq\<rparr>) \<and> tcon tq = [0, 1] \<and> tcap tq = 100"
    by (rule kernel_prims.spawn_tasks_law [OF assms(1)])
  with s(1) have "e1 = ?e" "keyboard_waker k1 = keyboard_waker k" by auto
  then have "executor_wf e1" "wakers_cached slot e1 k1" using assms(2) by (auto simp: executor_wf_def wakers_cached_def)
  from kernel_prims.run_turns_cached [OF assms(1) s(2) this] assms(4) show ?thesis
    by (auto simp: wakers_cached_def executor_wf_def)
qed

theorem registered_wakers_cached_witness:
  "\<exists>e k'. main_tasks list_prims echo_keyboard 4
      ((example_kernel [[], [], [KeyPressed 65]])\<lparr>scancode_queue := None\<rparr>) = Ret (e, k') \<and>
    keyboard_waker k' = Some (TaskWaker 1) \<and> waker_cache e 1 = Some (TaskWaker 1)"
proof -
  let ?k = "(example_kernel [[], [], [KeyPressed 65]])\<lparr>scancode_queue := None\<rparr>"
  have b: "booted list_prims id ?k" and as: "arrivals ?k = [[], [], [KeyPressed 65]]" and k: "id (keyboard_waker ?k) = None"
    using example_writer_wf by (simp_all add: booted_def example_kernel_def list_prims_def option_cell_def)
  have "paced (arrivals ?k)" "length (arrivals ?k) < 4" unfolding as by (rule paced_few) simp_all
  from kernel_prims.main_tasks_law [OF list_prims.kernel_prims_axioms b this, of echo_keyboard] obtain e k' where
    r: "main_tasks list_prims echo_keyboard 4 ?k = Ret (e, k')" "id (keyboard_waker k') = Some (TaskWaker 1)" by blast
  from registered_wakers_cached [OF list_prims.kernel_prims_axioms k r] r show ?thesis by auto
qed

end
