(* ===== verification/Spec2Isabelle.thy ===== *)
theory Spec2Isabelle
  imports Integration_Tests Kernel_Faults Lock_Steps Waker_Cache
begin

text \<open>
  A verification of TaijiOS, a small x86\_64 kernel in Rust: its three heap allocators,
  the creation of the heap, the frame allocator, the VGA text driver, the serial port, the
  cooperative task executors with the keyboard task, the interrupt machinery around them,
  the kernel's entry point, and its test framework with all test binaries. The
  definitions follow the sources under \<open>src/src/\<close> and \<open>src/tests/\<close> function by
  function; this header says which theory models what, and what is shown.

  \<^bold>\<open>Conventions.\<close> Code that can panic or loop returns an \<open>outcome\<close>: a value, a
  panic with its cause, or \<open>Diverge\<close>. Integers are words of their width; \<open>+\<close> and
  \<open>-\<close> on \<open>usize\<close> panic on overflow as in the dev profile the kernel is built with,
  \<open>checked_add\<close> returns \<open>None\<close>. A program of the whole machine returns a \<open>run\<close>: it
  returns, panics, loops for ever, ends the virtual machine with a status, or resets the
  processor. Loops over ranges are \<open>for_each\<close>; loops that follow
  pointers or queues are partial functions with result \<open>None\<close> when they do not end,
  and their termination is proved, so no fuel is used anywhere. Methods that mutate
  \<open>self\<close> or statics take the state and return it. What belongs to the crates
  (\<open>x86_64\<close>, \<open>bootloader\<close>, \<open>linked_list_allocator\<close>, \<open>volatile\<close>,
  \<open>crossbeam_queue\<close>, \<open>conquer_once\<close>, \<open>futures_util\<close>, \<open>pc_keyboard\<close>,
  \<open>pic8259\<close>, \<open>uart_16550\<close>) is a record of operations that the definitions take as an argument; a
  locale states its documented behaviour, is assumed by the theorems that need it, and is
  interpreted on an executable instance, so that it is known to be satisfiable.

  \<^bold>\<open>Memory allocation.\<close>
  \<^item> \<open>Prelude\<close>: words, outcomes, checked arithmetic, loops, powers of two.
  \<^item> \<open>Byte_Memory\<close>: memory as bytes, little-endian words in it, optional pointers with
    the null niche, disjoint address ranges.
  \<^item> \<open>Alloc_Layout\<close>: \<open>core::alloc::Layout\<close>, blocks, and what it means for a set
    of live blocks to be sound in a heap.
  \<^item> \<open>Global_Alloc\<close>: the trait \<open>GlobalAlloc\<close> as the locale \<open>global_alloc\<close>, and a
    client program that allocates, frees and stores; the locale proves once that under
    the contract every such program runs without a panic, on disjoint blocks, with its
    data intact, as long as it keeps to the layouts the allocator accepts (requests
    outside are not made by the client). Two further locales, \<open>roomy_alloc\<close> and \<open>reusing_alloc\<close>, promise
    that requests within a budget of bytes succeed and that freed memory serves again;
    all three allocators are interpreted where they keep them.
  \<^item> \<open>Allocator\<close> (\<open>allocator.rs\<close>): the heap constants, \<open>align_up\<close> in its bit-mask
    form, shown to be the least aligned address and compared with the remainder form that
    a comment keeps as its explanation, and the \<open>Dummy\<close> allocator.
  \<^item> \<open>Bump_Allocator\<close> (\<open>allocator/bump.rs\<close>): all operations; the contract, the
    result of \<open>alloc\<close> on every branch, the reset.
  \<^item> \<open>Linked_List_Allocator\<close> (\<open>allocator/linked_list.rs\<close>): the free list as nodes in
    the managed bytes; the search loop ends and takes the first region that fits, the
    allocator implements first fit on abstract regions and keeps the contract; two
    deviations from what is intended (lost alignment gaps, a panic for oversized
    layouts).
  \<^item> \<open>Fixed_Size_Block\<close> (\<open>allocator/fixed_size_block.rs\<close>), the registered global
    allocator: the nine block lists over a fallback heap. The locale
    \<open>fallback_heap\<close> is the contract of the crate's heap, met by the repository's own
    linked-list allocator; a \<open>sublocale\<close> shows that the block allocator keeps the
    contract of \<open>GlobalAlloc\<close> over it.
  \<^item> \<open>Frame_Memory\<close> (\<open>memory.rs\<close>): the frame allocator over the memory map hands out
    exactly the usable frames, once each; the level 4 table.
  \<^item> \<open>Heap_Init\<close> (\<open>init_heap\<close> of \<open>allocator.rs\<close>): pages, frames, mapping and
    initialisation with all error paths.
  \<^item> \<open>Heap_Values\<close>, \<open>Heap_Rc\<close>: \<open>Box\<close>, \<open>Vec\<close> and \<open>Rc\<close> as the \<open>alloc\<close> crate
    has them, down to their bytes, over any global allocator, with the kernel's
    \<open>alloc_error_handler\<close>; values do not disturb each other.
  \<^item> \<open>Heap_Tests\<close> (\<open>tests/heap_allocation.rs\<close>): the four tests pass on every roomy
    allocator that reuses memory; on the bump allocator the last one runs out.

  \<^bold>\<open>Output.\<close>
  \<^item> \<open>Vga_Buffer\<close> (\<open>vga_buffer.rs\<close>): the writer with its bounds-checked buffer
    accesses refines a terminal with an unbounded log of lines.
  \<^item> \<open>Screen_Log\<close>: texts of several writers on one screen; a program's texts are shown
    in order amid those of the interrupt handlers.
  \<^item> \<open>Serial_Port\<close> (\<open>serial.rs\<close>): the port and its macros; the locale
    \<open>serial_line\<close> is what the \<open>uart_16550\<close> crate promises.

  \<^bold>\<open>Tasks and interrupts.\<close>
  \<^item> \<open>Task\<close> (\<open>task/mod.rs\<close>, \<open>task/simple_executor.rs\<close>): tasks, ids, the FIFO
    executor, its rounds and its termination. Futures are an argument.
  \<^item> \<open>Sync_Prims\<close>: the shared queues, the once-cell, the waker slot, and the kernel's
    shared state. Its field \<open>arrivals\<close> is the schedule of timer and keyboard interrupts:
    the burst that arrives at each point at which running code can be interrupted. The
    operations on the shared structures are atomic (they are lock-free structures with
    atomic effect), so quantifying over schedules covers every interleaving with the
    interrupt handlers. The effect of the handlers on this state is \<open>serve_irq\<close> of
    \<open>Keyboard\<close>; \<open>Interrupts\<close> shows that the handlers are this and the
    acknowledgement.
  \<^item> \<open>Keyboard\<close> (\<open>task/keyboard.rs\<close> and the wakers of \<open>task/executor.rs\<close>): no lost
    wake-up, no lost or reordered scancode, what a burst of interrupts does exactly, also
    beyond the capacity of the queue, and the one way in which wake-ups can overflow the
    task queue.
  \<^item> \<open>Executor\<close> (\<open>task/executor.rs\<close>): the loop over ready tasks, its turns as a step
    relation with an induction rule, and sleeping: \<open>enable_and_hlt\<close> sleeps until an
    interrupt arrives, for ever if none does. \<open>run\<close> does not return, so its behaviour
    is stated for every number of turns of its loop, or until the processor sleeps for ever.
  \<^item> \<open>Key_Rate\<close>: what code does depends only on the interrupts it meets, and a turn of the
    executor meets a bounded number of them; so all keys are printed for schedules of any
    length, as long as the keys do not come faster than the queues can take.
  \<^item> \<open>Waker_Cache\<close>: a registered waker is cached, as the comment on \<open>waker_cache\<close> in
    \<open>task/executor.rs\<close> wants it.
  \<^item> \<open>Interrupts\<close> (\<open>interrupts.rs\<close>, \<open>gdt.rs\<close>, \<open>init\<close> of \<open>lib.rs\<close>): the
    descriptor tables, the statements of \<open>init\<close>, handlers.
  \<^item> \<open>Lock_Steps\<close>: spin locks and the interrupt flag as a step relation; no reachable
    state spins on a held lock, and the running code can always go on.
  \<^item> \<open>Main_Tasks\<close> (\<open>main.rs\<close>, the tasks): \<open>example_task\<close> beside the keyboard task
    on the executor, and what they print.

  \<^bold>\<open>The machine and its programs.\<close>
  \<^item> \<open>Machine_Run\<close>: results of programs of the whole machine, their sequencing and panic
    handlers.
  \<^item> \<open>Cpu_Exceptions\<close>: how the processor delivers exceptions through the tables of
    \<open>gdt.rs\<close> and \<open>interrupts.rs\<close>; a stack overflow reaches the double fault handler
    on its own stack.
  \<^item> \<open>Kernel_Machine\<close>: the machine as one record, interrupts delivered through the loaded
    table at every point where they are enabled, output under
    \<open>without_interrupts\<close>, \<open>init\<close> with interrupts before each of its statements, and
    \<open>hlt_loop\<close>, which serves the interrupts that are left. The predicates \<open>displays\<close> and
    \<open>sends\<close> say what went to the screen, up to the texts of interrupt handlers, and to
    the serial line; the locale \<open>platform\<close> follows programs through every schedule. Called with
    interrupts off, \<open>init\<close> takes none before all tables are loaded.
  \<^item> \<open>Test_Runner\<close> (\<open>lib.rs\<close>, tests of \<open>vga_buffer.rs\<close>): the test framework and its
    verdict, the exit through QEMU's debug port, the library's test binary.
  \<^item> \<open>Kernel_Boot\<close>: from the boot information to the heap, as \<open>main.rs\<close> and
    \<open>tests/heap_allocation.rs\<close> have it.
  \<^item> \<open>Integration_Tests\<close> (\<open>tests/\<close>): the four test binaries end QEMU with the status
    of success and send exactly the expected report.
  \<^item> \<open>Kernel_Main\<close> (\<open>main.rs\<close>): \<open>kernel_main\<close> from its first line to the idle
    executor, its panic handlers and its test build; one schedule of interrupts runs
    through the boot, on the machine, and then through the executor.
  \<^item> \<open>Kernel_Faults\<close>: every exception of the processor is reported, and a boot without
    usable memory ends in the kernel's panic message.
  \<^item> This theory: the heap from the memory map to its clients, and values pushed onto a
    vector on it read back.

  \<^bold>\<open>Bounds.\<close> The queues of scancodes and task ids have their capacity of 100. The theorem
  on one poll of the keyboard task assumes fewer than 100 scancodes and wake-ups in flight,
  and the theorems on the executor and the whole kernel fewer than 99 scancodes at any 1000
  points in a row at which an interrupt can strike (\<open>paced\<close>), without a bound on their
  total; between two halts the loop passes fewer than 900 such points then, so both queues
  suffice. Beyond it scancodes are dropped with a
  warning (shown for whole bursts of interrupts) and, in a corner case, the queue of tasks
  overflows (shown as a property). Heaps lie below \<open>isize::MAX\<close>, as on the target.

  The demonstrations of \<open>kernel_main\<close> and the heap tests need less than 10 and 21 KiB
  of the heap of 100 KiB on the registered allocator over the linked-list heap.

  \<^bold>\<open>Not modelled.\<close> Code in comments (\<open>create_example_mapping\<close>, \<open>translate_addr\<close>, the
  page-table walks in \<open>main.rs\<close>), which is not compiled. The formatting of numbers other
  than unsigned ones is the text it produces: the texts of panics, stack frames and error
  codes are parameters, that of \<open>1.0/3.0\<close> is a constant. On the machine, during the
  boot and the tests, interrupts strike between the statements of the program; in the
  executor's loop, at the points where the shared structures are used. The recursion of a
  stack overflow has no other effect than its use of the stack.

  The executor's own use of the heap is not modelled: \<open>Executor::new\<close>, \<open>Task::new\<close> with
  \<open>Box::pin\<close>, the \<open>Arc\<close> of queue and wakers, the \<open>BTreeMap\<close>s and the queue of
  scancodes allocate on the registered heap, while in the model tasks, maps and queues are
  values. So the theorems on the executor exclude neither that these few allocations fail
  nor that they disturb other blocks (the latter is what the contract of the allocator
  excludes for every client), and the heap of \<open>kernel_run\<close> is the one that the boot
  leaves. Wakers have no reference counts. A panic inside the executor is reported
  with the machine as it was before the executor started.

  All code that is compiled, the tests included, has its definitions.
\<close>

subsection \<open>Properties across components\<close>

text \<open>
  C2. From the memory map to the heap client: once \<open>init_heap\<close> has returned
  \<open>Ok\<close>, every program that allocates, frees and stores on the global allocator, with
  layouts that it accepts (\<open>fsb_request\<close>), runs without a panic, with disjoint, aligned blocks and intact data, and every byte of
  every block it holds lies in a page that is mapped present and writable to a frame
  that nothing else was given.
\<close>

theorem heap_client_on_mapped_memory:
  assumes vp: "virt_pages vops addr page_no" and pm: "page_mapper alloc fresh mp mapping"
    and fh: "fallback_heap req hops hinv"
    and frames: "fresh 100 (frame_state st) used" and st: "global_allocator st = fsb_new hops"
    and ok: "init_heap vops mp alloc hops st = Ret (Inr (), st')"
  shows "\<exists>c. client_run (fsb_request req) (fsb_alloc hops) (fsb_dealloc hops) trace
      (fresh_client (global_allocator st') (heap_memory st')) = Ret c \<and>
    client_ok (unat HEAP_START) (unat HEAP_START + unat HEAP_SIZE) c \<and>
    (\<forall>b x. b \<in># live c \<and> covers x (block_extent b) \<longrightarrow>
      (\<exists>p f. page_no p = x div 4096 \<and> mapping (page_tables st') p = Some (f, {PRESENT, WRITABLE}) \<and> f \<notin> used))"
proof -
  from init_heap_law [OF vp pm fh frames st] ok obtain ps fs where
    ps: "map page_no ps = map (\<lambda>i. unat HEAP_START div 4096 + i) [0..<25]" and fs: "set fs \<inter> used = {}" "length fs = 25"
    and m: "mapping (page_tables st') = (mapping (page_tables st))
      (take (length fs) ps [\<mapsto>] map (\<lambda>f. (f, {PRESENT, WRITABLE})) fs)"
    and inv: "fsb_inv hinv (unat HEAP_START) (unat HEAP_START + unat HEAP_SIZE) (global_allocator st') (heap_memory st') {#}"
    by auto
  have "length ps = 25" using arg_cong [OF ps, of length] by simp
  with m fs(2) have m': "mapping (page_tables st') = (mapping (page_tables st))(ps [\<mapsto>] map (\<lambda>f. (f, {PRESENT, WRITABLE})) fs)"
    by simp
  from fallback_heap.fsb_client_run [OF fh inv] obtain c where
    c: "client_run (fsb_request req) (fsb_alloc hops) (fsb_dealloc hops) trace
      (fresh_client (global_allocator st') (heap_memory st')) = Ret c"
    "client_ok (unat HEAP_START) (unat HEAP_START + unat HEAP_SIZE) c" by blast
  have "\<exists>p f. page_no p = x div 4096 \<and> mapping (page_tables st') p = Some (f, {PRESENT, WRITABLE}) \<and> f \<notin> used"
    if "b \<in># live c" "covers x (block_extent b)" for b x
  proof -
    have "placed (unat HEAP_START) (unat HEAP_START + unat HEAP_SIZE) b"
      using c(2) that(1) by (simp add: client_ok_def live_ok_def)
    with that(2) have "unat HEAP_START \<le> x" "x < unat HEAP_START + unat HEAP_SIZE"
      by (auto simp: placed_def covers_def block_extent_def)
    from heap_byte_mapped [OF this ps fs(2) m'] fs(1) show ?thesis by blast
  qed
  with c show ?thesis by blast
qed

theorem heap_client_on_mapped_memory_witness:
  "\<exists>st' c. init_heap word_virt table_mapper (allocate_frame region_list_ops word_frames) ll_heap_ops
      (example_heap_state\<lparr>frame_state := boot_info_init large_map\<rparr>) = Ret (Inr (), st') \<and>
    client_run (fsb_request ll_request) (fsb_alloc ll_heap_ops) (fsb_dealloc ll_heap_ops) [AllocOp example_layout]
      (fresh_client (global_allocator st') (heap_memory st')) = Ret c \<and>
    client_ok (unat HEAP_START) (unat HEAP_START + unat HEAP_SIZE) c"
proof -
  let ?st = "example_heap_state\<lparr>frame_state := boot_info_init large_map\<rparr>"
  have ok: "\<exists>st'. init_heap word_virt table_mapper (allocate_frame region_list_ops word_frames) ll_heap_ops ?st = Ret (Inr (), st')"
    using init_heap_ok [OF word_virt.virt_pages_axioms table_boot.boot_mapper_axioms ll_fallback.fallback_heap_axioms,
        where mops = region_list_ops and st = ?st]
    by (auto simp: large_map_frames)
  have "boot_fresh region_list_ops word_frames 100 (frame_state ?st) {}"
    by (simp add: boot_fresh_def boot_info_init_def memory_map_ok_def region_list_ops_def)
  from heap_client_on_mapped_memory [OF word_virt.virt_pages_axioms table_mapper.page_mapper_axioms
      ll_fallback.fallback_heap_axioms this, of _ "[AllocOp example_layout]"] ok show ?thesis by fastforce
qed

text \<open>
  C21. What is pushed is read back: on the registered allocator, initialised on the kernel's
  heap, pushing any list of numbers onto an empty vector returns, through all the
  reallocations it takes, and the vector then holds exactly that list, as long as the
  blocks of its growth fit into the heap together.
\<close>

theorem pushed_values_read_back:
  fixes xs :: "u64 list"
  assumes rf: "roomy_fallback req ops hinv need room" and len: "length xs \<le> grown_cap k" "xs \<noteq> []"
    and arr: "array_ok TYPE(64) (grown_cap k)" and req: "\<forall>i<k. fsb_request req (array_block TYPE(64) (grown_cap (Suc i)))"
    and need: "growth_need (fsb_need need) TYPE(64) k \<le> unat HEAP_SIZE"
  shows "\<exists>h v h'. fsb_init ops (fsb_new ops) m HEAP_START HEAP_SIZE = Ret h \<and>
    for_each xs (vec_push (fsb_alloc ops) (fsb_dealloc ops)) (vec_new, h) = Ret (v, h') \<and> vec_elems (snd h') v = xs"
proof -
  from fallback_heap.fsb_init_inv [OF roomy_fallback.axioms(1) [OF rf] heap_region_ok_HEAP, of m] obtain s m' where
    h: "fsb_init ops (fsb_new ops) m HEAP_START HEAP_SIZE = Ret (s, m')" by blast
  have hi: "unat HEAP_START + unat HEAP_SIZE \<le> 2 ^ 64" by (simp add: HEAP_START_def HEAP_SIZE_def)
  from roomy_alloc.vec_pushes_has [OF roomy_fallback.fsb_roomy [OF rf] roomy_fallback.fsb_init_has [OF rf h] hi len arr _ need] req
  show ?thesis using h by auto
qed

theorem pushed_values_read_back_witness:
  "\<exists>h v h'. fsb_init ll_heap_ops (fsb_new ll_heap_ops) (\<lambda>_. 0) HEAP_START HEAP_SIZE = Ret h \<and>
    for_each [7, 8, 9, 10, 11 :: u64] (vec_push (fsb_alloc ll_heap_ops) (fsb_dealloc ll_heap_ops)) (vec_new, h) = Ret (v, h') \<and>
    vec_elems (snd h') v = [7, 8, 9, 10, 11 :: u64]"
proof -
  have g: "grown_cap 2 = 8" "grown_cap (Suc 0) = 4" "grown_cap (Suc (Suc 0)) = 8" by (simp_all add: grown_cap_def)
  have "growth_need (fsb_need ll_need) TYPE(64) 2 = 224"
    by (simp add: growth_need_def numeral_2_eq_2 g fsb_need_array)
  then have n: "growth_need (fsb_need ll_need) TYPE(64) 2 \<le> unat HEAP_SIZE" by (simp add: HEAP_SIZE_def)
  have r: "\<forall>i<2. fsb_request ll_request (array_block TYPE(64) (grown_cap (Suc i)))"
  proof (intro allI impI)
    fix i :: nat assume "i < 2"
    then have "array_block TYPE(64) (grown_cap (Suc i)) \<in> heap_tests_layouts" by (auto simp: heap_tests_layouts_def)
    with heap_tests_fsb_request show "fsb_request ll_request (array_block TYPE(64) (grown_cap (Suc i)))" by blast
  qed
  have a: "array_ok TYPE(64) (grown_cap 2)" by (simp add: g array_ok_numerals)
  have l: "length [7, 8, 9, 10, 11 :: u64] \<le> grown_cap 2" "[7, 8, 9, 10, 11 :: u64] \<noteq> []" by (simp_all add: g)
  from pushed_values_read_back [OF ll_fallback.roomy_fallback_axioms l a r n] show ?thesis by blast
qed

end
